(* ===== verification/Prelude.thy ===== *)
theory Prelude
  imports Main "HOL-Library.Word"
begin

unbundle bit_operations_syntax

text \<open>
  The shared vocabulary of the development: the C integer types, the outcomes a C
  execution can have, the state-passing programs the components are written in, and the
  three proof tools every component uses: weakest preconditions (\<open>wp\<close>), preservation
  of an invariant (\<open>preserves\<close>) and respect for a relation on states
  (\<open>respecting\<close>), each with its compositional rules in a collection of its own.
\<close>

section \<open>Machine integers\<close>

type_synonym u8 = "8 word"
type_synonym u16 = "16 word"
type_synonym u32 = "32 word"
type_synonym u64 = "64 word"

section \<open>Outcomes of a C execution\<close>

text \<open>
  A call returns, ends the process with \<open>exit\<close>, fails an \<open>assert\<close> (which aborts the
  process), does something to which C gives no meaning, or is still running. An undefined
  run records its cause: an access outside an object, a shift by a count outside the width, a
  read of an uninitialised local variable, a character array without a terminator used as a
  string, or a number converted to a type that cannot hold it. \<open>Pending\<close> is the outcome
  of a loop without a bound when the fuel it is given is used up.
\<close>

datatype undef = Out_of_bounds | Shift_range | Uninitialised | Bad_string | Value_range

datatype 'a outcome = Ret 'a | Exit int | Abort | Undefined undef | Pending

primrec obind :: "'a outcome \<Rightarrow> ('a \<Rightarrow> 'b outcome) \<Rightarrow> 'b outcome" where
  "obind (Ret v) f = f v"
| "obind (Exit c) f = Exit c"
| "obind Abort f = Abort"
| "obind (Undefined u) f = Undefined u"
| "obind Pending f = Pending"

lemma obind_Ret_iff: "obind m f = Ret w \<longleftrightarrow> (\<exists>v. m = Ret v \<and> f v = Ret w)"
  by (cases m) auto

lemma obind_assoc: "obind (obind m f) g = obind m (\<lambda>v. obind (f v) g)"
  by (cases m) auto

lemma obind_if [simp]: "obind (if b then m else n) f = (if b then obind m f else obind n f)"
  by simp

section \<open>The host\<close>

text \<open>
  What the program's behaviour takes from the C implementation it is built with: the
  value of a shift whose count is outside \<open>0..31\<close> (\<open>None\<close> where no value can be
  relied on, as in the C standard), the byte order of the host, and whether the
  preprocessor symbol \<open>BIG_ENDIAN_SIMULATOR\<close> is defined.
\<close>

record host =
  shl_past :: "u32 \<Rightarrow> int \<Rightarrow> u32 option"
  shr_past :: "u32 \<Rightarrow> int \<Rightarrow> u32 option"
  host_big_endian :: bool
  big_endian_simulator :: bool

text \<open>
  Two hosts used in statements and examples. \<open>strict_host\<close> gives no value to a shift
  out of range; \<open>x86_host\<close> takes the count modulo 32, as the shift instructions of
  that machine do.
\<close>

definition strict_host :: host where
  "strict_host = \<lparr>shl_past = (\<lambda>x n. None), shr_past = (\<lambda>x n. None),
     host_big_endian = False, big_endian_simulator = True\<rparr>"

definition x86_host :: host where
  "x86_host = \<lparr>shl_past = (\<lambda>x n. Some (push_bit (nat (n mod 32)) x)),
     shr_past = (\<lambda>x n. Some (drop_bit (nat (n mod 32)) x)),
     host_big_endian = False, big_endian_simulator = True\<rparr>"

section \<open>State-passing programs\<close>

type_synonym ('s, 'a) prog = "host \<Rightarrow> 's \<Rightarrow> ('a \<times> 's) outcome"

definition ret :: "'a \<Rightarrow> ('s, 'a) prog" where
  "ret v = (\<lambda>h s. Ret (v, s))"

definition mbind :: "('s, 'a) prog \<Rightarrow> ('a \<Rightarrow> ('s, 'b) prog) \<Rightarrow> ('s, 'b) prog" where
  "mbind m f = (\<lambda>h s. obind (m h s) (\<lambda>(v, s'). f v h s'))"

abbreviation mseq :: "('s, 'a) prog \<Rightarrow> ('s, 'b) prog \<Rightarrow> ('s, 'b) prog" where
  "mseq m n \<equiv> mbind m (\<lambda>_. n)"

definition mwhen :: "bool \<Rightarrow> ('s, unit) prog \<Rightarrow> ('s, unit) prog" where
  "mwhen b m = (if b then m else ret ())"

definition gets :: "('s \<Rightarrow> 'a) \<Rightarrow> ('s, 'a) prog" where
  "gets f = (\<lambda>h s. Ret (f s, s))"

definition modify :: "('s \<Rightarrow> 's) \<Rightarrow> ('s, unit) prog" where
  "modify f = (\<lambda>h s. Ret ((), f s))"

definition lift_o :: "'a outcome \<Rightarrow> ('s, 'a) prog" where
  "lift_o m = (\<lambda>h s. obind m (\<lambda>v. Ret (v, s)))"

definition update_o :: "('s \<Rightarrow> 's outcome) \<Rightarrow> ('s, unit) prog" where
  "update_o f = (\<lambda>h s. obind (f s) (\<lambda>s'. Ret ((), s')))"

definition undefined_as :: "undef \<Rightarrow> ('s, 'a) prog" where
  "undefined_as u = (\<lambda>h s. Undefined u)"

definition exit_with :: "int \<Rightarrow> ('s, 'a) prog" where
  "exit_with c = (\<lambda>h s. Exit c)"

definition c_assert :: "bool \<Rightarrow> ('s, unit) prog" where
  "c_assert b = (\<lambda>h s. if b then Ret ((), s) else Abort)"

text \<open>Reading a local variable that may not have been assigned.\<close>

definition read_local :: "'a option \<Rightarrow> ('s, 'a) prog" where
  "read_local v = (case v of Some x \<Rightarrow> ret x | None \<Rightarrow> undefined_as Uninitialised)"

lemma mbind_ret [simp]: "mbind (ret v) f = f v"
  by (simp add: mbind_def ret_def fun_eq_iff)

lemma mbind_ret_right [simp]: "mbind m ret = m"
proof (intro ext)
  fix h s show "mbind m ret h s = m h s"
    by (cases "m h s") (auto simp: mbind_def ret_def)
qed

lemma mbind_assoc: "mbind (mbind m f) g = mbind m (\<lambda>v. mbind (f v) g)"
  by (auto simp: mbind_def fun_eq_iff obind_assoc intro!: arg_cong [where f = "obind _"])

lemma read_local_Some [simp]: "read_local (Some v) = ret v"
  by (simp add: read_local_def)

lemma lift_o_Ret [simp]: "lift_o (Ret v) = ret v"
  by (simp add: lift_o_def ret_def fun_eq_iff)

section \<open>Weakest preconditions\<close>

text \<open>
  \<open>wp m h Q s\<close>: on host \<open>h\<close> and from state \<open>s\<close> the program \<open>m\<close> returns,
  and its value and final state satisfy \<open>Q\<close>. It says that the program neither exits
  nor aborts nor runs into undefined behaviour.
\<close>

definition wp :: "('s, 'a) prog \<Rightarrow> host \<Rightarrow> ('a \<Rightarrow> 's \<Rightarrow> bool) \<Rightarrow> 's \<Rightarrow> bool" where
  "wp m h Q s = (case m h s of Ret (v, s') \<Rightarrow> Q v s' | _ \<Rightarrow> False)"

named_theorems wp_simps

lemma wp_iff: "wp m h Q s \<longleftrightarrow> (\<exists>v s'. m h s = Ret (v, s') \<and> Q v s')"
  by (auto simp: wp_def split: outcome.splits prod.splits)

lemma wp_mono: "wp m h Q s \<Longrightarrow> (\<And>v s'. Q v s' \<Longrightarrow> R v s') \<Longrightarrow> wp m h R s"
  by (auto simp: wp_iff)

lemma wp_conj: "wp m h Q s \<Longrightarrow> wp m h R s \<Longrightarrow> wp m h (\<lambda>v t. Q v t \<and> R v t) s"
  by (auto simp: wp_iff)

lemma wp_false [simp]: "\<not> wp m h (\<lambda>v t. False) s"
  by (simp add: wp_iff)

lemma wp_ret [wp_simps]: "wp (ret v) h Q s \<longleftrightarrow> Q v s"
  by (simp add: wp_def ret_def)

lemma wp_bind [wp_simps]: "wp (mbind m f) h Q s \<longleftrightarrow> wp m h (\<lambda>v s'. wp (f v) h Q s') s"
  by (auto simp: wp_def mbind_def split: outcome.splits prod.splits)

lemma wp_gets [wp_simps]: "wp (gets f) h Q s \<longleftrightarrow> Q (f s) s"
  by (simp add: wp_def gets_def)

lemma wp_modify [wp_simps]: "wp (modify f) h Q s \<longleftrightarrow> Q () (f s)"
  by (simp add: wp_def modify_def)

lemma wp_when [wp_simps]: "wp (mwhen b m) h Q s \<longleftrightarrow> (if b then wp m h Q s else Q () s)"
  by (simp add: mwhen_def wp_ret)

lemma wp_if [wp_simps]:
  "wp (if b then m else n) h Q s \<longleftrightarrow> (if b then wp m h Q s else wp n h Q s)"
  by simp

lemma wp_lift_o [wp_simps]: "wp (lift_o m) h Q s \<longleftrightarrow> (\<exists>v. m = Ret v \<and> Q v s)"
  by (cases m) (auto simp: wp_def lift_o_def)

lemma wp_update_o [wp_simps]: "wp (update_o f) h Q s \<longleftrightarrow> (\<exists>s'. f s = Ret s' \<and> Q () s')"
  by (cases "f s") (auto simp: wp_def update_o_def)

lemma wp_assert [wp_simps]: "wp (c_assert b) h Q s \<longleftrightarrow> b \<and> Q () s"
  by (simp add: wp_def c_assert_def)

lemma wp_undefined [wp_simps]: "\<not> wp (undefined_as u) h Q s"
  by (simp add: wp_def undefined_as_def)

lemma wp_exit [wp_simps]: "\<not> wp (exit_with c) h Q s"
  by (simp add: wp_def exit_with_def)

lemma wp_read_local [wp_simps]: "wp (read_local v) h Q s \<longleftrightarrow> (\<exists>x. v = Some x \<and> Q x s)"
  by (cases v) (auto simp: read_local_def wp_undefined wp_ret)

section \<open>Preservation of an invariant\<close>

definition preserves :: "('s \<Rightarrow> bool) \<Rightarrow> ('s, 'a) prog \<Rightarrow> bool" where
  "preserves I m \<longleftrightarrow> (\<forall>h s v s'. m h s = Ret (v, s') \<longrightarrow> I s \<longrightarrow> I s')"

named_theorems pres

lemma preservesD: "preserves I m \<Longrightarrow> m h s = Ret (v, s') \<Longrightarrow> I s \<Longrightarrow> I s'"
  by (auto simp: preserves_def)

lemma preserves_wp: "preserves I m \<Longrightarrow> wp m h Q s \<Longrightarrow> I s \<Longrightarrow> wp m h (\<lambda>v t. Q v t \<and> I t) s"
  by (auto simp: preserves_def wp_iff)

lemma preserves_ret [pres]: "preserves I (ret v)"
  by (simp add: preserves_def ret_def)

lemma preserves_bind [pres]:
  "preserves I m \<Longrightarrow> (\<And>v. preserves I (f v)) \<Longrightarrow> preserves I (mbind m f)"
  by (fastforce simp: preserves_def mbind_def obind_Ret_iff)

lemma preserves_gets [pres]: "preserves I (gets f)"
  by (simp add: preserves_def gets_def)

lemma preserves_lift_o [pres]: "preserves I (lift_o m)"
  by (auto simp: preserves_def lift_o_def obind_Ret_iff)

lemma preserves_assert [pres]: "preserves I (c_assert b)"
  by (simp add: preserves_def c_assert_def)

lemma preserves_undefined [pres]: "preserves I (undefined_as u)"
  by (simp add: preserves_def undefined_as_def)

lemma preserves_exit [pres]: "preserves I (exit_with c)"
  by (simp add: preserves_def exit_with_def)

lemma preserves_read_local [pres]: "preserves I (read_local v)"
  by (cases v) (simp_all add: read_local_def preserves_ret preserves_undefined)

lemma preserves_when [pres]: "preserves I m \<Longrightarrow> preserves I (mwhen b m)"
  by (simp add: mwhen_def preserves_ret)

lemma preserves_if [pres]:
  "(b \<Longrightarrow> preserves I m) \<Longrightarrow> (\<not> b \<Longrightarrow> preserves I n) \<Longrightarrow> preserves I (if b then m else n)"
  by simp

lemma preserves_case_prod [pres]:
  "(\<And>a b. preserves I (f a b)) \<Longrightarrow> preserves I (case p of (a, b) \<Rightarrow> f a b)"
  by (cases p) simp

text \<open>Rules that carry what is known of a state read, or of a value returned, into the rest.\<close>

lemma preserves_gets_bind:
  "(\<And>s. I s \<Longrightarrow> preserves I (f (g s))) \<Longrightarrow> preserves I (mbind (gets g) f)"
  by (fastforce simp: preserves_def mbind_def gets_def)

lemma preserves_lift_bind:
  "(\<And>v. m = Ret v \<Longrightarrow> preserves I (f v)) \<Longrightarrow> preserves I (mbind (lift_o m) f)"
  by (fastforce simp: preserves_def mbind_def lift_o_def obind_Ret_iff)

lemma preserves_modify: "(\<And>s. I s \<Longrightarrow> I (f s)) \<Longrightarrow> preserves I (modify f)"
  by (auto simp: preserves_def modify_def)

lemma preserves_update_o:
  "(\<And>s s'. f s = Ret s' \<Longrightarrow> I s \<Longrightarrow> I s') \<Longrightarrow> preserves I (update_o f)"
  by (auto simp: preserves_def update_o_def obind_Ret_iff)

section \<open>Values a program can return\<close>

definition yields :: "('a \<Rightarrow> bool) \<Rightarrow> ('s, 'a) prog \<Rightarrow> bool" where
  "yields P m \<longleftrightarrow> (\<forall>h s v s'. m h s = Ret (v, s') \<longrightarrow> P v)"

named_theorems yld

lemma yieldsD: "yields P m \<Longrightarrow> m h s = Ret (v, s') \<Longrightarrow> P v"
  by (auto simp: yields_def)

lemma yields_mono: "yields P m \<Longrightarrow> (\<And>v. P v \<Longrightarrow> Q v) \<Longrightarrow> yields Q m"
  by (auto simp: yields_def)

lemma yields_ret [yld]: "P v \<Longrightarrow> yields P (ret v)"
  by (simp add: yields_def ret_def)

lemma yields_bind [yld]: "(\<And>v. yields P (f v)) \<Longrightarrow> yields P (mbind m f)"
  by (fastforce simp: yields_def mbind_def obind_Ret_iff)

lemma yields_bind_value: "yields Q m \<Longrightarrow> (\<And>v. Q v \<Longrightarrow> yields P (f v)) \<Longrightarrow> yields P (mbind m f)"
  by (fastforce simp: yields_def mbind_def obind_Ret_iff)

lemma mbind_cong_yields:
  assumes "yields P m" "\<And>v. P v \<Longrightarrow> f v = g v"
  shows "mbind m f = mbind m g"
proof (intro ext)
  fix h s show "mbind m f h s = mbind m g h s"
  proof (cases "m h s")
    case (Ret p)
    then have "f (fst p) = g (fst p)" using assms(2) yieldsD [OF assms(1), of h s "fst p" "snd p"] by simp
    with Ret show ?thesis by (simp add: mbind_def split_beta)
  qed (simp_all add: mbind_def)
qed

lemma yields_exit [yld]: "yields P (exit_with c)"
  by (simp add: yields_def exit_with_def)

lemma yields_undefined [yld]: "yields P (undefined_as u)"
  by (simp add: yields_def undefined_as_def)

lemma yields_if [yld]:
  "(b \<Longrightarrow> yields P m) \<Longrightarrow> (\<not> b \<Longrightarrow> yields P n) \<Longrightarrow> yields P (if b then m else n)"
  by simp

lemma yields_case_prod [yld]:
  "(\<And>a b. yields P (f a b)) \<Longrightarrow> yields P (case p of (a, b) \<Rightarrow> f a b)"
  by (cases p) simp

section \<open>Respect for a relation on states\<close>

text \<open>
  \<open>respecting R m\<close>: from related states \<open>m\<close> ends the same way, with the same value
  and related final states. Where \<open>R\<close> relates states that differ in one part only,
  it says that this part has no influence on the rest.
\<close>

definition outcome_rel ::
  "('s \<Rightarrow> 's \<Rightarrow> bool) \<Rightarrow> ('a \<times> 's) outcome \<Rightarrow> ('a \<times> 's) outcome \<Rightarrow> bool" where
  "outcome_rel R x y \<longleftrightarrow> (case x of
       Ret (v, s) \<Rightarrow> (case y of Ret (w, t) \<Rightarrow> v = w \<and> R s t | _ \<Rightarrow> False)
     | Exit c \<Rightarrow> y = Exit c
     | Abort \<Rightarrow> y = Abort
     | Undefined u \<Rightarrow> y = Undefined u
     | Pending \<Rightarrow> y = Pending)"

lemma outcome_rel_simps [simp]:
  "outcome_rel R (Ret (v, s)) (Ret (w, t)) \<longleftrightarrow> v = w \<and> R s t"
  "outcome_rel R (Exit c) y \<longleftrightarrow> y = Exit c"
  "outcome_rel R Abort y \<longleftrightarrow> y = Abort"
  "outcome_rel R (Undefined u) y \<longleftrightarrow> y = Undefined u"
  "outcome_rel R Pending y \<longleftrightarrow> y = Pending"
  by (auto simp: outcome_rel_def)

definition respecting :: "('s \<Rightarrow> 's \<Rightarrow> bool) \<Rightarrow> ('s, 'a) prog \<Rightarrow> bool" where
  "respecting R m \<longleftrightarrow> (\<forall>h s t. R s t \<longrightarrow> outcome_rel R (m h s) (m h t))"

named_theorems resp

lemma respecting_ret [resp]: "respecting R (ret v)"
  by (simp add: respecting_def ret_def)

lemma respecting_bind [resp]:
  assumes m: "respecting R m" and f: "\<And>v. respecting R (f v)"
  shows "respecting R (mbind m f)"
  unfolding respecting_def
proof (intro allI impI)
  fix h s t assume "R s t"
  with m have o: "outcome_rel R (m h s) (m h t)" by (simp add: respecting_def)
  show "outcome_rel R (mbind m f h s) (mbind m f h t)"
  proof (cases "m h s")
    case (Ret p)
    obtain v s' where p: "p = (v, s')" by (cases p)
    with o Ret obtain t' where t': "m h t = Ret (v, t')" "R s' t'"
      by (auto simp: outcome_rel_def split: outcome.splits)
    with f [of v] Ret p show ?thesis by (simp add: mbind_def respecting_def)
  qed (use o in \<open>auto simp: mbind_def\<close>)
qed

lemma respecting_lift_o [resp]: "respecting R (lift_o m)"
  by (cases m) (auto simp: respecting_def lift_o_def)

lemma respecting_assert [resp]: "respecting R (c_assert b)"
  by (simp add: respecting_def c_assert_def)

lemma respecting_undefined [resp]: "respecting R (undefined_as u)"
  by (simp add: respecting_def undefined_as_def)

lemma respecting_exit [resp]: "respecting R (exit_with c)"
  by (simp add: respecting_def exit_with_def)

lemma respecting_read_local [resp]: "respecting R (read_local v)"
  by (cases v) (simp_all add: read_local_def respecting_ret respecting_undefined)

lemma respecting_when [resp]: "respecting R m \<Longrightarrow> respecting R (mwhen b m)"
  by (simp add: mwhen_def respecting_ret)

lemma respecting_if [resp]:
  "(b \<Longrightarrow> respecting R m) \<Longrightarrow> (\<not> b \<Longrightarrow> respecting R n) \<Longrightarrow> respecting R (if b then m else n)"
  by simp

lemma respecting_case_prod [resp]:
  "(\<And>a b. respecting R (f a b)) \<Longrightarrow> respecting R (case p of (a, b) \<Rightarrow> f a b)"
  by (cases p) simp

lemma respecting_gets_bind:
  "(\<And>s t. R s t \<Longrightarrow> g s = g t) \<Longrightarrow> (\<And>s t. R s t \<Longrightarrow> respecting R (f (g s))) \<Longrightarrow>
     respecting R (mbind (gets g) f)"
  by (fastforce simp: respecting_def mbind_def gets_def)

lemma respecting_lift_bind:
  "(\<And>v. m = Ret v \<Longrightarrow> respecting R (f v)) \<Longrightarrow> respecting R (mbind (lift_o m) f)"
  by (cases m) (auto simp: respecting_def mbind_def lift_o_def)

lemma respecting_gets: "(\<And>s t. R s t \<Longrightarrow> f s = f t) \<Longrightarrow> respecting R (gets f)"
  by (auto simp: respecting_def gets_def)

lemma respecting_modify: "(\<And>s t. R s t \<Longrightarrow> R (f s) (f t)) \<Longrightarrow> respecting R (modify f)"
  by (auto simp: respecting_def modify_def)

section \<open>Words\<close>

lemma of_nat_u32_eq_iff: "m < 2 ^ 32 \<Longrightarrow> n < 2 ^ 32 \<Longrightarrow> of_nat m = (of_nat n :: u32) \<longleftrightarrow> m = n"
  by (simp add: word_of_nat_eq_iff take_bit_nat_eq_self)

section \<open>The shift operators of C\<close>

text \<open>
  \<open>x << n\<close> and \<open>x >> n\<close> on \<open>uint32_t\<close> (or on an \<open>int\<close> whose bits are read as
  one, as gcc defines it): the count has to be in \<open>0..31\<close>, otherwise the host decides.
\<close>

definition past_width :: "u32 option \<Rightarrow> ('s, u32) prog" where
  "past_width r = (case r of Some y \<Rightarrow> ret y | None \<Rightarrow> undefined_as Shift_range)"

definition c_shl :: "u32 \<Rightarrow> int \<Rightarrow> ('s, u32) prog" where
  "c_shl x n = (if 0 \<le> n \<and> n < 32 then ret (push_bit (nat n) x)
     else (\<lambda>h. past_width (shl_past h x n) h))"

definition c_shr :: "u32 \<Rightarrow> int \<Rightarrow> ('s, u32) prog" where
  "c_shr x n = (if 0 \<le> n \<and> n < 32 then ret (drop_bit (nat n) x)
     else (\<lambda>h. past_width (shr_past h x n) h))"

lemma c_shl_in [simp]: "0 \<le> n \<Longrightarrow> n < 32 \<Longrightarrow> c_shl x n = ret (push_bit (nat n) x)"
  by (simp add: c_shl_def)

lemma c_shr_in [simp]: "0 \<le> n \<Longrightarrow> n < 32 \<Longrightarrow> c_shr x n = ret (drop_bit (nat n) x)"
  by (simp add: c_shr_def)

lemma wp_c_shl [wp_simps]:
  "wp (c_shl x n) h Q s \<longleftrightarrow>
     (if 0 \<le> n \<and> n < 32 then Q (push_bit (nat n) x) s
      else (\<exists>y. shl_past h x n = Some y \<and> Q y s))"
  by (cases "shl_past h x n")
    (auto simp: c_shl_def wp_def past_width_def ret_def undefined_as_def)

lemma wp_c_shr [wp_simps]:
  "wp (c_shr x n) h Q s \<longleftrightarrow>
     (if 0 \<le> n \<and> n < 32 then Q (drop_bit (nat n) x) s
      else (\<exists>y. shr_past h x n = Some y \<and> Q y s))"
  by (cases "shr_past h x n")
    (auto simp: c_shr_def wp_def past_width_def ret_def undefined_as_def)

lemma preserves_c_shl [pres]: "preserves I (c_shl x n)"
  by (auto simp: preserves_def c_shl_def past_width_def ret_def undefined_as_def
      split: if_splits option.splits)

lemma preserves_c_shr [pres]: "preserves I (c_shr x n)"
  by (auto simp: preserves_def c_shr_def past_width_def ret_def undefined_as_def
      split: if_splits option.splits)

lemma respecting_c_shl [resp]: "respecting R (c_shl x n)"
  by (auto simp: respecting_def c_shl_def past_width_def ret_def undefined_as_def
      split: if_splits option.splits)

lemma respecting_c_shr [resp]: "respecting R (c_shr x n)"
  by (auto simp: respecting_def c_shr_def past_width_def ret_def undefined_as_def
      split: if_splits option.splits)

section \<open>Runs that do not return\<close>

text \<open>
  \<open>ends m h s e\<close>: the program does not return; it exits, aborts or is undefined, and
  \<open>e\<close> says which. Like \<open>wp\<close> it is computed along the program.
\<close>

named_theorems end_simps

definition ends :: "('s, 'a) prog \<Rightarrow> host \<Rightarrow> 's \<Rightarrow> unit outcome \<Rightarrow> bool" where
  "ends m h s e \<longleftrightarrow> obind (m h s) (\<lambda>_. Ret ()) = e \<and> e \<noteq> Ret ()"

lemma ends_simps: "ends m h s (Exit c) \<longleftrightarrow> m h s = Exit c"
  "ends m h s Abort \<longleftrightarrow> m h s = Abort" "ends m h s (Undefined u) \<longleftrightarrow> m h s = Undefined u"
  by (cases "m h s"; simp add: ends_def)+

lemma ends_bind [end_simps]:
  "ends (mbind m f) h s e \<longleftrightarrow> ends m h s e \<or> wp m h (\<lambda>v t. ends (f v) h t e) s"
  by (cases "m h s") (auto simp: ends_def mbind_def wp_def)

lemma ends_basic [end_simps]:
  "\<not> ends (ret v) h s e" "\<not> ends (gets g) h s e" "\<not> ends (modify k) h s e"
  "ends (exit_with c) h s e \<longleftrightarrow> e = Exit c" "ends (undefined_as u) h s e \<longleftrightarrow> e = Undefined u"
  by (auto simp: ends_def ret_def gets_def modify_def exit_with_def undefined_as_def)

lemma ends_assert [end_simps]: "ends (c_assert b) h s e \<longleftrightarrow> \<not> b \<and> e = Abort"
  by (auto simp: ends_def c_assert_def)

lemma ends_when [end_simps]: "ends (mwhen b m) h s e \<longleftrightarrow> b \<and> ends m h s e"
  by (auto simp: mwhen_def ends_def ret_def)

lemma ends_read_local [end_simps]:
  "ends (read_local v) h s e \<longleftrightarrow> v = None \<and> e = Undefined Uninitialised"
  by (cases v) (auto simp: read_local_def ends_def ret_def undefined_as_def)

lemma ends_if [end_simps]: "ends (if b then m else n) h s e \<longleftrightarrow> (if b then ends m h s e else ends n h s e)"
  by simp

lemma ends_c_shl [end_simps]:
  "ends (c_shl x n) h s e \<longleftrightarrow> \<not> (0 \<le> n \<and> n < 32) \<and> shl_past h x n = None \<and> e = Undefined Shift_range"
  "ends (c_shr x n) h s e \<longleftrightarrow> \<not> (0 \<le> n \<and> n < 32) \<and> shr_past h x n = None \<and> e = Undefined Shift_range"
  by (cases "shl_past h x n";
      auto simp: c_shl_def ends_def past_width_def ret_def undefined_as_def)
    (cases "shr_past h x n";
      auto simp: c_shr_def ends_def past_width_def ret_def undefined_as_def)

lemma ends_lift [end_simps]:
  "ends (lift_o m) h s e \<longleftrightarrow> obind m (\<lambda>_. Ret ()) = e \<and> e \<noteq> Ret ()"
  "ends (update_o g) h s e \<longleftrightarrow> obind (g s) (\<lambda>_. Ret ()) = e \<and> e \<noteq> Ret ()"
  by (cases m; auto simp: ends_def lift_o_def) (cases "g s"; auto simp: ends_def update_o_def)

end
