(* ===== verification/Util.thy ===== *)
theory Util
  imports Prelude
begin

unbundle bit_operations_syntax

text \<open>
  \<open>util.h\<close> and \<open>util.c\<close>: the bit-field macros and the four shift operations of the
  ARM barrel shifter, with what they compute in terms of the word library.
\<close>

section \<open>Bit fields\<close>

definition get_bit :: "u32 \<Rightarrow> nat \<Rightarrow> u32" where
  "get_bit x i = drop_bit i x AND 1"

text \<open>The same macro where the position is computed and can leave the width.\<close>

definition get_bit_at :: "u32 \<Rightarrow> int \<Rightarrow> ('s, u32) prog" where
  "get_bit_at x i = mbind (c_shr x i) (\<lambda>y. ret (y AND 1))"

definition get_bits :: "u32 \<Rightarrow> nat \<Rightarrow> nat \<Rightarrow> u32" where
  "get_bits x h l =
     drop_bit l x AND NOT (push_bit (h - l + 1) (signed_drop_bit (h - l + 1) (NOT 0)))"

definition set_bits :: "u32 \<Rightarrow> nat \<Rightarrow> nat \<Rightarrow> u32 \<Rightarrow> u32" where
  "set_bits x h l bits =
     (x AND NOT (push_bit l (signed_drop_bit l (NOT 0)))) OR
     (x AND push_bit (h + 1) (signed_drop_bit (h + 1) (NOT 0))) OR
     push_bit l bits"

definition reverse_2 :: "u32 \<Rightarrow> u32" where
  "reverse_2 x = push_bit 8 (x AND 0xFF) OR (drop_bit 8 x AND 0xFF)"

definition reverse_4 :: "u32 \<Rightarrow> u32" where
  "reverse_4 x = push_bit 24 (x AND 0xFF) OR push_bit 16 (drop_bit 8 x AND 0xFF) OR
     push_bit 8 (drop_bit 16 x AND 0xFF) OR (drop_bit 24 x AND 0xFF)"

definition set_bit32 :: "u32 \<Rightarrow> nat \<Rightarrow> u32" where
  "set_bit32 value position = value OR push_bit position 1"

definition clr_bit :: "u32 \<Rightarrow> nat \<Rightarrow> u32" where
  "clr_bit value position = value AND NOT (push_bit position 1)"

section \<open>Shifts\<close>

definition lsl :: "u32 \<Rightarrow> u8 \<Rightarrow> ('s, u32) prog" where
  "lsl value shift = c_shl value (uint shift)"

definition lsr :: "u32 \<Rightarrow> u8 \<Rightarrow> ('s, u32) prog" where
  "lsr value shift = c_shr value (uint shift)"

definition asr :: "u32 \<Rightarrow> u8 \<Rightarrow> ('s, u32) prog" where
  "asr value shift =
     mbind (c_shr value (uint shift)) (\<lambda>x.
     mbind (if get_bit value 31 \<noteq> 0 then c_shl (NOT 0) (32 - uint shift) else ret 0) (\<lambda>y.
     ret (x OR y)))"

definition ror :: "u32 \<Rightarrow> u8 \<Rightarrow> ('s, u32) prog" where
  "ror value rotation =
     mbind (c_shr value (uint rotation)) (\<lambda>x.
     mbind (c_shl value (32 - uint rotation)) (\<lambda>y.
     ret (x OR y)))"

definition is_big_endian :: "('s, int) prog" where
  "is_big_endian = (\<lambda>h. ret (if host_big_endian h then 1 else 0) h)"

section \<open>What the bit fields are\<close>

lemma get_bit_eq_iff [simp]:
  "get_bit x i = 0 \<longleftrightarrow> \<not> bit x i" "get_bit x i = 1 \<longleftrightarrow> bit x i"
  by (simp_all add: get_bit_def and_one_eq odd_iff_mod_2_eq_one bit_iff_odd_drop_bit)

lemma get_bit_of_bool: "get_bit x i = of_bool (bit x i)"
  by (cases "bit x i") simp_all

lemma get_bits_take: "h - l < 31 \<Longrightarrow> get_bits x h l = take_bit (h - l + 1) (drop_bit l x)"
  by (rule bit_word_eqI) (auto simp: get_bits_def bit_simps)

lemma bit_get_bits:
  "h - l < 31 \<Longrightarrow> bit (get_bits x h l) i \<longleftrightarrow> i < h - l + 1 \<and> bit x (l + i)"
  by (auto simp: get_bits_take bit_simps)

lemma get_bits_less: "h - l < 31 \<Longrightarrow> unat (get_bits x h l) < 2 ^ (h - l + 1)"
  using take_bit_nat_less_exp [of "h - l + 1" "unat (drop_bit l x)"]
  by (simp only: get_bits_take unsigned_take_bit_eq)

lemma unat_less_32 [simp]: "unat (x :: u32) < 4294967296"
  using unsigned_less [of x] by simp

lemma unat_get_bits:
  "h - l < 31 \<Longrightarrow> unat (get_bits x h l) = unat x div 2 ^ l mod 2 ^ (h - l + 1)"
  by (simp only: get_bits_take unsigned_take_bit_eq unsigned_drop_bit_eq)
    (simp add: take_bit_eq_mod drop_bit_eq_div)

text \<open>The form in which fields of a concrete word are computed.\<close>

lemma get_bits_eval:
  "h - l < 31 \<Longrightarrow> get_bits x h l = of_nat (unat x div 2 ^ l mod 2 ^ (h - l + 1))"
  by (subst unat_get_bits [symmetric]) simp_all

lemma bit_set_bit32: "i < 32 \<Longrightarrow> bit (set_bit32 x p) i \<longleftrightarrow> bit x i \<or> i = p"
  by (auto simp: set_bit32_def bit_simps)

lemma bit_clr_bit: "i < 32 \<Longrightarrow> bit (clr_bit x p) i \<longleftrightarrow> bit x i \<and> i \<noteq> p"
  by (auto simp: clr_bit_def bit_simps)

section \<open>What the shifts are\<close>

lemma shift_count:
  fixes n :: u8
  shows "uint n < 32 \<longleftrightarrow> unat n < 32" "nat (uint n) = unat n" "nat (32 - uint n) = 32 - unat n"
    "uint n \<le> 32 \<longleftrightarrow> unat n \<le> 32" "0 < uint n \<longleftrightarrow> 0 < unat n"
proof -
  have u: "uint n = int (unat n)" by simp
  show "uint n < 32 \<longleftrightarrow> unat n < 32" "nat (uint n) = unat n" "nat (32 - uint n) = 32 - unat n"
    "uint n \<le> 32 \<longleftrightarrow> unat n \<le> 32" "0 < uint n \<longleftrightarrow> 0 < unat n"
    unfolding u by linarith+
qed

lemma lsl_in_range: "unat n < 32 \<Longrightarrow> lsl v n = ret (push_bit (unat n) v)"
  by (simp add: lsl_def shift_count)

lemma lsr_in_range: "unat n < 32 \<Longrightarrow> lsr v n = ret (drop_bit (unat n) v)"
  by (simp add: lsr_def shift_count)

text \<open>
  \<open>asr\<close> is the arithmetic shift of the word library for every count from 1 to 31
  (a count of 0 shifts \<open>~0\<close> by 32 when the value is negative).
\<close>

lemma asr_in_range:
  assumes "0 < unat n" "unat n < 32"
  shows "asr v n = ret (signed_drop_bit (unat n) v)"
proof -
  have "drop_bit (unat n) v OR (if bit v 31 then push_bit (32 - unat n) (NOT 0) else 0)
      = signed_drop_bit (unat n) v"
    by (rule bit_word_eqI)
      (use assms in \<open>auto simp: bit_simps bit_signed_drop_bit_iff not_less
        dest: bit_imp_le_length\<close>)
  then show ?thesis
    using assms shift_count [of n] by (auto simp: asr_def)
qed

lemma rotate_position: "i < 32 \<Longrightarrow> k < 32 \<Longrightarrow> (i + k) mod 32 = (if i + k < 32 then i + k else i + k - 32)"
  for i k :: nat
  by (simp add: mod_if)

lemma ror_in_range:
  assumes "0 < unat n" "unat n < 32"
  shows "ror v n = ret (word_rotr (unat n) v)"
proof -
  have "drop_bit (unat n) v OR push_bit (32 - unat n) v = word_rotr (unat n) v"
  proof (rule bit_word_eqI)
    fix i assume i: "i < LENGTH(32)"
    show "bit (drop_bit (unat n) v OR push_bit (32 - unat n) v) i = bit (word_rotr (unat n) v) i"
      using i assms bit_imp_le_length [of v "unat n + i"]
      by (cases "i + unat n < 32")
        (auto simp: bit_simps bit_word_rotr_iff rotate_position add.commute)
  qed
  then show ?thesis
    using assms shift_count [of n] by (simp add: ror_def)
qed

section \<open>Properties\<close>

text \<open>
  For every count from 1 to 31 the four routines are the logical shifts, the arithmetic shift and
  the rotation of a 32-bit word. A rotation by 0 shifts by 32, to which C gives no meaning.
\<close>

theorem shift_routines:
  "(0 < unat n \<and> unat n < 32 \<longrightarrow>
     lsl v n = ret (push_bit (unat n) v) \<and> lsr v n = ret (drop_bit (unat n) v) \<and>
     asr v n = ret (signed_drop_bit (unat n) v) \<and> ror v n = ret (word_rotr (unat n) v)) \<and>
   (n = 0 \<longrightarrow> ror v n strict_host s = Undefined Shift_range)"
proof (intro conjI impI)
  show "n = 0 \<Longrightarrow> ror v n strict_host s = Undefined Shift_range"
    by (simp add: ror_def mbind_def c_shl_def ret_def past_width_def strict_host_def undefined_as_def)
qed (simp_all add: lsl_in_range lsr_in_range asr_in_range ror_in_range)

theorem shift_routines_witness: "asr 0x80000000 4 = ret (- 0x08000000)"
  by (simp add: shift_routines [of 4 "0x80000000"])

end
