(* ===== verification/Memory.thy ===== *)
theory Memory
  imports Util
begin

unbundle bit_operations_syntax

text \<open>
  \<open>memory.c\<close>: the simulated memory, a block of octets read and written as bytes, half
  words and words in the byte order chosen when it is created.

  The interfaces: \<open>byte_store\<close> is what the wider accesses need of the octet array,
  \<open>word_store\<close> is what the rest of the simulator needs of word accesses; both are
  interpreted on the definitions translated from the source.
\<close>

section \<open>State and operations\<close>

record memory =
  octets :: "u8 list"
  mem_size :: u64
  mem_big_endian :: int

text \<open>
  The two blocks obtained from \<open>malloc\<close> are taken to exist; \<open>block\<close> is what the
  block of octets holds before anything is stored in it.
\<close>

definition memory_create :: "u8 list \<Rightarrow> u64 \<Rightarrow> int \<Rightarrow> memory" where
  "memory_create block sz be = \<lparr>octets = block, mem_size = sz, mem_big_endian = be\<rparr>"

definition memory_get_size :: "memory \<Rightarrow> u64" where
  "memory_get_size m = mem_size m"

text \<open>\<open>mem->octets[address]\<close> as a value and as the target of an assignment.\<close>

definition octet :: "memory \<Rightarrow> u32 \<Rightarrow> u8 outcome" where
  "octet m a = (if unat a < length (octets m) then Ret (octets m ! unat a)
     else Undefined Out_of_bounds)"

definition put_octet :: "memory \<Rightarrow> u32 \<Rightarrow> u8 \<Rightarrow> memory outcome" where
  "put_octet m a b = (if unat a < length (octets m)
     then Ret (m\<lparr>octets := (octets m)[unat a := b]\<rparr>) else Undefined Out_of_bounds)"

text \<open>
  The test every access makes first. The reads return the code and what \<open>*value\<close> then
  holds (\<open>None\<close>: still uninitialised), given what it held before.
\<close>

definition access_test :: "memory \<Rightarrow> u32 \<Rightarrow> bool" where
  "access_test m address \<longleftrightarrow> ucast address < mem_size m \<or> address \<ge> 0"

definition memory_read_byte :: "memory \<Rightarrow> u32 \<Rightarrow> u8 option \<Rightarrow> (int \<times> u8 option) outcome" where
  "memory_read_byte m address value =
     (if access_test m address then obind (octet m address) (\<lambda>b. Ret (0, Some b))
      else Ret (-1, value))"

definition memory_read_half :: "memory \<Rightarrow> u32 \<Rightarrow> u16 option \<Rightarrow> (int \<times> u16 option) outcome" where
  "memory_read_half m address value =
     (if access_test m address then
        if mem_big_endian m \<noteq> 0 then
          obind (octet m address) (\<lambda>b0.
          obind (octet m (address + 1)) (\<lambda>b1.
          Ret (0, Some (push_bit 8 (ucast b0) OR ucast b1))))
        else
          obind (octet m (address + 1)) (\<lambda>b1.
          obind (octet m address) (\<lambda>b0.
          Ret (0, Some (push_bit 8 (ucast b1) OR ucast b0))))
      else Ret (-1, value))"

definition memory_read_word :: "memory \<Rightarrow> u32 \<Rightarrow> u32 option \<Rightarrow> (int \<times> u32 option) outcome" where
  "memory_read_word m address value =
     (if access_test m address then
        obind (octet m address) (\<lambda>b0.
        obind (octet m (address + 1)) (\<lambda>b1.
        obind (octet m (address + 2)) (\<lambda>b2.
        obind (octet m (address + 3)) (\<lambda>b3.
        if mem_big_endian m \<noteq> 0 then
          Ret (0, Some (push_bit 24 (ucast b0) OR push_bit 16 (ucast b1) OR
            push_bit 8 (ucast b2) OR ucast b3))
        else
          Ret (0, Some (push_bit 24 (ucast b3) OR push_bit 16 (ucast b2) OR
            push_bit 8 (ucast b1) OR ucast b0))))))
      else Ret (-1, value))"

definition memory_write_byte :: "memory \<Rightarrow> u32 \<Rightarrow> u8 \<Rightarrow> (int \<times> memory) outcome" where
  "memory_write_byte m address value =
     (if access_test m address then obind (put_octet m address value) (\<lambda>m. Ret (0, m))
      else Ret (-1, m))"

definition memory_write_half :: "memory \<Rightarrow> u32 \<Rightarrow> u16 \<Rightarrow> (int \<times> memory) outcome" where
  "memory_write_half m address value =
     (if access_test m address then
        if mem_big_endian m \<noteq> 0 then
          obind (put_octet m address (ucast (drop_bit 8 value))) (\<lambda>m.
          obind (put_octet m (address + 1) (ucast value)) (\<lambda>m.
          Ret (0, m)))
        else
          obind (put_octet m address (ucast value)) (\<lambda>m.
          obind (put_octet m (address + 1) (ucast (drop_bit 8 value))) (\<lambda>m.
          Ret (0, m)))
      else Ret (-1, m))"

definition memory_write_word :: "memory \<Rightarrow> u32 \<Rightarrow> u32 \<Rightarrow> (int \<times> memory) outcome" where
  "memory_write_word m address value =
     (if access_test m address then
        if mem_big_endian m \<noteq> 0 then
          obind (put_octet m address (ucast (drop_bit 24 value))) (\<lambda>m.
          obind (put_octet m (address + 1) (ucast (drop_bit 16 value))) (\<lambda>m.
          obind (put_octet m (address + 2) (ucast (drop_bit 8 value))) (\<lambda>m.
          obind (put_octet m (address + 3) (ucast value)) (\<lambda>m.
          Ret (0, m)))))
        else
          obind (put_octet m (address + 3) (ucast (drop_bit 24 value))) (\<lambda>m.
          obind (put_octet m (address + 2) (ucast (drop_bit 16 value))) (\<lambda>m.
          obind (put_octet m (address + 1) (ucast (drop_bit 8 value))) (\<lambda>m.
          obind (put_octet m address (ucast value)) (\<lambda>m.
          Ret (0, m)))))
      else Ret (-1, m))"

section \<open>The octet array\<close>

text \<open>A memory as \<open>memory_create\<close> makes it: the block has the size that is recorded.\<close>

definition wf_memory :: "memory \<Rightarrow> bool" where
  "wf_memory m \<longleftrightarrow> length (octets m) = unat (mem_size m)"

text \<open>\<open>in_block m a n\<close>: the \<open>n\<close> octets from address \<open>a\<close> on lie in the block.\<close>

definition in_block :: "memory \<Rightarrow> u32 \<Rightarrow> nat \<Rightarrow> bool" where
  "in_block m a n \<longleftrightarrow> (\<forall>i < n. unat (a + of_nat i) < length (octets m))"

lemma access_test_true [simp]: "access_test m a"
  by (simp add: access_test_def)

lemma octet_defined_iff: "(\<exists>b. octet m a = Ret b) \<longleftrightarrow> unat a < length (octets m)"
  by (simp add: octet_def)

lemma put_octet_memory:
  "put_octet m a b = Ret m' \<Longrightarrow>
     mem_size m' = mem_size m \<and> mem_big_endian m' = mem_big_endian m
     \<and> length (octets m') = length (octets m)"
  by (auto simp: put_octet_def split: if_splits)

lemma octet_put_octet:
  "put_octet m a b = Ret m' \<Longrightarrow> octet m' c = (if c = a then Ret b else octet m c)"
  by (auto simp: put_octet_def octet_def nth_list_update split: if_splits
      dest: unsigned_word_eqI)

locale byte_store =
  fixes get :: "'m \<Rightarrow> u32 \<Rightarrow> u8 outcome"
    and put :: "'m \<Rightarrow> u32 \<Rightarrow> u8 \<Rightarrow> 'm outcome"
    and valid :: "'m \<Rightarrow> u32 \<Rightarrow> bool"
  assumes get_valid: "valid m a \<Longrightarrow> \<exists>b. get m a = Ret b"
    and put_valid: "valid m a \<Longrightarrow> \<exists>m'. put m a b = Ret m'"
    and get_put: "put m a b = Ret m' \<Longrightarrow> get m' c = (if c = a then Ret b else get m c)"
    and valid_put: "put m a b = Ret m' \<Longrightarrow> valid m' c = valid m c"
begin

text \<open>Storing octets one after the other, as the half and word writes do.\<close>

fun puts :: "'m \<Rightarrow> (u32 \<times> u8) list \<Rightarrow> 'm outcome" where
  "puts m [] = Ret m"
| "puts m ((a, b) # xs) = obind (put m a b) (\<lambda>m. puts m xs)"

lemma puts_valid: "\<forall>(a, b) \<in> set xs. valid m a \<Longrightarrow> \<exists>m'. puts m xs = Ret m'"
proof (induction xs arbitrary: m)
  case (Cons x xs)
  obtain a b where x: "x = (a, b)" by (cases x)
  with Cons.prems obtain m' where m': "put m a b = Ret m'" using put_valid by fastforce
  with Cons.prems x have "\<forall>(a, b) \<in> set xs. valid m' a" by (auto simp: valid_put)
  then show ?case using Cons.IH [of m'] x m' by simp
qed simp

lemma valid_puts: "puts m xs = Ret m' \<Longrightarrow> valid m' c = valid m c"
  by (induction xs arbitrary: m) (fastforce simp: obind_Ret_iff dest: valid_put)+

lemma get_puts_other: "puts m xs = Ret m' \<Longrightarrow> c \<notin> fst ` set xs \<Longrightarrow> get m' c = get m c"
  by (induction xs arbitrary: m) (auto simp: obind_Ret_iff get_put)

lemma get_puts_same:
  "puts m xs = Ret m' \<Longrightarrow> distinct (map fst xs) \<Longrightarrow> (a, b) \<in> set xs \<Longrightarrow> get m' a = Ret b"
proof (induction xs arbitrary: m)
  case (Cons x xs)
  obtain c d where x: "x = (c, d)" by (cases x)
  with Cons.prems obtain m1 where m1: "put m c d = Ret m1" "puts m1 xs = Ret m'"
    by (auto simp: obind_Ret_iff)
  show ?case
  proof (cases "(a, b) \<in> set xs")
    case True
    with Cons.IH [OF m1(2)] Cons.prems x show ?thesis by simp
  next
    case False
    with Cons.prems x have "a = c" "b = d" "a \<notin> fst ` set xs" by auto
    with m1 show ?thesis by (simp add: get_puts_other [OF m1(2)] get_put)
  qed
qed simp

end

interpretation block: byte_store octet put_octet "\<lambda>m a. unat a < length (octets m)"
proof unfold_locales
  show "\<And>m a. unat a < length (octets m) \<Longrightarrow> \<exists>b. octet m a = Ret b"
    by (simp add: octet_def)
  show "\<And>m a b. unat a < length (octets m) \<Longrightarrow> \<exists>m'. put_octet m a b = Ret m'"
    by (simp add: put_octet_def)
  show "\<And>m a b m' c. put_octet m a b = Ret m' \<Longrightarrow>
      octet m' c = (if c = a then Ret b else octet m c)"
    by (rule octet_put_octet)
  show "\<And>m a b m' c. put_octet m a b = Ret m' \<Longrightarrow>
      (unat c < length (octets m')) = (unat c < length (octets m))"
    by (auto dest: put_octet_memory)
qed

lemma puts_frame:
  "block.puts m xs = Ret m' \<Longrightarrow>
     mem_size m' = mem_size m \<and> mem_big_endian m' = mem_big_endian m
     \<and> length (octets m') = length (octets m)"
  by (induction xs arbitrary: m) (fastforce simp: obind_Ret_iff dest: put_octet_memory)+

section \<open>Words as octets\<close>

text \<open>The octets of a value in the order of a memory's addresses.\<close>

definition word_octets :: "int \<Rightarrow> u32 \<Rightarrow> u8 list" where
  "word_octets be w = (if be \<noteq> 0
     then [ucast (drop_bit 24 w), ucast (drop_bit 16 w), ucast (drop_bit 8 w), ucast w]
     else [ucast w, ucast (drop_bit 8 w), ucast (drop_bit 16 w), ucast (drop_bit 24 w)])"

definition half_octets :: "int \<Rightarrow> u16 \<Rightarrow> u8 list" where
  "half_octets be w = (if be \<noteq> 0 then [ucast (drop_bit 8 w), ucast w]
     else [ucast w, ucast (drop_bit 8 w)])"

lemma join_word:
  "push_bit 24 (ucast (ucast (drop_bit 24 w) :: u8)) OR
   push_bit 16 (ucast (ucast (drop_bit 16 w) :: u8)) OR
   push_bit 8 (ucast (ucast (drop_bit 8 w) :: u8)) OR ucast (ucast w :: u8) = w" for w :: u32
proof (rule bit_word_eqI)
  fix n :: nat
  consider "n < 8" | "8 \<le> n" "n < 16" | "16 \<le> n" "n < 24" | "24 \<le> n" by linarith
  then show "bit (push_bit 24 (ucast (ucast (drop_bit 24 w) :: u8)) OR
      push_bit 16 (ucast (ucast (drop_bit 16 w) :: u8)) OR
      push_bit 8 (ucast (ucast (drop_bit 8 w) :: u8)) OR ucast (ucast w :: u8) :: u32) n = bit w n"
    if "n < LENGTH(32)"
    by cases (use that in \<open>auto simp: bit_simps\<close>)
qed

lemma join_half:
  "push_bit 8 (ucast (ucast (drop_bit 8 w) :: u8)) OR ucast (ucast w :: u8) = w" for w :: u16
  by (rule bit_word_eqI) (auto simp: bit_simps not_le less_diff_conv2)

lemma join_octets_bits:
  fixes b0 b1 b2 b3 :: u8
  defines "w \<equiv> push_bit 24 (ucast b0) OR push_bit 16 (ucast b1) OR push_bit 8 (ucast b2) OR
    ucast b3 :: u32"
  shows "ucast (drop_bit 24 w) = b0" "ucast (drop_bit 16 w) = b1" "ucast (drop_bit 8 w) = b2"
    "ucast w = b3"
  unfolding w_def
  by (rule bit_word_eqI; auto simp: bit_simps dest: bit_imp_le_length)+

text \<open>The address lists do not repeat: four consecutive addresses are distinct words.\<close>

lemma consecutive_distinct [simp]:
  "a \<noteq> a + 1" "a + 1 \<noteq> a" "a \<noteq> a + 2" "a + 2 \<noteq> a" "a \<noteq> a + 3" "a + 3 \<noteq> a" for a :: u32
  by simp_all

lemma in_block_word:
  "in_block m a 4 \<longleftrightarrow> unat a < length (octets m) \<and> unat (a + 1) < length (octets m)
     \<and> unat (a + 2) < length (octets m) \<and> unat (a + 3) < length (octets m)"
proof -
  have "{..<4::nat} = {0, 1, 2, 3}" by auto
  then have "(\<forall>i < 4. P i) \<longleftrightarrow> P 0 \<and> P 1 \<and> P 2 \<and> P (3::nat)" for P
    by (metis insert_iff lessThan_iff singletonD)
  then show ?thesis by (simp add: in_block_def)
qed

lemma in_block_half:
  "in_block m a 2 \<longleftrightarrow> unat a < length (octets m) \<and> unat (a + 1) < length (octets m)"
  by (auto simp: in_block_def less_2_cases_iff)

lemma in_block_byte: "in_block m a 1 \<longleftrightarrow> unat a < length (octets m)"
  by (auto simp: in_block_def)

text \<open>Each access as an operation on the octet array.\<close>

lemma memory_write_word_puts:
  "memory_write_word m a w = obind (block.puts m
     (if mem_big_endian m \<noteq> 0 then
        [(a, ucast (drop_bit 24 w)), (a + 1, ucast (drop_bit 16 w)),
         (a + 2, ucast (drop_bit 8 w)), (a + 3, ucast w)]
      else
        [(a + 3, ucast (drop_bit 24 w)), (a + 2, ucast (drop_bit 16 w)),
         (a + 1, ucast (drop_bit 8 w)), (a, ucast w)])) (\<lambda>m. Ret (0, m))"
  by (simp add: memory_write_word_def obind_assoc)

lemma memory_write_half_puts:
  "memory_write_half m a w = obind (block.puts m
     (if mem_big_endian m \<noteq> 0 then [(a, ucast (drop_bit 8 w)), (a + 1, ucast w)]
      else [(a, ucast w), (a + 1, ucast (drop_bit 8 w))])) (\<lambda>m. Ret (0, m))"
  by (simp add: memory_write_half_def obind_assoc)

lemma memory_write_word_Ret:
  assumes "memory_write_word m a w = Ret (r, m')"
  shows "r = 0" "mem_big_endian m' = mem_big_endian m" "mem_size m' = mem_size m"
    "length (octets m') = length (octets m)"
    "c \<notin> {a, a + 1, a + 2, a + 3} \<Longrightarrow> octet m' c = octet m c"
    "octet m' a = Ret (word_octets (mem_big_endian m) w ! 0)"
    "octet m' (a + 1) = Ret (word_octets (mem_big_endian m) w ! 1)"
    "octet m' (a + 2) = Ret (word_octets (mem_big_endian m) w ! 2)"
    "octet m' (a + 3) = Ret (word_octets (mem_big_endian m) w ! 3)"
proof -
  define xs where "xs = (if mem_big_endian m \<noteq> 0 then
        [(a, ucast (drop_bit 24 w)), (a + 1, ucast (drop_bit 16 w)),
         (a + 2, ucast (drop_bit 8 w)), (a + 3, ucast w)]
      else
        [(a + 3, ucast (drop_bit 24 w)), (a + 2, ucast (drop_bit 16 w)),
         (a + 1, ucast (drop_bit 8 w)), (a, ucast w)] :: (u32 \<times> u8) list)"
  have m': "block.puts m xs = Ret m'" and r: "r = 0"
    using assms unfolding memory_write_word_puts xs_def [symmetric] by (auto simp: obind_Ret_iff)
  have d: "distinct (map fst xs)" by (simp add: xs_def)
  show "r = 0" by (rule r)
  show "mem_big_endian m' = mem_big_endian m" "mem_size m' = mem_size m"
    "length (octets m') = length (octets m)"
    using puts_frame [OF m'] by simp_all
  show "c \<notin> {a, a + 1, a + 2, a + 3} \<Longrightarrow> octet m' c = octet m c"
    using block.get_puts_other [OF m', of c] by (auto simp: xs_def split: if_splits)
  show "octet m' a = Ret (word_octets (mem_big_endian m) w ! 0)"
    "octet m' (a + 1) = Ret (word_octets (mem_big_endian m) w ! 1)"
    "octet m' (a + 2) = Ret (word_octets (mem_big_endian m) w ! 2)"
    "octet m' (a + 3) = Ret (word_octets (mem_big_endian m) w ! 3)"
    by (rule block.get_puts_same [OF m' d], simp add: xs_def word_octets_def)+
qed

lemma memory_write_word_defined_iff:
  "(\<exists>m'. memory_write_word m a w = Ret (0, m')) \<longleftrightarrow> in_block m a 4"
  by (auto simp: memory_write_word_def put_octet_def in_block_word)

lemma memory_read_word_octets:
  assumes "octet m a = Ret (word_octets (mem_big_endian m) w ! 0)"
    "octet m (a + 1) = Ret (word_octets (mem_big_endian m) w ! 1)"
    "octet m (a + 2) = Ret (word_octets (mem_big_endian m) w ! 2)"
    "octet m (a + 3) = Ret (word_octets (mem_big_endian m) w ! 3)"
  shows "memory_read_word m a v = Ret (0, Some w)"
  using assms by (simp add: memory_read_word_def word_octets_def join_word split: if_splits)

text \<open>The interface of word accesses: two words apart share no octet.\<close>

definition words_apart :: "u32 \<Rightarrow> u32 \<Rightarrow> bool" where
  "words_apart a b \<longleftrightarrow> {a, a + 1, a + 2, a + 3} \<inter> {b, b + 1, b + 2, b + 3} = {}"

locale word_store =
  fixes load :: "'m \<Rightarrow> u32 \<Rightarrow> u32 outcome"
    and store :: "'m \<Rightarrow> u32 \<Rightarrow> u32 \<Rightarrow> 'm outcome"
    and room :: "'m \<Rightarrow> u32 \<Rightarrow> bool"
  assumes load_room: "room m a \<Longrightarrow> \<exists>w. load m a = Ret w"
    and store_room: "room m a \<Longrightarrow> \<exists>m'. store m a w = Ret m'"
    and load_store: "store m a w = Ret m' \<Longrightarrow> load m' a = Ret w"
    and load_store_apart: "store m a w = Ret m' \<Longrightarrow> words_apart a b \<Longrightarrow> load m' b = load m b"
    and room_store: "store m a w = Ret m' \<Longrightarrow> room m' b = room m b"
begin

fun stores :: "'m \<Rightarrow> u32 \<Rightarrow> u32 list \<Rightarrow> 'm outcome" where
  "stores m a [] = Ret m"
| "stores m a (w # ws) = obind (store m a w) (\<lambda>m. stores m (a + 4) ws)"

fun loads :: "'m \<Rightarrow> u32 \<Rightarrow> nat \<Rightarrow> u32 list outcome" where
  "loads m a 0 = Ret []"
| "loads m a (Suc n) = obind (load m a) (\<lambda>w. obind (loads m (a + 4) n) (\<lambda>ws. Ret (w # ws)))"

lemma stores_room:
  "\<forall>i < length ws. room m (a + 4 * of_nat i) \<Longrightarrow> \<exists>m'. stores m a ws = Ret m'"
proof (induction ws arbitrary: m a)
  case (Cons w ws)
  then obtain m1 where m1: "store m a w = Ret m1" using store_room [of m a w] by fastforce
  have "room m1 (a + 4 + 4 * of_nat i)" if "i < length ws" for i
    using Cons.prems [rule_format, of "Suc i"] that room_store [OF m1]
    by (simp add: algebra_simps)
  then show ?case using Cons.IH [of m1 "a + 4"] m1 by simp
qed simp

lemma load_stores_apart:
  "stores m a ws = Ret m' \<Longrightarrow> \<forall>i < length ws. words_apart (a + 4 * of_nat i) b \<Longrightarrow>
     load m' b = load m b"
proof (induction ws arbitrary: m a)
  case (Cons w ws)
  then obtain m1 where m1: "store m a w = Ret m1" "stores m1 (a + 4) ws = Ret m'"
    by (auto simp: obind_Ret_iff)
  have "words_apart (a + 4 + 4 * of_nat i) b" if "i < length ws" for i
    using Cons.prems(2) [rule_format, of "Suc i"] that by (simp add: algebra_simps)
  then have "load m' b = load m1 b" using Cons.IH [OF m1(2)] by simp
  then show ?case using load_store_apart [OF m1(1)] Cons.prems(2) [rule_format, of 0] by simp
qed simp

end

lemma word_span: "{a, a + 1, a + 2, a + 3} = (\<lambda>i. a + of_nat i) ` {..<4::nat}" for a :: u32
proof -
  have "{..<4::nat} = {0, 1, 2, 3}" by auto
  then show ?thesis by simp
qed

lemma words_apart_step: "0 < k \<Longrightarrow> k < 2 ^ 30 \<Longrightarrow> words_apart (a + 4 * of_nat k) a"
proof -
  assume k: "0 < k" "k < 2 ^ 30"
  have *: "a + 4 * of_nat k + of_nat i \<noteq> a + of_nat j" if "i < 4" "j < 4" for i j :: nat
  proof
    assume "a + 4 * of_nat k + of_nat i = a + of_nat j"
    then have "(of_nat (4 * k + i) :: u32) = of_nat j" by simp
    then have "4 * k + i = j"
      by (subst (asm) of_nat_u32_eq_iff) (use k that in simp_all)
    then show False using k that by simp
  qed
  show "words_apart (a + 4 * of_nat k) a"
    using * unfolding words_apart_def word_span by blast
qed

context word_store
begin

lemma load_stores_before:
  assumes "stores m (a + 4) ws = Ret m'" "length ws < 2 ^ 30"
  shows "load m' a = load m a"
proof (rule load_stores_apart [OF assms(1)], intro allI impI)
  fix i assume "i < length ws"
  with assms(2) show "words_apart (a + 4 + 4 * of_nat i) a"
    using words_apart_step [of "Suc i" a] by (simp add: algebra_simps)
qed

text \<open>A block of words stored from an address on is what is loaded back.\<close>

lemma loads_stores: "stores m a ws = Ret m' \<Longrightarrow> length ws \<le> 2 ^ 30 \<Longrightarrow> loads m' a (length ws) = Ret ws"
proof (induction ws arbitrary: m a)
  case (Cons w ws)
  then obtain m1 where m1: "store m a w = Ret m1" "stores m1 (a + 4) ws = Ret m'"
    by (auto simp: obind_Ret_iff)
  have "load m' a = Ret w"
    using load_stores_before [OF m1(2)] load_store [OF m1(1)] Cons.prems(2) by simp
  with Cons.IH [OF m1(2)] Cons.prems(2) show ?case by simp
qed simp

end

definition load_word :: "memory \<Rightarrow> u32 \<Rightarrow> u32 outcome" where
  "load_word m a = obind (memory_read_word m a None)
     (\<lambda>(r, v). case v of Some w \<Rightarrow> Ret w | None \<Rightarrow> Undefined Uninitialised)"

definition store_word :: "memory \<Rightarrow> u32 \<Rightarrow> u32 \<Rightarrow> memory outcome" where
  "store_word m a w = obind (memory_write_word m a w) (\<lambda>(r, m). Ret m)"

lemma memory_write_word_iff: "memory_write_word m a w = Ret (r, m') \<longleftrightarrow> r = 0 \<and> store_word m a w = Ret m'"
  using memory_write_word_Ret(1) [of m a w] by (auto simp: store_word_def obind_Ret_iff)

lemma memory_read_word_load:
  "memory_read_word m a v = obind (load_word m a) (\<lambda>w. Ret (0, Some w))"
  by (simp add: load_word_def memory_read_word_def octet_def)

lemma load_word_octet_cong:
  assumes "\<And>c. c \<in> {a, a + 1, a + 2, a + 3} \<Longrightarrow> octet m c = octet m' c"
    "mem_big_endian m = mem_big_endian m'"
  shows "load_word m a = load_word m' a"
  using assms by (simp add: load_word_def memory_read_word_def)

interpretation words: word_store load_word store_word "\<lambda>m a. in_block m a 4"
proof unfold_locales
  show "\<And>m a. in_block m a 4 \<Longrightarrow> \<exists>w. load_word m a = Ret w"
    by (simp add: load_word_def memory_read_word_def octet_def in_block_word)
  show "\<And>m a w. in_block m a 4 \<Longrightarrow> \<exists>m'. store_word m a w = Ret m'"
    by (simp add: store_word_def memory_write_word_def put_octet_def in_block_word)
  fix m a w m' assume st: "store_word m a w = Ret m'"
  then have wr: "memory_write_word m a w = Ret (0, m')" by (simp add: memory_write_word_iff)
  have "memory_read_word m' a None = Ret (0, Some w)"
    by (rule memory_read_word_octets) (simp_all only: memory_write_word_Ret [OF wr])
  then show "load_word m' a = Ret w" by (simp add: load_word_def)
  show "words_apart a b \<Longrightarrow> load_word m' b = load_word m b" for b
    by (rule load_word_octet_cong)
      (auto simp: words_apart_def memory_write_word_Ret(2) [OF wr]
        intro!: memory_write_word_Ret(5) [OF wr])
  show "in_block m' b 4 = in_block m b 4" for b
    by (simp add: in_block_def memory_write_word_Ret(4) [OF wr])
qed

section \<open>Properties\<close>

text \<open>
  Inside the block, a word written is the word read back, under either byte order, the call
  returns 0, and no octet outside its four addresses changes.
\<close>

theorem word_round_trip:
  assumes "in_block m a 4"
  shows "\<exists>m'. memory_write_word m a w = Ret (0, m') \<and> memory_read_word m' a v = Ret (0, Some w) \<and>
    (\<forall>c. c \<in> {a, a + 1, a + 2, a + 3} \<or> octet m' c = octet m c)"
proof -
  obtain m' where st: "store_word m a w = Ret m'" using words.store_room [OF assms] by blast
  then have wr: "memory_write_word m a w = Ret (0, m')" by (simp add: memory_write_word_iff)
  show ?thesis
    using wr words.load_store [OF st] memory_write_word_Ret(5) [OF wr]
    by (auto simp: memory_read_word_load)
qed

theorem word_round_trip_witness:
  "\<exists>m'. memory_write_word (memory_create [0, 0, 0, 0] 4 0) 0 0x01020304 = Ret (0, m') \<and>
    memory_read_word m' 0 None = Ret (0, Some 0x01020304)"
  using word_round_trip [of "memory_create [0, 0, 0, 0] 4 0" 0 "0x01020304" None]
  by (auto simp: in_block_word memory_create_def)

lemma memory_write_half_Ret:
  assumes "memory_write_half m a w = Ret (r, m')"
  shows "r = 0" "mem_big_endian m' = mem_big_endian m"
    "c \<notin> {a, a + 1} \<Longrightarrow> octet m' c = octet m c"
    "octet m' a = Ret (half_octets (mem_big_endian m) w ! 0)"
    "octet m' (a + 1) = Ret (half_octets (mem_big_endian m) w ! 1)"
proof -
  define xs where "xs = (if mem_big_endian m \<noteq> 0 then [(a, ucast (drop_bit 8 w)), (a + 1, ucast w)]
      else [(a, ucast w), (a + 1, ucast (drop_bit 8 w))] :: (u32 \<times> u8) list)"
  have m': "block.puts m xs = Ret m'" and r: "r = 0"
    using assms unfolding memory_write_half_puts xs_def [symmetric] by (auto simp: obind_Ret_iff)
  have d: "distinct (map fst xs)" by (simp add: xs_def)
  show "r = 0" by (rule r)
  show "mem_big_endian m' = mem_big_endian m" using puts_frame [OF m'] by simp
  show "c \<notin> {a, a + 1} \<Longrightarrow> octet m' c = octet m c"
    using block.get_puts_other [OF m', of c] by (auto simp: xs_def split: if_splits)
  show "octet m' a = Ret (half_octets (mem_big_endian m) w ! 0)"
    "octet m' (a + 1) = Ret (half_octets (mem_big_endian m) w ! 1)"
    by (rule block.get_puts_same [OF m' d], simp add: xs_def half_octets_def)+
qed

text \<open>
  Inside the block, a halfword written is the halfword read back, under either byte order, and no
  octet outside its two addresses changes.
\<close>

theorem half_round_trip:
  assumes "in_block m a 2"
  shows "\<exists>m'. memory_write_half m a w = Ret (0, m') \<and> memory_read_half m' a v = Ret (0, Some w) \<and>
    (\<forall>c. c \<in> {a, a + 1} \<or> octet m' c = octet m c)"
proof -
  have "\<exists>m'. memory_write_half m a w = Ret (0, m')"
    using assms by (auto simp: memory_write_half_def put_octet_def in_block_half)
  then obtain m' where wr: "memory_write_half m a w = Ret (0, m')" by blast
  then have "memory_read_half m' a v = Ret (0, Some w)"
    using memory_write_half_Ret [OF wr]
    by (simp add: memory_read_half_def half_octets_def join_half)
  with wr memory_write_half_Ret(3) [OF wr] show ?thesis by auto
qed

theorem half_round_trip_witness:
  "\<exists>m'. memory_write_half (memory_create [0, 0, 7] 3 1) 0 0x0102 = Ret (0, m') \<and>
    memory_read_half m' 0 None = Ret (0, Some 0x0102)"
  using half_round_trip [of "memory_create [0, 0, 7] 3 1" 0 "0x0102" None]
  by (auto simp: in_block_half memory_create_def)

text \<open>
  C26: The test that should refuse an address outside the memory accepts every address: an access that
  leaves the block reads or writes outside the array, and no access ever returns the failure
  code -1 that the header documents.
\<close>

theorem access_never_refused:
  "(\<not> in_block m a 4 \<longrightarrow> memory_read_word m a v = Undefined Out_of_bounds \<and>
      memory_write_word m a w = Undefined Out_of_bounds) \<and>
   (\<not> in_block m a 2 \<longrightarrow> memory_read_half m a vh = Undefined Out_of_bounds \<and>
      memory_write_half m a wh = Undefined Out_of_bounds) \<and>
   (\<not> in_block m a 1 \<longrightarrow> memory_read_byte m a vb = Undefined Out_of_bounds \<and>
      memory_write_byte m a wb = Undefined Out_of_bounds)"
  by (auto simp: memory_read_word_def memory_write_word_def memory_read_half_def
      memory_write_half_def memory_read_byte_def memory_write_byte_def octet_def put_octet_def
      in_block_word in_block_half in_block_byte [simplified])

theorem access_never_refused_witness:
  "memory_read_word (memory_create [1, 2, 3, 4] 4 0) 1 None = Undefined Out_of_bounds"
  using access_never_refused [of "memory_create [1, 2, 3, 4] 4 0" 1 None]
  by (simp add: in_block_word memory_create_def)

lemma reverse_4_octets:
  "reverse_4 (push_bit 24 (ucast b0) OR push_bit 16 (ucast b1) OR push_bit 8 (ucast b2) OR ucast b3)
     = push_bit 24 (ucast b3) OR push_bit 16 (ucast b2) OR push_bit 8 (ucast b1) OR ucast b0"
  for b0 b1 b2 b3 :: u8
proof -
  have m: "(x :: u32) AND 0xFF = ucast (ucast x :: u8)" for x
  proof -
    have f: "(0xFF :: u32) = mask 8" by (simp add: mask_eq_exp_minus_1)
    show ?thesis unfolding f by (rule bit_word_eqI) (auto simp: bit_simps)
  qed
  show ?thesis unfolding reverse_4_def m by (simp only: join_octets_bits)
qed

text \<open>
  The byte order is that of the memory: reading a word under the other order gives the word with
  its octets reversed, as the macro \<open>reverse_4\<close> does.
\<close>

theorem byte_order_swap:
  assumes "memory_read_word m a v = Ret (0, Some w)"
  shows "memory_read_word (m\<lparr>mem_big_endian := (if mem_big_endian m = 0 then 1 else 0)\<rparr>) a v
    = Ret (0, Some (reverse_4 w))"
  using assms
  by (auto simp: memory_read_word_def octet_def access_test_def reverse_4_octets [simplified]
      split: if_splits)

theorem byte_order_swap_witness:
  "memory_read_word (memory_create [1, 2, 3, 4] 4 1) 0 None = Ret (0, Some 0x01020304) \<and>
   memory_read_word (memory_create [1, 2, 3, 4] 4 0) 0 None = Ret (0, Some (reverse_4 0x01020304))"
proof -
  have r: "memory_read_word (memory_create [1, 2, 3, 4] 4 1) 0 None = Ret (0, Some 0x01020304)"
    by (simp add: memory_read_word_def octet_def memory_create_def)
  from byte_order_swap [OF this] r show ?thesis by (simp add: memory_create_def)
qed

end
