(* ===== verification/Arm_Constants.thy ===== *)
theory Arm_Constants
  imports Util
begin

unbundle bit_operations_syntax

text \<open>
  \<open>arm_constants.h\<close> and \<open>arm_constants.c\<close>: processor modes, exceptions, flag
  positions, shift codes, and the tables of names. A constant of the header is an
  abbreviation; a table is a list, indexed as the C array is.
\<close>

section \<open>Constants\<close>

abbreviation (input) USR :: u8 where "USR \<equiv> 0x10"
abbreviation (input) FIQ :: u8 where "FIQ \<equiv> 0x11"
abbreviation (input) IRQ :: u8 where "IRQ \<equiv> 0x12"
abbreviation (input) SVC :: u8 where "SVC \<equiv> 0x13"
abbreviation (input) ABT :: u8 where "ABT \<equiv> 0x17"
abbreviation (input) UND :: u8 where "UND \<equiv> 0x1b"
abbreviation (input) SYS :: u8 where "SYS \<equiv> 0x1f"

abbreviation (input) RESET :: u8 where "RESET \<equiv> 1"
abbreviation (input) UNDEFINED_INSTRUCTION :: u8 where "UNDEFINED_INSTRUCTION \<equiv> 2"
abbreviation (input) SOFTWARE_INTERRUPT :: u8 where "SOFTWARE_INTERRUPT \<equiv> 3"
abbreviation (input) PREFETCH_ABORT :: u8 where "PREFETCH_ABORT \<equiv> 4"
abbreviation (input) DATA_ABORT :: u8 where "DATA_ABORT \<equiv> 5"
abbreviation (input) INTERRUPT :: u8 where "INTERRUPT \<equiv> 6"
abbreviation (input) FAST_INTERRUPT :: u8 where "FAST_INTERRUPT \<equiv> 7"

text \<open>The positions \<open>N\<close>, \<open>Z\<close>, \<open>C\<close>, \<open>V\<close> of the flags in the status register.\<close>

abbreviation (input) bit_N :: nat where "bit_N \<equiv> 31"
abbreviation (input) bit_Z :: nat where "bit_Z \<equiv> 30"
abbreviation (input) bit_C :: nat where "bit_C \<equiv> 29"
abbreviation (input) bit_V :: nat where "bit_V \<equiv> 28"

abbreviation (input) LSL :: u8 where "LSL \<equiv> 0"
abbreviation (input) LSR :: u8 where "LSR \<equiv> 1"
abbreviation (input) ASR :: u8 where "ASR \<equiv> 2"
abbreviation (input) ROR :: u8 where "ROR \<equiv> 3"

section \<open>Names\<close>

definition arm_mode_names :: "string option list" where
  "arm_mode_names =
     [None, None, None, None, None, None, None, None,
      None, None, None, None, None, None, None, None,
      Some ''USR'', Some ''FIQ'', Some ''IRQ'', Some ''SVC'', None, None, None,
      Some ''ABT'', None, None, None, Some ''UND'', None, None, None, Some ''SYS'']"

definition arm_register_names :: "string list" where
  "arm_register_names =
     [''R00'', ''R01'', ''R02'', ''R03'', ''R04'', ''R05'', ''R06'', ''R07'', ''R08'',
      ''R09'', ''R10'', ''R11'', ''R12'', ''SP'', ''LR'', ''PC'', ''CPSR'', ''SPSR'']"

definition arm_exception_names :: "string option list" where
  "arm_exception_names =
     [None, Some ''reset'', Some ''undefined instruction'', Some ''software interrupt'',
      Some ''prefetch abort'', Some ''data abort'', Some ''interrupt'',
      Some ''fast interrupt'']"

text \<open>Reading a table outside its bounds is undefined; only the first function checks.\<close>

definition table_at :: "'a list \<Rightarrow> u8 \<Rightarrow> 'a outcome" where
  "table_at xs i = (if unat i < length xs then Ret (xs ! unat i) else Undefined Out_of_bounds)"

definition arm_get_exception_name :: "u8 \<Rightarrow> string option outcome" where
  "arm_get_exception_name e = (if e < 8 then table_at arm_exception_names e else Ret None)"

definition arm_get_mode_name :: "u8 \<Rightarrow> string option outcome" where
  "arm_get_mode_name md = table_at arm_mode_names md"

definition arm_get_register_name :: "u8 \<Rightarrow> string outcome" where
  "arm_get_register_name r = table_at arm_register_names r"

lemma length_tables [simp]:
  "length arm_mode_names = 32" "length arm_register_names = 18" "length arm_exception_names = 8"
  by (simp_all add: arm_mode_names_def arm_register_names_def arm_exception_names_def)

lemma arm_get_mode_name_defined: "(\<exists>n. arm_get_mode_name md = Ret n) \<longleftrightarrow> md < 32"
  by (simp add: arm_get_mode_name_def table_at_def word_less_nat_alt)

lemma arm_get_register_name_defined: "(\<exists>n. arm_get_register_name r = Ret n) \<longleftrightarrow> r < 18"
  by (simp add: arm_get_register_name_def table_at_def word_less_nat_alt)

lemma arm_get_exception_name_defined: "\<exists>n. arm_get_exception_name e = Ret n"
  by (simp add: arm_get_exception_name_def table_at_def word_less_nat_alt)

end
