(* ===== verification/Registers.thy ===== *)
theory Registers
  imports Arm_Constants
begin

unbundle bit_operations_syntax

text \<open>
  \<open>registers.h\<close> and \<open>registers.c\<close>: the register file, 37 words holding the user
  registers, the status register and the banked registers of the other modes, with the
  mode that selects among them.
\<close>

section \<open>State and operations\<close>

abbreviation (input) R0 :: u8 where "R0 \<equiv> 0"
abbreviation (input) PC :: u8 where "PC \<equiv> 15"
abbreviation (input) CPSR :: u8 where "CPSR \<equiv> 16"
abbreviation (input) SPSR_svc :: u8 where "SPSR_svc \<equiv> 19"
abbreviation (input) R13_abt :: u8 where "R13_abt \<equiv> 20"
abbreviation (input) R14_abt :: u8 where "R14_abt \<equiv> 21"
abbreviation (input) SPSR_abt :: u8 where "SPSR_abt \<equiv> 22"
abbreviation (input) R13_und :: u8 where "R13_und \<equiv> 23"
abbreviation (input) R14_und :: u8 where "R14_und \<equiv> 24"
abbreviation (input) SPSR_und :: u8 where "SPSR_und \<equiv> 25"
abbreviation (input) R13_irq :: u8 where "R13_irq \<equiv> 26"
abbreviation (input) R14_irq :: u8 where "R14_irq \<equiv> 27"
abbreviation (input) SPSR_irq :: u8 where "SPSR_irq \<equiv> 28"
abbreviation (input) R8_fiq :: u8 where "R8_fiq \<equiv> 29"
abbreviation (input) SPSR_fiq :: u8 where "SPSR_fiq \<equiv> 36"

record registers =
  regs :: "u32 list"
  mode :: u8

text \<open>\<open>garbage\<close>: what the block given by \<open>malloc\<close> holds.\<close>

definition registers_create :: "u32 list \<Rightarrow> registers" where
  "registers_create garbage = \<lparr>regs = garbage, mode = USR\<rparr>"

definition get_mode :: "registers \<Rightarrow> u8" where
  "get_mode r = mode r"

definition current_mode_has_spsr :: "registers \<Rightarrow> bool" where
  "current_mode_has_spsr r \<longleftrightarrow> get_mode r = SVC \<or> get_mode r = ABT \<or> get_mode r = UND
     \<or> get_mode r = IRQ \<or> get_mode r = FIQ"

definition in_a_privileged_mode :: "registers \<Rightarrow> bool" where
  "in_a_privileged_mode r \<longleftrightarrow> get_mode r \<noteq> USR"

text \<open>\<open>r->regs[i]\<close> read and assigned; the array has 37 elements.\<close>

definition reg_at :: "registers \<Rightarrow> u8 \<Rightarrow> u32 outcome" where
  "reg_at r i = (if unat i < length (regs r) then Ret (regs r ! unat i)
     else Undefined Out_of_bounds)"

definition put_reg :: "registers \<Rightarrow> u8 \<Rightarrow> u32 \<Rightarrow> registers outcome" where
  "put_reg r i v = (if unat i < length (regs r) then Ret (r\<lparr>regs := (regs r)[unat i := v]\<rparr>)
     else Undefined Out_of_bounds)"

definition read_usr_register :: "registers \<Rightarrow> u8 \<Rightarrow> u32 outcome" where
  "read_usr_register r reg = (if reg > 15 then Exit 0 else reg_at r reg)"

definition write_usr_register :: "registers \<Rightarrow> u8 \<Rightarrow> u32 \<Rightarrow> registers outcome" where
  "write_usr_register r reg value = (if reg > 15 then Exit 0 else put_reg r reg value)"

text \<open>The message for an unknown mode looks the mode's name up first.\<close>

definition unknown_mode :: "registers \<Rightarrow> 'a \<Rightarrow> 'a outcome" where
  "unknown_mode r v = obind (arm_get_mode_name (mode r)) (\<lambda>_. Ret v)"

definition read_register :: "registers \<Rightarrow> u8 \<Rightarrow> u32 outcome" where
  "read_register r reg =
     (if mode r = USR \<or> mode r = SYS then read_usr_register r reg
      else if mode r = SVC then
        if reg \<ge> R0 \<and> reg \<le> SPSR_svc then reg_at r reg else Ret 0
      else if mode r = UND then
        if (reg \<ge> R0 \<and> reg \<le> CPSR) \<or> (reg = R13_und \<or> reg = R14_und \<or> reg = SPSR_und)
        then reg_at r reg else Ret 0
      else if mode r = ABT then
        if (reg \<ge> R0 \<and> reg \<le> CPSR) \<or> (reg = R13_abt \<or> reg = R14_abt \<or> reg = SPSR_abt)
        then reg_at r reg else Ret 0
      else if mode r = IRQ then
        if (reg \<ge> R0 \<and> reg \<le> CPSR) \<or> (reg = R13_irq \<or> reg = R14_irq \<or> reg = SPSR_irq)
        then reg_at r reg else Ret 0
      else if mode r = FIQ then
        if (reg \<ge> R0 \<and> reg \<le> CPSR) \<or> (reg \<ge> R8_fiq \<and> reg \<le> SPSR_irq)
        then reg_at r reg else Ret 0
      else unknown_mode r 0)"

definition write_register :: "registers \<Rightarrow> u8 \<Rightarrow> u32 \<Rightarrow> registers outcome" where
  "write_register r reg value =
     (if mode r = USR \<or> mode r = SYS then write_usr_register r reg value
      else if mode r = SVC then
        if reg \<ge> R0 \<and> reg \<le> SPSR_svc then put_reg r reg value else Ret r
      else if mode r = UND then
        if (reg \<ge> R0 \<and> reg \<le> CPSR) \<or> (reg = R13_und \<or> reg = R14_und \<or> reg = SPSR_und)
        then put_reg r reg value else Ret r
      else if mode r = ABT then
        if (reg \<ge> R0 \<and> reg \<le> CPSR) \<or> (reg = R13_abt \<or> reg = R14_abt \<or> reg = SPSR_abt)
        then put_reg r reg value else Ret r
      else if mode r = IRQ then
        if (reg \<ge> R0 \<and> reg \<le> CPSR) \<or> (reg = R13_irq \<or> reg = R14_irq \<or> reg = SPSR_irq)
        then put_reg r reg value else Ret r
      else if mode r = FIQ then
        if (reg \<ge> R0 \<and> reg \<le> CPSR) \<or> (reg \<ge> R8_fiq \<and> reg \<le> SPSR_irq)
        then put_reg r reg value else Ret r
      else unknown_mode r r)"

definition read_cpsr :: "registers \<Rightarrow> u32 outcome" where
  "read_cpsr r = reg_at r CPSR"

definition write_cpsr :: "registers \<Rightarrow> u32 \<Rightarrow> registers outcome" where
  "write_cpsr r value = put_reg r CPSR value"

text \<open>Without an SPSR both functions print the mode's name and call \<open>exit(1)\<close>.\<close>

definition no_spsr :: "registers \<Rightarrow> 'a outcome" where
  "no_spsr r = obind (arm_get_mode_name (mode r)) (\<lambda>_. Exit 1)"

definition read_spsr :: "registers \<Rightarrow> u32 outcome" where
  "read_spsr r =
     (if \<not> current_mode_has_spsr r then no_spsr r
      else if mode r = SVC then reg_at r SPSR_svc
      else if mode r = UND then reg_at r SPSR_und
      else if mode r = ABT then reg_at r SPSR_abt
      else if mode r = IRQ then reg_at r SPSR_irq
      else if mode r = FIQ then reg_at r SPSR_fiq
      else unknown_mode r 0)"

definition write_spsr :: "registers \<Rightarrow> u32 \<Rightarrow> registers outcome" where
  "write_spsr r value =
     (if \<not> current_mode_has_spsr r then no_spsr r
      else if mode r = SVC then put_reg r SPSR_svc value
      else if mode r = UND then put_reg r SPSR_und value
      else if mode r = ABT then put_reg r SPSR_abt value
      else if mode r = IRQ then put_reg r SPSR_irq value
      else if mode r = FIQ then put_reg r SPSR_fiq value
      else unknown_mode r r)"

section \<open>The array of registers\<close>

text \<open>
  Every operation keeps the 37 elements and the mode, and no operation indexes the array
  out of its bounds.
\<close>

definition wf_registers :: "registers \<Rightarrow> bool" where
  "wf_registers r \<longleftrightarrow> length (regs r) = 37"

lemma reg_at_in: "wf_registers r \<Longrightarrow> unat i < 37 \<Longrightarrow> reg_at r i = Ret (regs r ! unat i)"
  by (simp add: reg_at_def wf_registers_def)

lemma put_reg_in:
  "wf_registers r \<Longrightarrow> unat i < 37 \<Longrightarrow> put_reg r i v = Ret (r\<lparr>regs := (regs r)[unat i := v]\<rparr>)"
  by (simp add: put_reg_def wf_registers_def)

lemma put_reg_keeps:
  "put_reg r i v = Ret r' \<Longrightarrow> mode r' = mode r \<and> length (regs r') = length (regs r)"
  by (auto simp: put_reg_def split: if_splits)

lemma unknown_mode_keeps: "unknown_mode r v = Ret w \<Longrightarrow> w = v"
  by (auto simp: unknown_mode_def obind_Ret_iff)

lemma write_register_keeps:
  "write_register r reg v = Ret r' \<Longrightarrow> mode r' = mode r \<and> length (regs r') = length (regs r)"
  by (auto simp: write_register_def write_usr_register_def
      dest: put_reg_keeps unknown_mode_keeps split: if_splits)

lemma write_usr_register_keeps:
  "write_usr_register r reg v = Ret r' \<Longrightarrow> mode r' = mode r \<and> length (regs r') = length (regs r)"
  by (auto simp: write_usr_register_def dest: put_reg_keeps split: if_splits)

lemma write_cpsr_keeps:
  "write_cpsr r v = Ret r' \<Longrightarrow> mode r' = mode r \<and> length (regs r') = length (regs r)"
  by (auto simp: write_cpsr_def dest: put_reg_keeps)

lemma write_spsr_keeps:
  "write_spsr r v = Ret r' \<Longrightarrow> mode r' = mode r \<and> length (regs r') = length (regs r)"
  by (auto simp: write_spsr_def no_spsr_def obind_Ret_iff
      dest: put_reg_keeps unknown_mode_keeps split: if_splits)

lemmas registers_keep =
  write_register_keeps write_usr_register_keeps write_cpsr_keeps write_spsr_keeps

section \<open>Properties\<close>

text \<open>
  The registers a mode gives access to: the numbers that \<open>read_register\<close> and
  \<open>write_register\<close> use as an index in that mode.
\<close>

definition accessible :: "u8 \<Rightarrow> u8 \<Rightarrow> bool" where
  "accessible md i \<longleftrightarrow> (if md = USR \<or> md = SYS then i \<le> 15
     else if md = SVC then i \<le> 19
     else if md = UND then i \<le> 16 \<or> i \<in> {23, 24, 25}
     else if md = ABT then i \<le> 16 \<or> i \<in> {20, 21, 22}
     else if md = IRQ then i \<le> 16 \<or> i \<in> {26, 27, 28}
     else md = FIQ \<and> i \<le> 16)"

lemma accessible_in: "accessible md i \<Longrightarrow> unat i < 37"
  by (auto simp: accessible_def word_le_nat_alt split: if_splits)

lemma empty_range: "\<not> (29 \<le> i \<and> i \<le> 28)" for i :: u8
  by (auto simp: word_le_nat_alt)

lemma read_register_accessible:
  assumes "wf_registers r" "accessible (mode r) i"
  shows "read_register r i = Ret (regs r ! unat i)"
  using assms accessible_in [OF assms(2)]
  by (auto simp: read_register_def read_usr_register_def accessible_def reg_at_in not_less
      split: if_splits)

lemma write_register_accessible:
  assumes "wf_registers r" "accessible (mode r) i"
  shows "write_register r i v = Ret (r\<lparr>regs := (regs r)[unat i := v]\<rparr>)"
  using assms accessible_in [OF assms(2)]
  by (auto simp: write_register_def write_usr_register_def accessible_def put_reg_in not_less
      split: if_splits)

lemma write_register_inaccessible:
  "\<not> accessible (mode r) i \<Longrightarrow> write_register r i v = Ret r' \<Longrightarrow> r' = r"
  by (auto simp: write_register_def write_usr_register_def accessible_def not_less empty_range
      dest: unknown_mode_keeps split: if_splits)

lemma read_register_inaccessible:
  "\<not> accessible (mode r) i \<Longrightarrow> mode r' = mode r \<Longrightarrow> read_register r' i = read_register r i"
  by (auto simp: read_register_def read_usr_register_def accessible_def unknown_mode_def not_less
      empty_range split: if_splits)

text \<open>
  The register file is a store in every mode: after a write that returns, reading a register gives
  the value written if it is the one written and the mode gives access to it, and what it gave
  before otherwise; the mode and the 37 elements are kept.
\<close>

theorem register_file:
  assumes "wf_registers r" "write_register r i v = Ret r'"
  shows "wf_registers r' \<and> mode r' = mode r \<and>
    read_register r' j = (if j = i \<and> accessible (mode r) i then Ret v else read_register r j)"
proof -
  have k: "wf_registers r'" "mode r' = mode r"
    using assms registers_keep(1) [OF assms(2)] by (simp_all add: wf_registers_def)
  show ?thesis
  proof (cases "accessible (mode r) i")
    case True
    then have r': "r' = r\<lparr>regs := (regs r)[unat i := v]\<rparr>"
      using assms write_register_accessible by simp
    show ?thesis
    proof (cases "accessible (mode r) j")
      case j: True
      with k True assms(1) accessible_in [OF True] show ?thesis
        by (auto simp: read_register_accessible r' wf_registers_def nth_list_update word_unat_eq_iff)
    next
      case False
      with True k show ?thesis using read_register_inaccessible [of r j r'] by auto
    qed
  next
    case False
    then show ?thesis using write_register_inaccessible [OF False assms(2)] k by auto
  qed
qed

theorem register_file_witness:
  "\<exists>r'. write_register (registers_create (replicate 37 0)) 3 7 = Ret r' \<and> read_register r' 3 = Ret 7"
proof -
  let ?r = "registers_create (replicate 37 0)"
  have w: "write_register ?r 3 7 = Ret (?r\<lparr>regs := (regs ?r)[3 := 7]\<rparr>)"
    by (simp add: write_register_accessible accessible_def registers_create_def wf_registers_def)
  from register_file [OF _ this, of 3] w show ?thesis
    by (simp add: wf_registers_def accessible_def registers_create_def)
qed

text \<open>
  No mode has banked registers of its own behind the numbers 0 to 15 an instruction can name: in
  every mode of the architecture they are the same 16 words. In FIQ mode the numbers of the bank
  (29 to 36) read as 0, because the test compares them with the last of another bank.
\<close>

theorem no_banked_registers:
  assumes "wf_registers r" "mode r \<in> {USR, FIQ, IRQ, SVC, ABT, UND, SYS}"
  shows "(i \<le> 15 \<longrightarrow> read_register r i = Ret (regs r ! unat i)) \<and>
    (mode r = FIQ \<and> R8_fiq \<le> i \<longrightarrow> read_register r i = Ret 0)"
proof (intro conjI impI)
  assume "i \<le> 15"
  then have "i \<le> 16" "i \<le> 19" by (auto simp: word_le_nat_alt)
  with assms(2) \<open>i \<le> 15\<close> have "accessible (mode r) i" by (auto simp: accessible_def)
  with assms(1) show "read_register r i = Ret (regs r ! unat i)" by (rule read_register_accessible)
next
  assume "mode r = FIQ \<and> R8_fiq \<le> i"
  moreover from this have "\<not> i \<le> 16" "\<not> i \<le> 28" by (auto simp: word_le_nat_alt)
  ultimately show "read_register r i = Ret 0" by (simp add: read_register_def)
qed

theorem no_banked_registers_witness:
  "read_register \<lparr>regs = replicate 37 5, mode = SVC\<rparr> 13 = Ret 5 \<and>
   read_register \<lparr>regs = replicate 37 5, mode = FIQ\<rparr> 30 = Ret 0"
  using no_banked_registers [of "\<lparr>regs = replicate 37 5, mode = SVC\<rparr>" 13]
    no_banked_registers [of "\<lparr>regs = replicate 37 5, mode = FIQ\<rparr>" 30]
  by (simp add: wf_registers_def)

end
