(* ===== verification/Trace.thy ===== *)
theory Trace
  imports Arm_Constants
begin

unbundle bit_operations_syntax

text \<open>
  \<open>trace.h\<close> and \<open>trace.c\<close> (built without \<open>ARM_TRACE_FORMAT\<close>): the static variables
  of the module as a record, the output file as the list of items printed so far, one
  item per \<open>fprintf\<close> with its arguments.
\<close>

section \<open>State and operations\<close>

abbreviation (input) OTHER_ACCESS :: u8 where "OTHER_ACCESS \<equiv> 0"
abbreviation (input) OPCODE_FETCH :: u8 where "OPCODE_FETCH \<equiv> 1"
abbreviation (input) WRITE :: u8 where "WRITE \<equiv> 0"
abbreviation (input) READ :: u8 where "READ \<equiv> 1"
abbreviation (input) TRACE_CPSR :: u8 where "TRACE_CPSR \<equiv> 16"
abbreviation (input) TRACE_SPSR :: u8 where "TRACE_SPSR \<equiv> 17"
abbreviation (input) MEMORY :: int where "MEMORY \<equiv> 1"
abbreviation (input) REGISTERS :: int where "REGISTERS \<equiv> 2"
abbreviation (input) STATE :: int where "STATE \<equiv> 4"
abbreviation (input) POSITION :: int where "POSITION \<equiv> 8"

datatype trace_item =
    Location string int
  | Memory_access u32 string string u8 string u32 u32
  | Register_access u32 string string string u32
  | Label string
  | Register_value string u32
  | Plain string

record trace_data =
  printed :: "trace_item list"
  last_address :: u32
  enabled :: int
  location_file_stack :: "string list"
  location_line_stack :: "int list"
  location_stack_top :: int
  trace_flags :: int

text \<open>The static variables before \<open>main\<close>: the arrays are zero, the rest as initialised.\<close>

definition trace_init :: trace_data where
  "trace_init = \<lparr>printed = [], last_address = 0x12345678, enabled = 1,
     location_file_stack = replicate 128 '''', location_line_stack = replicate 128 0,
     location_stack_top = -1, trace_flags = 0\<rparr>"

definition print_item :: "trace_item \<Rightarrow> trace_data \<Rightarrow> trace_data" where
  "print_item i t = t\<lparr>printed := printed t @ [i]\<rparr>"

definition trace_start_location :: "string \<Rightarrow> int \<Rightarrow> trace_data \<Rightarrow> trace_data outcome" where
  "trace_start_location file line t =
     (if enabled t \<noteq> 0 then
        let top = location_stack_top t + 1 in
        if 0 \<le> top \<and> top < 128 then
          Ret (t\<lparr>location_stack_top := top,
            location_file_stack := (location_file_stack t)[nat top := file],
            location_line_stack := (location_line_stack t)[nat top := line]\<rparr>)
        else Undefined Out_of_bounds
      else Ret t)"

definition trace_end_location :: "trace_data \<Rightarrow> u8 \<times> trace_data" where
  "trace_end_location t =
     (0, if enabled t \<noteq> 0 then t\<lparr>location_stack_top := location_stack_top t - 1\<rparr> else t)"

definition trace_print_location :: "trace_data \<Rightarrow> trace_data outcome" where
  "trace_print_location t =
     (if enabled t \<noteq> 0 \<and> trace_flags t AND POSITION \<noteq> 0 \<and> location_stack_top t \<ge> 0 then
        if location_stack_top t < 128 then
          Ret (print_item (Location (location_file_stack t ! nat (location_stack_top t))
            (location_line_stack t ! nat (location_stack_top t))) t)
        else Undefined Out_of_bounds
      else Ret t)"

definition trace_memory_seq :: "string list" where
  "trace_memory_seq = ['''', '''']"

definition trace_memory_cause :: "string list" where
  "trace_memory_cause = ['''', '', fetch'']"

definition trace_access_type :: "string list" where
  "trace_access_type = [''write'', ''read'']"

definition trace_memory ::
  "u32 \<Rightarrow> u8 \<Rightarrow> u8 \<Rightarrow> u8 \<Rightarrow> u32 \<Rightarrow> u32 \<Rightarrow> trace_data \<Rightarrow> trace_data outcome" where
  "trace_memory cycle type sz cause address value t =
     (if enabled t \<noteq> 0 \<and> trace_flags t AND MEMORY \<noteq> 0 then
        let seq = (if address = last_address t + 4 then 1 else 0 :: u8);
            t = t\<lparr>last_address := address\<rparr> in
        obind (trace_print_location t) (\<lambda>t.
        obind (table_at trace_memory_seq seq) (\<lambda>sq.
        obind (table_at trace_access_type type) (\<lambda>ty.
        obind (table_at trace_memory_cause cause) (\<lambda>ca.
        Ret (print_item (Memory_access cycle sq ty sz ca address value) t)))))
      else Ret t)"

definition trace_register ::
  "u32 \<Rightarrow> u8 \<Rightarrow> u8 \<Rightarrow> u8 \<Rightarrow> u32 \<Rightarrow> trace_data \<Rightarrow> trace_data outcome" where
  "trace_register cycle type rg md value t =
     (if enabled t \<noteq> 0 \<and> trace_flags t AND REGISTERS \<noteq> 0 then
        obind (arm_get_mode_name md) (\<lambda>n.
        let mode_name = (case n of Some nm \<Rightarrow> ''_'' @ nm | None \<Rightarrow> '''') in
        obind (trace_print_location t) (\<lambda>t.
        obind (table_at trace_access_type type) (\<lambda>ty.
        obind (arm_get_register_name rg) (\<lambda>rn.
        Ret (print_item (Register_access cycle ty rn mode_name value) t)))))
      else Ret t)"

definition trace_disable :: "trace_data \<Rightarrow> trace_data" where
  "trace_disable t = t\<lparr>enabled := 0\<rparr>"

definition trace_enable :: "trace_data \<Rightarrow> trace_data" where
  "trace_enable t = t\<lparr>enabled := 1\<rparr>"

definition trace_add :: "int \<Rightarrow> trace_data \<Rightarrow> trace_data" where
  "trace_add flags t = t\<lparr>trace_flags := trace_flags t OR flags\<rparr>"

section \<open>The location stack\<close>

definition wf_trace :: "trace_data \<Rightarrow> bool" where
  "wf_trace t \<longleftrightarrow> length (location_file_stack t) = 128 \<and> length (location_line_stack t) = 128
     \<and> -1 \<le> location_stack_top t \<and> location_stack_top t < 128"

lemma wf_trace_init: "wf_trace trace_init"
  by (simp add: wf_trace_def trace_init_def)

lemma wf_trace_simps [simp]:
  "wf_trace (t\<lparr>printed := p\<rparr>) = wf_trace t"
  "wf_trace (t\<lparr>last_address := a\<rparr>) = wf_trace t"
  "wf_trace (t\<lparr>enabled := e\<rparr>) = wf_trace t"
  "wf_trace (t\<lparr>trace_flags := f\<rparr>) = wf_trace t"
  by (simp_all add: wf_trace_def)

lemma trace_print_location_total:
  "wf_trace t \<Longrightarrow> \<exists>t'. trace_print_location t = Ret t' \<and> wf_trace t'"
  by (auto simp: trace_print_location_def wf_trace_def print_item_def)

lemma length_trace_tables [simp]:
  "length trace_memory_seq = 2" "length trace_memory_cause = 2" "length trace_access_type = 2"
  by (simp_all add: trace_memory_seq_def trace_memory_cause_def trace_access_type_def)

text \<open>
  Tracing an access never fails and keeps the module's state well formed, for the access
  kinds, registers and modes the simulator traces.
\<close>

lemma trace_memory_total:
  assumes "wf_trace t" "type < 2" "cause < 2"
  shows "\<exists>t'. trace_memory cycle type sz cause address value t = Ret t' \<and> wf_trace t'"
proof (cases "enabled t \<noteq> 0 \<and> trace_flags t AND MEMORY \<noteq> 0")
  case True
  obtain t' where t': "trace_print_location (t\<lparr>last_address := address\<rparr>) = Ret t'" "wf_trace t'"
    using trace_print_location_total [of "t\<lparr>last_address := address\<rparr>"] assms(1) by auto
  have "unat type < 2" "unat cause < 2" using assms by (simp_all add: word_less_nat_alt)
  with True t' show ?thesis by (simp add: trace_memory_def table_at_def Let_def print_item_def)
next
  case False
  with assms show ?thesis by (auto simp: trace_memory_def)
qed

lemma trace_register_total:
  assumes "wf_trace t" "type < 2" "rg < 18" "md < 32"
  shows "\<exists>t'. trace_register cycle type rg md value t = Ret t' \<and> wf_trace t'"
proof (cases "enabled t \<noteq> 0 \<and> trace_flags t AND REGISTERS \<noteq> 0")
  case True
  obtain t' where t': "trace_print_location t = Ret t'" "wf_trace t'"
    using trace_print_location_total [OF assms(1)] by auto
  obtain n where n: "arm_get_mode_name md = Ret n"
    using assms(4) arm_get_mode_name_defined by blast
  obtain nm where nm: "arm_get_register_name rg = Ret nm"
    using assms(3) arm_get_register_name_defined by blast
  have "unat type < 2" using assms by (simp add: word_less_nat_alt)
  with True t' n nm show ?thesis
    by (simp add: trace_register_def table_at_def Let_def print_item_def)
next
  case False
  with assms show ?thesis by (auto simp: trace_register_def)
qed

lemma trace_off [simp]:
  "enabled t = 0 \<Longrightarrow> trace_memory cycle type sz cause address value t = Ret t"
  "enabled t = 0 \<Longrightarrow> trace_register cycle type rg md value t = Ret t"
  by (simp_all add: trace_memory_def trace_register_def)

end
