(* ===== verification/Arm_Core.thy ===== *)
theory Arm_Core
  imports Memory Registers Trace
begin

unbundle bit_operations_syntax

text \<open>
  \<open>arm_core.c\<close> and \<open>arm_exception.c\<close>: the processor state and the traced accesses to
  registers and memory. The state of a running simulator is the structure
  \<open>arm_core_data\<close> extended by the static data of the trace module; the operations are
  defined on every further extension of it, so that the debugger's state can be one.
\<close>

section \<open>State\<close>

record arm_core =
  cycle_count :: u32
  reg :: registers
  mem :: memory

record machine = arm_core +
  trc :: trace_data

type_synonym ('z, 'a) arm = "('z machine_scheme, 'a) prog"

definition upd_reg :: "(registers \<Rightarrow> registers outcome) \<Rightarrow> ('z, unit) arm" where
  "upd_reg f = update_o (\<lambda>s. obind (f (reg s)) (\<lambda>r. Ret (s\<lparr>reg := r\<rparr>)))"

text \<open>The calls of the trace module, with the cycle count of the processor.\<close>

definition tr_register :: "u8 \<Rightarrow> u8 \<Rightarrow> u8 \<Rightarrow> u32 \<Rightarrow> ('z, unit) arm" where
  "tr_register type rg md value = update_o (\<lambda>s.
     obind (trace_register (cycle_count s) type rg md value (trc s)) (\<lambda>t. Ret (s\<lparr>trc := t\<rparr>)))"

definition tr_memory :: "u8 \<Rightarrow> u8 \<Rightarrow> u8 \<Rightarrow> u32 \<Rightarrow> u32 \<Rightarrow> ('z, unit) arm" where
  "tr_memory type sz cause address value = update_o (\<lambda>s.
     obind (trace_memory (cycle_count s) type sz cause address value (trc s))
       (\<lambda>t. Ret (s\<lparr>trc := t\<rparr>)))"

section \<open>Registers\<close>

definition arm_current_mode_has_spsr :: "('z, bool) arm" where
  "arm_current_mode_has_spsr = gets (\<lambda>s. current_mode_has_spsr (reg s))"

definition arm_in_a_privileged_mode :: "('z, bool) arm" where
  "arm_in_a_privileged_mode = gets (\<lambda>s. in_a_privileged_mode (reg s))"

definition arm_get_cycle_count :: "('z, u32) arm" where
  "arm_get_cycle_count = gets cycle_count"

definition arm_read_register :: "u8 \<Rightarrow> ('z, u32) arm" where
  "arm_read_register rg =
     mbind (gets reg) (\<lambda>r.
     mbind (lift_o (read_register r rg)) (\<lambda>value.
     let value = (if rg = 15 then (value + 4) AND 0xFFFFFFFD else value) in
     mseq (tr_register READ rg (get_mode r) value) (ret value)))"

definition arm_read_usr_register :: "u8 \<Rightarrow> ('z, u32) arm" where
  "arm_read_usr_register rg =
     mbind (gets reg) (\<lambda>r.
     mbind (lift_o (read_usr_register r rg)) (\<lambda>value.
     let value = (if rg = 15 then (value + 4) AND 0xFFFFFFFD else value) in
     mseq (tr_register READ rg USR value) (ret value)))"

definition arm_read_cpsr :: "('z, u32) arm" where
  "arm_read_cpsr =
     mbind (gets reg) (\<lambda>r.
     mbind (lift_o (read_cpsr r)) (\<lambda>value.
     mseq (tr_register READ TRACE_CPSR 0 value) (ret value)))"

definition arm_read_spsr :: "('z, u32) arm" where
  "arm_read_spsr =
     mbind (gets reg) (\<lambda>r.
     mbind (lift_o (read_spsr r)) (\<lambda>value.
     mseq (tr_register READ TRACE_SPSR (get_mode r) value) (ret value)))"

definition arm_write_register :: "u8 \<Rightarrow> u32 \<Rightarrow> ('z, unit) arm" where
  "arm_write_register rg value =
     mseq (upd_reg (\<lambda>r. write_register r rg value))
     (mbind (gets reg) (\<lambda>r. tr_register WRITE rg (get_mode r) value))"

definition arm_write_usr_register :: "u8 \<Rightarrow> u32 \<Rightarrow> ('z, unit) arm" where
  "arm_write_usr_register rg value =
     mseq (upd_reg (\<lambda>r. write_usr_register r rg value)) (tr_register WRITE rg USR value)"

definition arm_write_cpsr :: "u32 \<Rightarrow> ('z, unit) arm" where
  "arm_write_cpsr value =
     mseq (upd_reg (\<lambda>r. write_cpsr r value)) (tr_register WRITE TRACE_CPSR 0 value)"

definition arm_write_spsr :: "u32 \<Rightarrow> ('z, unit) arm" where
  "arm_write_spsr value =
     mseq (upd_reg (\<lambda>r. write_spsr r value))
     (mbind (gets reg) (\<lambda>r. tr_register WRITE TRACE_SPSR (get_mode r) value))"

section \<open>Memory\<close>

text \<open>
  The reads are given what \<open>*value\<close> holds before the call and return the code with what
  it holds afterwards; passing it to \<open>trace_memory\<close> reads it.
\<close>

definition arm_fetch :: "u32 option \<Rightarrow> ('z, int \<times> u32) arm" where
  "arm_fetch value =
     mseq (modify (\<lambda>s. s\<lparr>cycle_count := cycle_count s + 1\<rparr>))
     (mbind (arm_read_register 15) (\<lambda>pc.
     let address = pc - 4 in
     mbind (gets mem) (\<lambda>m.
     mbind (lift_o (memory_read_word m address value)) (\<lambda>(result, value).
     mbind (read_local value) (\<lambda>v.
     mseq (tr_memory READ 4 OPCODE_FETCH address v)
     (mseq (arm_write_register 15 (address + 4))
     (ret (result, v))))))))"

definition arm_read_byte :: "u32 \<Rightarrow> u8 option \<Rightarrow> ('z, int \<times> u8) arm" where
  "arm_read_byte address value =
     mbind (gets mem) (\<lambda>m.
     mbind (lift_o (memory_read_byte m address value)) (\<lambda>(result, value).
     mbind (read_local value) (\<lambda>v.
     mseq (tr_memory READ 1 OTHER_ACCESS address (ucast v)) (ret (result, v)))))"

definition arm_read_half :: "u32 \<Rightarrow> u16 option \<Rightarrow> ('z, int \<times> u16) arm" where
  "arm_read_half address value =
     mbind (gets mem) (\<lambda>m.
     mbind (lift_o (memory_read_half m address value)) (\<lambda>(result, value).
     mbind (read_local value) (\<lambda>v.
     mseq (tr_memory READ 2 OTHER_ACCESS address (ucast v)) (ret (result, v)))))"

definition arm_read_word :: "u32 \<Rightarrow> u32 option \<Rightarrow> ('z, int \<times> u32) arm" where
  "arm_read_word address value =
     mbind (gets mem) (\<lambda>m.
     mbind (lift_o (memory_read_word m address value)) (\<lambda>(result, value).
     mbind (read_local value) (\<lambda>v.
     mseq (tr_memory READ 4 OTHER_ACCESS address v) (ret (result, v)))))"

definition arm_write_byte :: "u32 \<Rightarrow> u8 \<Rightarrow> ('z, int) arm" where
  "arm_write_byte address value =
     mbind (gets mem) (\<lambda>m.
     mbind (lift_o (memory_write_byte m address value)) (\<lambda>(result, m).
     mseq (modify (\<lambda>s. s\<lparr>mem := m\<rparr>))
     (mseq (tr_memory WRITE 1 OTHER_ACCESS address (ucast value)) (ret result))))"

definition arm_write_half :: "u32 \<Rightarrow> u16 \<Rightarrow> ('z, int) arm" where
  "arm_write_half address value =
     mbind (gets mem) (\<lambda>m.
     mbind (lift_o (memory_write_half m address value)) (\<lambda>(result, m).
     mseq (modify (\<lambda>s. s\<lparr>mem := m\<rparr>))
     (mseq (tr_memory WRITE 2 OTHER_ACCESS address (ucast value)) (ret result))))"

definition arm_write_word :: "u32 \<Rightarrow> u32 \<Rightarrow> ('z, int) arm" where
  "arm_write_word address value =
     mbind (gets mem) (\<lambda>m.
     mbind (lift_o (memory_write_word m address value)) (\<lambda>(result, m).
     mseq (modify (\<lambda>s. s\<lparr>mem := m\<rparr>))
     (mseq (tr_memory WRITE 4 OTHER_ACCESS address value) (ret result))))"

section \<open>Exceptions and creation\<close>

definition Exception_bit_9 :: u32 where
  "Exception_bit_9 = push_bit 9 0"

definition arm_exception :: "u8 \<Rightarrow> ('z, unit) arm" where
  "arm_exception ex = mwhen (ex = RESET)
     (mseq (arm_write_cpsr (0x1d3 OR Exception_bit_9)) (arm_write_usr_register 15 0))"

text \<open>
  \<open>arm_create\<close> with a successful allocation: \<open>cycles\<close> and \<open>garbage\<close> are what the two
  blocks hold, \<open>t\<close> the static data of the trace module.
\<close>

definition arm_create ::
  "u32 \<Rightarrow> u32 list \<Rightarrow> memory \<Rightarrow> trace_data \<Rightarrow> host \<Rightarrow> machine outcome" where
  "arm_create cycles garbage m t h =
     obind (mseq (arm_exception RESET) (modify (\<lambda>s. s\<lparr>cycle_count := 0\<rparr>)) h
       \<lparr>cycle_count = cycles, reg = registers_create garbage, mem = m, trc = t\<rparr>)
     (\<lambda>(_, s). Ret s)"

section \<open>Printing the state\<close>

definition printf_trace :: "trace_item \<Rightarrow> ('z, unit) arm" where
  "printf_trace i = modify (\<lambda>s. s\<lparr>trc := print_item i (trc s)\<rparr>)"

definition newline_indent :: string where
  "newline_indent = CHR 0x0A # ''    ''"

text \<open>The inner loop over the registers of one mode; \<open>count\<close> is the local variable.\<close>

fun print_registers :: "u8 \<Rightarrow> nat list \<Rightarrow> nat \<Rightarrow> ('z, unit) arm" where
  "print_registers md [] count = ret ()"
| "print_registers md (i # is) count =
     (if md = USR then
        mseq (mwhen (i > 0 \<and> i mod 5 = 0) (printf_trace (Plain newline_indent)))
        (mbind (lift_o (arm_get_register_name (of_nat i))) (\<lambda>n.
        mbind (arm_read_usr_register (of_nat i)) (\<lambda>v.
        mseq (printf_trace (Register_value n v)) (print_registers md is count))))
      else
        mseq (mwhen (count > 0 \<and> count mod 5 = 0) (printf_trace (Plain newline_indent)))
        (mbind (lift_o (arm_get_register_name (of_nat i))) (\<lambda>n.
        mbind (arm_read_register (of_nat i)) (\<lambda>v.
        mseq (printf_trace (Register_value n v)) (print_registers md is (count + 1))))))"

fun print_modes :: "nat list \<Rightarrow> ('z, unit) arm" where
  "print_modes [] = ret ()"
| "print_modes (md # mds) =
     mbind (lift_o (arm_get_mode_name (of_nat md))) (\<lambda>name.
     mseq (case name of None \<Rightarrow> ret () | Some nm \<Rightarrow>
       mseq (mwhen (of_nat md \<noteq> SYS) (printf_trace (Label nm)))
       (mseq (print_registers (of_nat md) [0..<16] 0)
       (mseq (mwhen (of_nat md = USR)
          (mbind arm_read_cpsr (\<lambda>v. printf_trace (Register_value ''CPSR'' v))))
       (if of_nat md \<in> {USR, FIQ, SVC, UND} then printf_trace (Plain [CHR 0x0A])
        else if of_nat md \<in> {IRQ, ABT} then printf_trace (Plain (replicate 10 CHR '' ''))
        else ret ()))))
     (print_modes mds))"

definition arm_print_state :: "('z, unit) arm" where
  "arm_print_state = print_modes [0..<32]"

definition trace_arm_state :: "('z, unit) arm" where
  "trace_arm_state = mbind (gets trc) (\<lambda>t.
     mwhen (enabled t \<noteq> 0 \<and> trace_flags t AND STATE \<noteq> 0) arm_print_state)"

section \<open>User-mode states\<close>

text \<open>
  The states the simulator runs in: 37 registers, mode \<open>USR\<close>, and a well-formed trace
  module. Nothing assigns the mode after \<open>registers_create\<close>, so this is an invariant of
  the whole program.
\<close>

definition user_state :: "'z machine_scheme \<Rightarrow> bool" where
  "user_state s \<longleftrightarrow> wf_registers (reg s) \<and> mode (reg s) = USR \<and> wf_trace (trc s)"

text \<open>What reading a register gives, and the state after an assignment to one.\<close>

definition usr_reg :: "'z machine_scheme \<Rightarrow> u8 \<Rightarrow> u32" where
  "usr_reg s i = (if i = 15 then (regs (reg s) ! 15 + 4) AND 0xFFFFFFFD
     else regs (reg s) ! unat i)"

definition set_reg :: "nat \<Rightarrow> u32 \<Rightarrow> 'z machine_scheme \<Rightarrow> 'z machine_scheme" where
  "set_reg i v s = s\<lparr>reg := (reg s)\<lparr>regs := (regs (reg s))[i := v]\<rparr>\<rparr>"

definition cpsr :: "'z machine_scheme \<Rightarrow> u32" where
  "cpsr s = regs (reg s) ! 16"

lemma set_reg_simps [simp]:
  "mem (set_reg i v s) = mem s" "cycle_count (set_reg i v s) = cycle_count s"
  "trc (set_reg i v s) = trc s" "mode (reg (set_reg i v s)) = mode (reg s)"
  "length (regs (reg (set_reg i v s))) = length (regs (reg s))"
  "machine.more (set_reg i v s) = machine.more s"
  "regs (reg (set_reg i v s)) = (regs (reg s))[i := v]"
  by (simp_all add: set_reg_def)

lemma user_state_set_reg [simp]: "user_state (set_reg i v s) = user_state s"
  by (simp add: user_state_def wf_registers_def)

lemma user_state_upd [simp]:
  "user_state (s\<lparr>mem := m\<rparr>) = user_state s"
  "user_state (s\<lparr>cycle_count := c\<rparr>) = user_state s"
  "wf_trace t \<Longrightarrow> user_state (s\<lparr>trc := t\<rparr>) \<longleftrightarrow> wf_registers (reg s) \<and> mode (reg s) = USR"
  by (simp_all add: user_state_def)

lemma cpsr_upd [simp]:
  "cpsr (s\<lparr>mem := m\<rparr>) = cpsr s" "cpsr (s\<lparr>cycle_count := c\<rparr>) = cpsr s"
  "cpsr (s\<lparr>trc := t\<rparr>) = cpsr s" "i \<noteq> 16 \<Longrightarrow> cpsr (set_reg i v s) = cpsr s"
  "user_state s \<Longrightarrow> cpsr (set_reg 16 v s) = v"
  by (simp_all add: cpsr_def user_state_def wf_registers_def)

lemma usr_reg_upd [simp]:
  "usr_reg (s\<lparr>mem := m\<rparr>) i = usr_reg s i" "usr_reg (s\<lparr>cycle_count := c\<rparr>) i = usr_reg s i"
  "usr_reg (s\<lparr>trc := t\<rparr>) i = usr_reg s i" "i \<le> 15 \<Longrightarrow> usr_reg (set_reg 16 v s) i = usr_reg s i"
  by (auto simp: usr_reg_def word_le_nat_alt)

section \<open>The invariant is preserved\<close>

lemma unat_le_15: "\<not> 15 < rg \<Longrightarrow> unat rg \<le> 15" "rg \<le> 15 \<Longrightarrow> unat rg \<le> 15" for rg :: u8
  by (simp_all add: word_less_nat_alt word_le_nat_alt)

text \<open>
  \<open>sim_inv n b\<close>: a user-mode state with a well-formed memory of size \<open>n\<close> and byte
  order \<open>b\<close>.
\<close>

definition sim_inv :: "u64 \<Rightarrow> int \<Rightarrow> 'z machine_scheme \<Rightarrow> bool" where
  "sim_inv n b s \<longleftrightarrow> user_state s \<and> wf_memory (mem s) \<and> mem_size (mem s) = n
     \<and> mem_big_endian (mem s) = b"

lemma sim_inv_user: "sim_inv n b s \<Longrightarrow> user_state s"
  by (simp add: sim_inv_def)

lemma sim_inv_upd [simp]:
  "sim_inv n b (set_reg i v s) = sim_inv n b s"
  "sim_inv n b (s\<lparr>cycle_count := c\<rparr>) = sim_inv n b s"
  "sim_inv n b s \<Longrightarrow> wf_trace t \<Longrightarrow> sim_inv n b (s\<lparr>trc := t\<rparr>)"
  by (simp_all add: sim_inv_def user_state_def wf_registers_def)

lemma trace_print_location_keeps:
  "trace_print_location t = Ret t' \<Longrightarrow> wf_trace t \<Longrightarrow> wf_trace t'"
  using trace_print_location_total [of t] by auto

lemma trace_keeps:
  "trace_register cycle type rg md v t = Ret t' \<Longrightarrow> wf_trace t \<Longrightarrow> wf_trace t'"
  "trace_memory cycle type sz cause address v t = Ret t' \<Longrightarrow> wf_trace t \<Longrightarrow> wf_trace t'"
  by (auto simp: trace_register_def trace_memory_def obind_Ret_iff print_item_def Let_def
      dest: trace_print_location_keeps split: if_splits)

lemma memory_write_keeps:
  "memory_write_byte m a x = Ret (r, m') \<Longrightarrow>
     length (octets m') = length (octets m) \<and> mem_size m' = mem_size m
     \<and> mem_big_endian m' = mem_big_endian m"
  "memory_write_half m a y = Ret (r, m') \<Longrightarrow>
     length (octets m') = length (octets m) \<and> mem_size m' = mem_size m
     \<and> mem_big_endian m' = mem_big_endian m"
  "memory_write_word m a z = Ret (r, m') \<Longrightarrow>
     length (octets m') = length (octets m) \<and> mem_size m' = mem_size m
     \<and> mem_big_endian m' = mem_big_endian m"
proof -
  show "memory_write_byte m a x = Ret (r, m') \<Longrightarrow>
     length (octets m') = length (octets m) \<and> mem_size m' = mem_size m
     \<and> mem_big_endian m' = mem_big_endian m"
    by (auto simp: memory_write_byte_def obind_Ret_iff dest: put_octet_memory)
  show "memory_write_half m a y = Ret (r, m') \<Longrightarrow>
     length (octets m') = length (octets m) \<and> mem_size m' = mem_size m
     \<and> mem_big_endian m' = mem_big_endian m"
    unfolding memory_write_half_puts by (auto simp: obind_Ret_iff dest: puts_frame)
  show "memory_write_word m a z = Ret (r, m') \<Longrightarrow>
     length (octets m') = length (octets m) \<and> mem_size m' = mem_size m
     \<and> mem_big_endian m' = mem_big_endian m"
    using memory_write_word_Ret [of m a z r m'] by simp
qed

text \<open>
  A predicate on states is a machine invariant if it survives what the operations do: changes
  of the trace data that keep it well-formed, of the registers that keep their number and the
  mode, and of the memory that keep its size and byte order. Every operation preserves such a
  predicate; the fetch, which counts a cycle, does if it does not depend on the count.
\<close>

locale machine_invariant =
  fixes I :: "'z machine_scheme \<Rightarrow> bool"
  assumes inv_trace: "I s \<Longrightarrow> (wf_trace (trc s) \<Longrightarrow> wf_trace t) \<Longrightarrow> I (s\<lparr>trc := t\<rparr>)"
    and inv_registers: "I s \<Longrightarrow> length (regs r) = length (regs (reg s)) \<Longrightarrow>
      mode r = mode (reg s) \<Longrightarrow> I (s\<lparr>reg := r\<rparr>)"
    and inv_memory: "I s \<Longrightarrow> length (octets m) = length (octets (mem s)) \<Longrightarrow>
      mem_size m = mem_size (mem s) \<Longrightarrow> mem_big_endian m = mem_big_endian (mem s) \<Longrightarrow>
      I (s\<lparr>mem := m\<rparr>)"
begin

lemma preserves_tr_register [pres]: "preserves I (tr_register type rg md v)"
  unfolding tr_register_def
  by (rule preserves_update_o) (auto simp: obind_Ret_iff intro: inv_trace dest: trace_keeps)

lemma preserves_tr_memory [pres]: "preserves I (tr_memory type sz cause address v)"
  unfolding tr_memory_def
  by (rule preserves_update_o) (auto simp: obind_Ret_iff intro: inv_trace dest: trace_keeps)

lemma preserves_upd_reg:
  assumes "\<And>r r'. f r = Ret r' \<Longrightarrow> mode r' = mode r \<and> length (regs r') = length (regs r)"
  shows "preserves I (upd_reg f)"
  unfolding upd_reg_def
  by (rule preserves_update_o) (auto simp: obind_Ret_iff intro!: inv_registers dest: assms)

lemma preserves_set_mem:
  assumes "\<And>m r m'. f m = Ret (r, m') \<Longrightarrow> length (octets m') = length (octets m)
      \<and> mem_size m' = mem_size m \<and> mem_big_endian m' = mem_big_endian m"
    and "\<And>r. preserves I (k r)"
  shows "preserves I (mbind (gets mem) (\<lambda>m.
      mbind (lift_o (f m)) (\<lambda>(r, m'). mseq (modify (\<lambda>s. s\<lparr>mem := m'\<rparr>)) (k r))))"
  unfolding preserves_def
proof (intro allI impI)
  fix h s v s'
  assume run: "mbind (gets mem) (\<lambda>m. mbind (lift_o (f m)) (\<lambda>(r, m').
      mseq (modify (\<lambda>s. s\<lparr>mem := m'\<rparr>)) (k r))) h s = Ret (v, s')" and I: "I s"
  then obtain r m' where f: "f (mem s) = Ret (r, m')" and k: "k r h (s\<lparr>mem := m'\<rparr>) = Ret (v, s')"
    by (auto simp: mbind_def gets_def lift_o_def modify_def obind_Ret_iff)
  have "I (s\<lparr>mem := m'\<rparr>)" using inv_memory [OF I] assms(1) [OF f] by blast
  with assms(2) k show "I s'" by (auto dest: preservesD)
qed

lemma preserves_arm [pres]:
  "preserves I (arm_read_register rg)"
  "preserves I (arm_read_usr_register rg)"
  "preserves I arm_read_cpsr"
  "preserves I arm_read_spsr"
  "preserves I (arm_write_register rg v)"
  "preserves I (arm_write_usr_register rg v)"
  "preserves I (arm_write_cpsr v)"
  "preserves I (arm_write_spsr v)"
  "preserves I (arm_read_byte address x)"
  "preserves I (arm_read_half address y)"
  "preserves I (arm_read_word address z)"
  "preserves I arm_current_mode_has_spsr"
  by (auto simp: arm_read_register_def arm_read_usr_register_def arm_read_cpsr_def
      arm_read_spsr_def arm_write_register_def arm_write_usr_register_def arm_write_cpsr_def
      arm_write_spsr_def arm_read_byte_def arm_read_half_def arm_read_word_def
      arm_current_mode_has_spsr_def Let_def intro!: pres preserves_upd_reg
      dest: registers_keep)

lemma preserves_arm_write [pres]:
  "preserves I (arm_write_byte address x)"
  "preserves I (arm_write_half address y)"
  "preserves I (arm_write_word address z)"
  unfolding arm_write_byte_def arm_write_half_def arm_write_word_def
  by (rule preserves_set_mem, erule memory_write_keeps, intro pres)+

lemma preserves_arm_exception [pres]: "preserves I (arm_exception ex)"
  unfolding arm_exception_def by (intro pres)

end

locale clock_free_invariant = machine_invariant +
  assumes inv_cycle: "I s \<Longrightarrow> I (s\<lparr>cycle_count := c\<rparr>)"
begin

lemma preserves_arm_fetch [pres]: "preserves I (arm_fetch v)"
  unfolding arm_fetch_def Let_def
  by (auto intro!: pres preserves_modify inv_cycle)

end

text \<open>The well-formedness of the state, its size and byte order, and every further field.\<close>

interpretation sim: clock_free_invariant "sim_inv n b"
  by unfold_locales (auto simp: sim_inv_def user_state_def wf_registers_def wf_memory_def)

interpretation more: clock_free_invariant "\<lambda>s. machine.more s = z"
  by unfold_locales auto

interpretation cycles: machine_invariant "\<lambda>s. cycle_count s = c"
  by unfold_locales auto

section \<open>Tracing has no influence\<close>

text \<open>
  \<open>same_core\<close> relates user-mode states that agree on everything but the trace module's
  data. Every operation respects it, so what is proved of runs with tracing disabled
  holds of all runs.
\<close>

definition same_core :: "'z machine_scheme \<Rightarrow> 'z machine_scheme \<Rightarrow> bool" where
  "same_core s t \<longleftrightarrow> user_state s \<and> user_state t \<and> cycle_count s = cycle_count t
     \<and> reg s = reg t \<and> mem s = mem t \<and> machine.more s = machine.more t"

lemma same_core_gets:
  "same_core s t \<Longrightarrow> reg s = reg t" "same_core s t \<Longrightarrow> mem s = mem t"
  "same_core s t \<Longrightarrow> cycle_count s = cycle_count t" "same_core s t \<Longrightarrow> mode (reg t) = USR"
  by (simp_all add: same_core_def user_state_def)

lemma respecting_gets_fields [resp]:
  "respecting same_core (gets mem)" "respecting same_core (gets reg)"
  "respecting same_core (gets cycle_count)"
  by (rule respecting_gets, simp add: same_core_gets)+

lemma respecting_tr_register:
  assumes "type < 2" "rg < 18" "md < 32"
  shows "respecting same_core (tr_register type rg md v)"
  unfolding respecting_def
proof (intro allI impI)
  fix h :: host and s t :: "'z machine_scheme" assume st: "same_core s t"
  then have "wf_trace (trc s)" "wf_trace (trc t)" by (auto simp: same_core_def user_state_def)
  from trace_register_total [OF this(1) assms, of "cycle_count s" v]
    trace_register_total [OF this(2) assms, of "cycle_count t" v] st
  show "outcome_rel same_core (tr_register type rg md v h s) (tr_register type rg md v h t)"
    by (auto simp: tr_register_def update_o_def same_core_def user_state_def)
qed

lemma respecting_tr_memory:
  assumes "type < 2" "cause < 2"
  shows "respecting same_core (tr_memory type sz cause address v)"
  unfolding respecting_def
proof (intro allI impI)
  fix h :: host and s t :: "'z machine_scheme" assume st: "same_core s t"
  then have "wf_trace (trc s)" "wf_trace (trc t)" by (auto simp: same_core_def user_state_def)
  from trace_memory_total [OF this(1) assms, of "cycle_count s" sz address v]
    trace_memory_total [OF this(2) assms, of "cycle_count t" sz address v] st
  show "outcome_rel same_core (tr_memory type sz cause address v h s)
      (tr_memory type sz cause address v h t)"
    by (auto simp: tr_memory_def update_o_def same_core_def user_state_def)
qed

lemma respecting_upd_reg:
  assumes "\<And>r r'. f r = Ret r' \<Longrightarrow> mode r' = mode r \<and> length (regs r') = length (regs r)"
  shows "respecting same_core (upd_reg f)"
  unfolding respecting_def
proof (intro allI impI)
  fix h :: host and s t :: "'z machine_scheme" assume "same_core s t"
  then show "outcome_rel same_core (upd_reg f h s) (upd_reg f h t)"
    by (cases "f (reg t)")
      (auto simp: upd_reg_def update_o_def same_core_def user_state_def wf_registers_def
        dest: assms)
qed

lemma respecting_modify_core:
  "respecting same_core (modify (\<lambda>s. s\<lparr>cycle_count := cycle_count s + c\<rparr>))"
  "respecting same_core (modify (\<lambda>s. s\<lparr>mem := m\<rparr>))"
  by (rule respecting_modify, simp add: same_core_def)+

text \<open>In mode \<open>USR\<close> an access to a register beyond 15 ends the process.\<close>

lemma usr_register_range:
  "mode r = USR \<Longrightarrow> read_register r rg = Ret v \<Longrightarrow> rg \<le> 15"
  "mode r = USR \<Longrightarrow> write_register r rg v = Ret r' \<Longrightarrow> rg \<le> 15"
  "read_usr_register r rg = Ret v \<Longrightarrow> rg \<le> 15"
  "write_usr_register r rg v = Ret r' \<Longrightarrow> rg \<le> 15"
  by (auto simp: read_register_def read_usr_register_def write_register_def
      write_usr_register_def split: if_splits)

lemma below_18: "rg \<le> 15 \<Longrightarrow> rg < 18" for rg :: u8
  by (simp add: word_le_nat_alt word_less_nat_alt)

lemma same_core_range:
  "same_core s t \<Longrightarrow> read_register (reg t) rg = Ret v \<Longrightarrow> rg < 18"
  using usr_register_range(1) [of "reg t" rg v] by (simp add: same_core_gets below_18)

lemma respecting_arm_read_register [resp]: "respecting same_core (arm_read_register rg)"
  unfolding arm_read_register_def Let_def get_mode_def
  by (rule respecting_gets_bind, simp add: same_core_gets, rule respecting_lift_bind,
      rule respecting_bind, rule respecting_tr_register)
    (auto simp: same_core_gets dest: same_core_range intro: resp)

lemma respecting_arm_read_usr_register [resp]: "respecting same_core (arm_read_usr_register rg)"
  unfolding arm_read_usr_register_def Let_def
  by (rule respecting_gets_bind, simp add: same_core_gets, rule respecting_lift_bind,
      rule respecting_bind, rule respecting_tr_register)
    (auto simp: same_core_gets dest: usr_register_range intro: resp below_18)

lemma respecting_arm_read_cpsr [resp]: "respecting same_core arm_read_cpsr"
  unfolding arm_read_cpsr_def
  by (rule respecting_gets_bind, simp add: same_core_gets, rule respecting_lift_bind,
      rule respecting_bind, rule respecting_tr_register) (auto intro: resp)

lemma respecting_arm_read_spsr [resp]: "respecting same_core arm_read_spsr"
  unfolding arm_read_spsr_def get_mode_def
  by (rule respecting_gets_bind, simp add: same_core_gets, rule respecting_lift_bind,
      rule respecting_bind, rule respecting_tr_register) (auto simp: same_core_gets intro: resp)

lemma respecting_arm_write_register [resp]: "respecting same_core (arm_write_register rg v)"
  unfolding respecting_def
proof (intro allI impI)
  fix h :: host and s t :: "'z machine_scheme" assume st: "same_core s t"
  have *: "respecting (same_core :: 'z machine_scheme \<Rightarrow> _) (mseq (upd_reg (\<lambda>r. write_register r rg v))
      (mbind (gets reg) (\<lambda>r. tr_register WRITE rg (get_mode r) v)))" if "rg \<le> 15"
    by (rule respecting_bind, rule respecting_upd_reg, erule write_register_keeps,
        rule respecting_gets_bind, simp add: same_core_gets, rule respecting_tr_register)
      (use that below_18 in \<open>auto simp: same_core_gets get_mode_def\<close>)
  show "outcome_rel same_core (arm_write_register rg v h s) (arm_write_register rg v h t)"
  proof (cases "rg \<le> 15")
    case True
    with * st show ?thesis by (simp add: arm_write_register_def respecting_def)
  next
    case False
    with st show ?thesis
      by (auto simp: arm_write_register_def mbind_def upd_reg_def update_o_def same_core_def
          user_state_def write_register_def write_usr_register_def)
  qed
qed

lemma respecting_arm_write_usr_register [resp]:
  "respecting same_core (arm_write_usr_register rg v)"
proof (cases "rg \<le> 15")
  case True
  then show ?thesis unfolding arm_write_usr_register_def
    by (intro respecting_bind respecting_upd_reg respecting_tr_register)
      (auto dest: registers_keep below_18)
next
  case False
  then show ?thesis
    by (auto simp: respecting_def arm_write_usr_register_def mbind_def upd_reg_def update_o_def
        write_usr_register_def)
qed

lemma respecting_arm_write_cpsr [resp]: "respecting same_core (arm_write_cpsr v)"
  unfolding arm_write_cpsr_def
  by (intro respecting_bind respecting_upd_reg respecting_tr_register)
    (auto dest: registers_keep)

lemma no_spsr_in_USR: "mode r = USR \<Longrightarrow> read_spsr r = Exit 1" "mode r = USR \<Longrightarrow> write_spsr r v = Exit 1"
  by (simp_all add: read_spsr_def write_spsr_def current_mode_has_spsr_def get_mode_def
      no_spsr_def arm_get_mode_name_def table_at_def)

lemma respecting_arm_write_spsr [resp]: "respecting same_core (arm_write_spsr v)"
  by (auto simp: respecting_def arm_write_spsr_def mbind_def upd_reg_def update_o_def
      same_core_def user_state_def no_spsr_in_USR)

lemma respecting_arm_memory [resp]:
  "respecting same_core (arm_read_byte address x)"
  "respecting same_core (arm_read_half address y)"
  "respecting same_core (arm_read_word address z)"
  "respecting same_core (arm_write_byte address x')"
  "respecting same_core (arm_write_half address y')"
  "respecting same_core (arm_write_word address z')"
  unfolding arm_read_byte_def arm_read_half_def arm_read_word_def arm_write_byte_def
    arm_write_half_def arm_write_word_def
  by (auto intro!: resp respecting_tr_memory respecting_modify_core)

lemma respecting_arm_fetch [resp]: "respecting same_core (arm_fetch v)"
  unfolding arm_fetch_def Let_def
  by (rule respecting_bind, rule respecting_modify_core, rule respecting_bind, rule resp,
      rule respecting_gets_bind, simp add: same_core_gets)
    (auto intro!: resp respecting_tr_memory)

lemma respecting_arm_gets [resp]:
  "respecting same_core arm_current_mode_has_spsr"
  "respecting same_core arm_in_a_privileged_mode"
  "respecting same_core arm_get_cycle_count"
  by (auto simp: arm_current_mode_has_spsr_def arm_in_a_privileged_mode_def
      arm_get_cycle_count_def same_core_gets intro!: respecting_gets)

lemma respecting_arm_exception [resp]: "respecting same_core (arm_exception ex)"
  unfolding arm_exception_def by (intro resp)

section \<open>Runs up to the trace\<close>

text \<open>
  \<open>runs m h s v s'\<close>: from \<open>s\<close> the program returns \<open>v\<close> in a state that agrees with
  \<open>s'\<close> on everything but the trace module's data. To prove it, run the program from the
  state with tracing disabled, where every operation is an equation.
\<close>

definition runs :: "('z, 'a) arm \<Rightarrow> host \<Rightarrow> 'z machine_scheme \<Rightarrow> 'a \<Rightarrow> 'z machine_scheme \<Rightarrow> bool" where
  "runs m h s v s' \<longleftrightarrow> (\<exists>t. m h s = Ret (v, t) \<and> same_core t s')"

definition quiet :: "'z machine_scheme \<Rightarrow> 'z machine_scheme" where
  "quiet s = s\<lparr>trc := trace_disable (trc s)\<rparr>"

definition quiet_user :: "'z machine_scheme \<Rightarrow> bool" where
  "quiet_user s \<longleftrightarrow> user_state s \<and> enabled (trc s) = 0"

lemma quiet_simps [simp]:
  "mem (quiet s) = mem s" "reg (quiet s) = reg s" "cycle_count (quiet s) = cycle_count s"
  "machine.more (quiet s) = machine.more s"
  "quiet (set_reg i v s) = set_reg i v (quiet s)"
  "quiet (s\<lparr>mem := m\<rparr>) = (quiet s)\<lparr>mem := m\<rparr>"
  "quiet (s\<lparr>cycle_count := c\<rparr>) = (quiet s)\<lparr>cycle_count := c\<rparr>"
  "usr_reg (quiet s) rg = usr_reg s rg" "cpsr (quiet s) = cpsr s"
  "user_state (quiet s) = user_state s"
  by (simp_all add: quiet_def set_reg_def usr_reg_def cpsr_def user_state_def trace_disable_def)

lemma quiet_user_simps [simp]:
  "quiet_user (quiet s) = user_state s"
  "quiet_user (set_reg i v s) = quiet_user s"
  "quiet_user (s\<lparr>mem := m\<rparr>) = quiet_user s"
  "quiet_user (s\<lparr>cycle_count := c\<rparr>) = quiet_user s"
  by (simp_all add: quiet_user_def quiet_def trace_disable_def user_state_def wf_registers_def)

lemma same_core_quiet: "user_state s \<Longrightarrow> same_core s (quiet s)"
  by (simp add: same_core_def)

lemma same_core_refl: "user_state s \<Longrightarrow> same_core s s"
  by (simp add: same_core_def)

lemma same_core_sym: "same_core s t \<Longrightarrow> same_core t s"
  by (simp add: same_core_def)

lemma same_core_trans: "same_core s t \<Longrightarrow> same_core t u \<Longrightarrow> same_core s u"
  by (simp add: same_core_def)

lemma runsI:
  assumes m: "respecting same_core m" and s: "user_state s" and s': "user_state s'"
    and run: "wp m h (\<lambda>w t. w = v \<and> t = quiet s') (quiet s)"
  shows "runs m h s v s'"
proof -
  from run have q: "m h (quiet s) = Ret (v, quiet s')" by (auto simp: wp_iff)
  with m same_core_quiet [OF s] have "outcome_rel same_core (m h s) (Ret (v, quiet s'))"
    unfolding respecting_def by metis
  then obtain t where "m h s = Ret (v, t)" "same_core t (quiet s')"
    by (auto simp: outcome_rel_def split: outcome.splits)
  then show ?thesis
    using same_core_trans same_core_sym [OF same_core_quiet [OF s']] by (auto simp: runs_def)
qed

lemma same_core_cong: "same_core s t \<Longrightarrow> same_core s u \<longleftrightarrow> same_core t u"
  by (auto simp: same_core_def)

lemma runs_iff_quiet:
  assumes m: "respecting same_core m" and s: "user_state s"
  shows "runs m h s v s' \<longleftrightarrow> wp m h (\<lambda>w t. w = v \<and> same_core t s') (quiet s)"
proof -
  from m same_core_quiet [OF s] have "outcome_rel same_core (m h s) (m h (quiet s))"
    unfolding respecting_def by blast
  then show ?thesis
    unfolding runs_def wp_iff
    by (cases "m h s"; cases "m h (quiet s)")
      (auto simp: outcome_rel_def dest: same_core_cong)
qed

lemma runs_wp:
  assumes "runs m h s v s'" and "\<And>t. same_core t s' \<Longrightarrow> Q v t"
  shows "wp m h Q s"
  using assms by (auto simp: runs_def wp_iff)

lemma runs_bind:
  assumes m: "runs m h s v s1" and f: "respecting same_core (f v)" "runs (f v) h s1 w s2"
  shows "runs (mbind m f) h s w s2"
proof -
  from m obtain t where t: "m h s = Ret (v, t)" "same_core t s1" by (auto simp: runs_def)
  from f obtain u where u: "f v h s1 = Ret (w, u)" "same_core u s2" by (auto simp: runs_def)
  from f(1) t(2) u(1) have "outcome_rel same_core (f v h t) (Ret (w, u))"
    unfolding respecting_def by metis
  then obtain t' where "f v h t = Ret (w, t')" "same_core t' u"
    by (auto simp: outcome_rel_def split: outcome.splits)
  with t u show ?thesis
    using same_core_trans by (auto simp: runs_def mbind_def)
qed

text \<open>The operations on user-mode states with tracing disabled.\<close>

lemma wp_tr [wp_simps]:
  "quiet_user s \<Longrightarrow> wp (tr_register type rg md v) h Q s \<longleftrightarrow> Q () s"
  "quiet_user s \<Longrightarrow> wp (tr_memory type sz cause address v) h Q s \<longleftrightarrow> Q () s"
  by (simp_all add: tr_register_def tr_memory_def wp_update_o quiet_user_def)

lemma usr_mode_access:
  "mode r = USR \<Longrightarrow> wf_registers r \<Longrightarrow>
     read_register r rg = (if rg \<le> 15 then Ret (regs r ! unat rg) else Exit 0)"
  "mode r = USR \<Longrightarrow> wf_registers r \<Longrightarrow> write_register r rg v =
     (if rg \<le> 15 then Ret (r\<lparr>regs := (regs r)[unat rg := v]\<rparr>) else Exit 0)"
  "wf_registers r \<Longrightarrow>
     read_usr_register r rg = (if rg \<le> 15 then Ret (regs r ! unat rg) else Exit 0)"
  "wf_registers r \<Longrightarrow> write_usr_register r rg v =
     (if rg \<le> 15 then Ret (r\<lparr>regs := (regs r)[unat rg := v]\<rparr>) else Exit 0)"
  "wf_registers r \<Longrightarrow> read_cpsr r = Ret (regs r ! 16)"
  "wf_registers r \<Longrightarrow> write_cpsr r v = Ret (r\<lparr>regs := (regs r)[16 := v]\<rparr>)"
  by (auto simp: read_register_def write_register_def read_usr_register_def
      write_usr_register_def read_cpsr_def write_cpsr_def reg_at_def put_reg_def
      wf_registers_def word_less_nat_alt word_le_nat_alt)

lemma wp_arm_registers [wp_simps]:
  "quiet_user s \<Longrightarrow> wp (arm_read_register rg) h Q s \<longleftrightarrow> rg \<le> 15 \<and> Q (usr_reg s rg) s"
  "quiet_user s \<Longrightarrow> wp (arm_write_register rg v) h P s \<longleftrightarrow> rg \<le> 15 \<and> P () (set_reg (unat rg) v s)"
  "quiet_user s \<Longrightarrow> wp (arm_read_usr_register rg) h Q s \<longleftrightarrow> rg \<le> 15 \<and> Q (usr_reg s rg) s"
  "quiet_user s \<Longrightarrow>
     wp (arm_write_usr_register rg v) h P s \<longleftrightarrow> rg \<le> 15 \<and> P () (set_reg (unat rg) v s)"
  "quiet_user s \<Longrightarrow> wp arm_read_cpsr h Q s \<longleftrightarrow> Q (cpsr s) s"
  "quiet_user s \<Longrightarrow> wp (arm_write_cpsr v) h P s \<longleftrightarrow> P () (set_reg 16 v s)"
  "quiet_user s \<Longrightarrow> wp arm_current_mode_has_spsr h R s \<longleftrightarrow> R False s"
  by (auto simp: arm_read_register_def arm_write_register_def arm_read_usr_register_def
      arm_write_usr_register_def arm_read_cpsr_def arm_write_cpsr_def
      arm_current_mode_has_spsr_def current_mode_has_spsr_def get_mode_def
      upd_reg_def wp_simps usr_mode_access usr_reg_def cpsr_def Let_def
      quiet_user_def user_state_def set_reg_def wf_registers_def)

lemma wp_arm_exception [wp_simps]:
  "quiet_user s \<Longrightarrow> wp (arm_exception ex) h Q s \<longleftrightarrow>
     (if ex = RESET then Q () (set_reg 15 0 (set_reg 16 0x1d3 s)) else Q () s)"
  by (simp add: arm_exception_def wp_simps Exception_bit_9_def)

text \<open>Byte accesses are accesses to one octet, word accesses those of the interface.\<close>

lemma memory_byte_octet:
  "memory_read_byte m a v = obind (octet m a) (\<lambda>b. Ret (0, Some b))"
  "memory_write_byte m a b = obind (put_octet m a b) (\<lambda>m. Ret (0, m))"
  by (simp_all add: memory_read_byte_def memory_write_byte_def)

lemma memory_write_word_store:
  "memory_write_word m a w = obind (store_word m a w) (\<lambda>m. Ret (0, m))"
  by (simp add: store_word_def memory_write_word_def put_octet_def)

lemma wp_arm_memory [wp_simps]:
  "quiet_user s \<Longrightarrow> wp (arm_read_word a x) h Q s \<longleftrightarrow> (\<exists>w. load_word (mem s) a = Ret w \<and> Q (0, w) s)"
  "quiet_user s \<Longrightarrow> wp (arm_write_word a w) h P s \<longleftrightarrow>
     (\<exists>m. store_word (mem s) a w = Ret m \<and> P 0 (s\<lparr>mem := m\<rparr>))"
  "quiet_user s \<Longrightarrow> wp (arm_read_byte a y) h R s \<longleftrightarrow> (\<exists>b. octet (mem s) a = Ret b \<and> R (0, b) s)"
  "quiet_user s \<Longrightarrow> wp (arm_write_byte a b) h P s \<longleftrightarrow>
     (\<exists>m. put_octet (mem s) a b = Ret m \<and> P 0 (s\<lparr>mem := m\<rparr>))"
  by (auto simp: arm_read_word_def arm_write_word_def arm_read_byte_def arm_write_byte_def
      wp_simps memory_read_word_load memory_write_word_store memory_byte_octet obind_Ret_iff
      split: prod.splits)

lemma wp_arm_fetch [wp_simps]:
  "quiet_user s \<Longrightarrow> wp (arm_fetch x) h Q s \<longleftrightarrow>
     (\<exists>w. load_word (mem s) (usr_reg s 15 - 4) = Ret w \<and>
       Q (0, w) (set_reg 15 (usr_reg s 15) (s\<lparr>cycle_count := cycle_count s + 1\<rparr>)))"
  by (auto simp: arm_fetch_def Let_def wp_simps memory_read_word_load obind_Ret_iff
      split: prod.splits)

text \<open>Ends of programs on such states, and their transfer to states with tracing enabled.\<close>

lemma ends_quiet_iff:
  assumes "respecting same_core m" "user_state s"
  shows "ends m h s e \<longleftrightarrow> ends m h (quiet s) e"
proof -
  from assms(1) same_core_quiet [OF assms(2)] have "outcome_rel same_core (m h s) (m h (quiet s))"
    unfolding respecting_def by blast
  then show ?thesis
    by (cases "m h s"; cases "m h (quiet s)") (auto simp: ends_def outcome_rel_def)
qed

lemmas ends_quiet = ends_quiet_iff [THEN iffD2]

lemma ends_tr [end_simps]:
  "quiet_user s \<Longrightarrow> \<not> ends (tr_register type rg md v) h s e"
  "quiet_user s \<Longrightarrow> \<not> ends (tr_memory type sz cause address v) h s e"
  by (auto simp: tr_register_def tr_memory_def end_simps quiet_user_def)

lemma ends_registers [end_simps]:
  "quiet_user s \<Longrightarrow> ends (arm_read_register rg) h s e \<longleftrightarrow> 15 < rg \<and> e = Exit 0"
  "quiet_user s \<Longrightarrow> ends (arm_write_register rg v) h s e \<longleftrightarrow> 15 < rg \<and> e = Exit 0"
  "quiet_user s \<Longrightarrow> \<not> ends arm_read_cpsr h s e"
  "quiet_user s \<Longrightarrow> \<not> ends (arm_write_cpsr v) h s e"
  by (auto simp: arm_read_register_def arm_write_register_def arm_read_cpsr_def
      arm_write_cpsr_def upd_reg_def Let_def end_simps wp_simps usr_mode_access
      quiet_user_def user_state_def wf_registers_def not_le)

lemma ends_memory [end_simps]:
  "quiet_user s \<Longrightarrow> \<not> ends (arm_read_word a x) h s Abort"
  "quiet_user s \<Longrightarrow> \<not> ends (arm_write_word a w) h s Abort"
  by (auto simp: arm_read_word_def arm_write_word_def end_simps wp_simps memory_read_word_def
      memory_write_word_def octet_def put_octet_def read_local_def split: if_splits option.splits)

section \<open>A sample state\<close>

text \<open>A state for examples: the first registers as given, the others and the memory zero.\<close>

definition sample :: "u32 list \<Rightarrow> machine" where
  "sample rs = \<lparr>cycle_count = 0,
     reg = registers_create (rs @ replicate (37 - length rs) 0),
     mem = memory_create (replicate 64 0) 64 1, trc = trace_init\<rparr>"

lemma sample_user [simp]: "length rs \<le> 37 \<Longrightarrow> user_state (sample rs)"
  by (simp add: sample_def user_state_def wf_registers_def registers_create_def wf_trace_def
      trace_init_def)

lemma sample_regs [simp]:
  "regs (reg (sample rs)) = rs @ replicate (37 - length rs) 0" "cycle_count (sample rs) = 0"
  "mem (sample rs) = memory_create (replicate 64 0) 64 1"
  by (simp_all add: sample_def registers_create_def)

text \<open>The same with a program at address 0, in a big-endian memory.\<close>

definition loaded :: "u8 list \<Rightarrow> u32 list \<Rightarrow> machine" where
  "loaded bs rs = (sample rs)\<lparr>mem := memory_create (bs @ replicate (64 - length bs) 0) 64 1\<rparr>"

lemma loaded_simps [simp]:
  "length rs \<le> 37 \<Longrightarrow> user_state (loaded bs rs)"
  "regs (reg (loaded bs rs)) = rs @ replicate (37 - length rs) 0" "cycle_count (loaded bs rs) = 0"
  "mem (loaded bs rs) = memory_create (bs @ replicate (64 - length bs) 0) 64 1"
  by (simp_all add: loaded_def)

section \<open>Properties\<close>

text \<open>
  A fetch returns the word at the program counter (with bit 1 cleared), counts one cycle and
  advances the program counter by 4, so that an instruction reads it as its own address plus 8.
\<close>

theorem fetch_effect:
  assumes "user_state s" "load_word (mem s) (usr_reg s 15 - 4) = Ret w"
  shows "runs (arm_fetch v) h s (0, w) (set_reg 15 (usr_reg s 15) (s\<lparr>cycle_count := cycle_count s + 1\<rparr>))"
  using assms by (intro runsI respecting_arm_fetch) (simp_all add: wp_arm_fetch)

theorem fetch_effect_witness:
  "runs (arm_fetch None) x86_host (loaded [1, 2, 3, 4] []) (0, 0x01020304)
     (set_reg 15 4 ((loaded [1, 2, 3, 4] [])\<lparr>cycle_count := 1\<rparr>))"
  using fetch_effect [of "loaded [1, 2, 3, 4] []" "0x01020304" None x86_host]
  by (simp add: usr_reg_def load_word_def memory_read_word_def octet_def memory_create_def)

text \<open>
  A created processor has status 0x1D3 (supervisor mode, interrupts masked), program counter 0
  and cycle count 0, whatever the allocated blocks hold; its register file is in user mode all the
  same, since nothing connects the mode bits of the status register with it.
\<close>

theorem reset_state:
  assumes "length garbage = 37" "wf_trace t"
  shows "\<exists>s. arm_create cycles garbage m t h = Ret s \<and> cpsr s = 0x1D3 \<and> regs (reg s) ! 15 = 0 \<and>
    cycle_count s = 0 \<and> mode (reg s) = USR \<and> mem s = m \<and> user_state s"
proof -
  let ?s = "\<lparr>cycle_count = cycles, reg = registers_create garbage, mem = m, trc = t\<rparr>"
  have u: "user_state ?s"
    using assms by (simp add: user_state_def wf_registers_def registers_create_def)
  have "runs (arm_exception RESET) h ?s () (set_reg 15 0 (set_reg 16 0x1D3 ?s))"
    using u by (intro runsI respecting_arm_exception) (simp_all add: wp_arm_exception)
  then obtain s' where s': "arm_exception RESET h ?s = Ret ((), s')"
    and c: "same_core s' (set_reg 15 0 (set_reg 16 0x1D3 ?s))" by (auto simp: runs_def)
  have "arm_create cycles garbage m t h = Ret (s'\<lparr>cycle_count := 0\<rparr>)"
    by (simp add: arm_create_def mbind_def s' modify_def)
  with c assms(1) show ?thesis
    by (auto simp: same_core_def cpsr_def registers_create_def user_state_def)
qed

theorem reset_state_witness:
  "\<exists>s. arm_create 5 (replicate 37 9) (memory_create [] 0 0) trace_init x86_host = Ret s \<and> cpsr s = 0x1D3"
  using reset_state [of "replicate 37 9" trace_init 5 "memory_create [] 0 0" x86_host]
  by (auto simp: wf_trace_def trace_init_def)

end
