(* ===== verification/Condition.thy ===== *)
theory Condition
  imports Arm_Core
begin

unbundle bit_operations_syntax

text \<open>
  The condition field of an instruction: \<open>condition_OK\<close> of \<open>arm_instruction.c\<close>, the flag
  readers of \<open>arm_data_processing.c\<close> it is called with, and the meaning the condition
  codes have in the comments of \<open>arm_instruction.h\<close>.
\<close>

section \<open>The test\<close>

text \<open>
  The cases in the order of the switch; \<open>MI\<close> has no \<open>break\<close>, so control falls through
  to the assignment of \<open>PL\<close>.
\<close>

definition condition_OK :: "u8 \<Rightarrow> u8 \<Rightarrow> u8 \<Rightarrow> u8 \<Rightarrow> u8 \<Rightarrow> bool" where
  "condition_OK condition flag_N flag_Z flag_C flag_V =
     (if condition = 0 then flag_Z = 1
      else if condition = 1 then flag_Z = 0
      else if condition = 2 then flag_C = 1
      else if condition = 3 then flag_C = 0
      else if condition = 4 then (let result = (flag_N = 1) in flag_N = 0)
      else if condition = 5 then flag_N = 0
      else if condition = 6 then flag_V = 1
      else if condition = 7 then flag_V = 0
      else if condition = 8 then flag_C = 1 \<and> flag_Z = 0
      else if condition = 9 then flag_C = 0 \<and> flag_Z = 1
      else if condition = 10 then flag_N = flag_V
      else if condition = 11 then flag_N \<noteq> flag_V
      else if condition = 12 then flag_Z = 0 \<and> flag_N = flag_V
      else if condition = 13 then flag_Z = 1 \<and> flag_N \<noteq> flag_V
      else if condition = 14 then True
      else if condition = 15 then True
      else False)"

definition get_flag_N :: "('z, u8) arm" where
  "get_flag_N = mbind arm_read_cpsr (\<lambda>c. ret (ucast (get_bit c bit_N)))"

definition get_flag_Z :: "('z, u8) arm" where
  "get_flag_Z = mbind arm_read_cpsr (\<lambda>c. ret (ucast (get_bit c bit_Z)))"

definition get_flag_C :: "('z, u8) arm" where
  "get_flag_C = mbind arm_read_cpsr (\<lambda>c. ret (ucast (get_bit c bit_C)))"

definition get_flag_V :: "('z, u8) arm" where
  "get_flag_V = mbind arm_read_cpsr (\<lambda>c. ret (ucast (get_bit c bit_V)))"

text \<open>\<open>condition_OK(cond,get_flag_N(p),get_flag_Z(p),get_flag_C(p),get_flag_V(p))\<close>\<close>

definition condition_holds :: "u8 \<Rightarrow> ('z, bool) arm" where
  "condition_holds cond =
     mbind get_flag_N (\<lambda>n. mbind get_flag_Z (\<lambda>z. mbind get_flag_C (\<lambda>c. mbind get_flag_V (\<lambda>v.
     ret (condition_OK cond n z c v)))))"

section \<open>The meaning of the codes\<close>

datatype condition_code =
  EQ | NE | CS_HS | CC_LO | MI | PL | VS | VC | HI | LS | GE | LT | GT | LE | AL | UX

definition condition_codes :: "condition_code list" where
  "condition_codes = [EQ, NE, CS_HS, CC_LO, MI, PL, VS, VC, HI, LS, GE, LT, GT, LE, AL, UX]"

fun condition_means :: "condition_code \<Rightarrow> bool \<Rightarrow> bool \<Rightarrow> bool \<Rightarrow> bool \<Rightarrow> bool" where
  "condition_means EQ n z c v = z"
| "condition_means NE n z c v = (\<not> z)"
| "condition_means CS_HS n z c v = c"
| "condition_means CC_LO n z c v = (\<not> c)"
| "condition_means MI n z c v = n"
| "condition_means PL n z c v = (\<not> n)"
| "condition_means VS n z c v = v"
| "condition_means VC n z c v = (\<not> v)"
| "condition_means HI n z c v = (c \<and> \<not> z)"
| "condition_means LS n z c v = (\<not> c \<or> z)"
| "condition_means GE n z c v = (n = v)"
| "condition_means LT n z c v = (n \<noteq> v)"
| "condition_means GT n z c v = (\<not> z \<and> n = v)"
| "condition_means LE n z c v = (z \<or> n \<noteq> v)"
| "condition_means AL n z c v = True"
| "condition_means UX n z c v = True"

lemma of_bool_u8 [simp]:
  "(of_bool a = (1 :: u8)) = a" "(of_bool a = (0 :: u8)) = (\<not> a)"
  "((of_bool a :: u8) = of_bool b) = (a = b)"
  by (cases a; cases b; simp)+

lemma ucast_get_bit [simp]: "ucast (get_bit x i) = (of_bool (bit x i) :: u8)"
  by (simp add: get_bit_of_bool)

definition flag :: "nat \<Rightarrow> 'z machine_scheme \<Rightarrow> bool" where
  "flag i s = bit (cpsr s) i"

lemma wp_get_flag [wp_simps]:
  "quiet_user s \<Longrightarrow> wp get_flag_N h Q s \<longleftrightarrow> Q (of_bool (flag bit_N s)) s"
  "quiet_user s \<Longrightarrow> wp get_flag_Z h Q s \<longleftrightarrow> Q (of_bool (flag bit_Z s)) s"
  "quiet_user s \<Longrightarrow> wp get_flag_C h Q s \<longleftrightarrow> Q (of_bool (flag bit_C s)) s"
  "quiet_user s \<Longrightarrow> wp get_flag_V h Q s \<longleftrightarrow> Q (of_bool (flag bit_V s)) s"
  by (simp_all add: get_flag_N_def get_flag_Z_def get_flag_C_def get_flag_V_def wp_simps flag_def)

definition cond_ok :: "u8 \<Rightarrow> 'z machine_scheme \<Rightarrow> bool" where
  "cond_ok cond s = condition_OK cond (of_bool (flag bit_N s)) (of_bool (flag bit_Z s))
     (of_bool (flag bit_C s)) (of_bool (flag bit_V s))"

lemma wp_condition_holds [wp_simps]:
  "quiet_user s \<Longrightarrow> wp (condition_holds cond) h Q s \<longleftrightarrow> Q (cond_ok cond s) s"
  by (simp add: condition_holds_def wp_simps cond_ok_def)

lemma ends_flags [end_simps]:
  "quiet_user s \<Longrightarrow> \<not> ends get_flag_N h s e" "quiet_user s \<Longrightarrow> \<not> ends get_flag_Z h s e"
  "quiet_user s \<Longrightarrow> \<not> ends get_flag_C h s e" "quiet_user s \<Longrightarrow> \<not> ends get_flag_V h s e"
  "quiet_user s \<Longrightarrow> \<not> ends (condition_holds cond) h s e"
  by (simp_all add: get_flag_N_def get_flag_Z_def get_flag_C_def get_flag_V_def
      condition_holds_def end_simps wp_simps)

context machine_invariant
begin

lemma pres_flags [pres]:
  "preserves I get_flag_N" "preserves I get_flag_Z"
  "preserves I get_flag_C" "preserves I get_flag_V"
  "preserves I (condition_holds cond)"
  by (auto simp: get_flag_N_def get_flag_Z_def get_flag_C_def get_flag_V_def condition_holds_def
      intro!: pres)

end

lemma resp_flags [resp]:
  "respecting same_core get_flag_N" "respecting same_core get_flag_Z"
  "respecting same_core get_flag_C" "respecting same_core get_flag_V"
  "respecting same_core (condition_holds cond)"
  by (auto simp: get_flag_N_def get_flag_Z_def get_flag_C_def get_flag_V_def condition_holds_def
      intro!: resp)

lemma flag_upd [simp]:
  "flag i (quiet s) = flag i s" "j \<noteq> 16 \<Longrightarrow> flag i (set_reg j v s) = flag i s"
  "flag i (s\<lparr>mem := m\<rparr>) = flag i s" "flag i (s\<lparr>cycle_count := k\<rparr>) = flag i s"
  "user_state s \<Longrightarrow> flag i (set_reg 16 v s) = bit v i"
  by (simp_all add: flag_def)

lemma flag_loaded: "length rs \<le> 16 \<Longrightarrow> \<not> flag i (loaded bs rs)" "length rs \<le> 16 \<Longrightarrow> \<not> flag i (sample rs)"
  by (simp_all add: flag_def cpsr_def nth_append)

section \<open>Properties\<close>

lemma nat_less_16: "i < 16 \<Longrightarrow> i \<in> {0, 1, 2, 3, 4, 5, 6, 7, 8, 9, 10, 11, 12, 13, 14, 15}" for i :: nat
  unfolding insert_iff empty_iff by presburger

text \<open>
  C33: The test of a condition field agrees with the meaning of the code in the header for 13 of the 16
  codes. MI is always wrong (its case falls through to PL); LS and LE, written with a conjunction
  for a disjunction, are right only when the two flags tests they join agree.
\<close>

theorem condition_table:
  assumes "i < 16"
  shows "condition_OK (of_nat i) (of_bool n) (of_bool z) (of_bool c) (of_bool v)
      = condition_means (condition_codes ! i) n z c v
    \<longleftrightarrow> condition_codes ! i \<noteq> MI \<and> (condition_codes ! i = LS \<longrightarrow> c \<noteq> z) \<and>
      (condition_codes ! i = LE \<longrightarrow> z = (n \<noteq> v))"
  using nat_less_16 [OF assms]
  by (elim insertE emptyE; simp add: condition_OK_def condition_codes_def; blast?)

theorem condition_table_witness:
  "condition_OK 9 0 1 1 0 \<noteq> condition_means LS False True True False"
  using condition_table [of 9 False True True False] by (simp add: condition_codes_def)

end
