(* ===== verification/Data_Processing.thy ===== *)
theory Data_Processing
  imports Condition
begin

unbundle bit_operations_syntax

text \<open>
  \<open>arm_data_processing.c\<close>: the sixteen arithmetic and logical operations, the flags they
  set, and the barrel shifter that gives their second operand.
\<close>

section \<open>Flags\<close>

abbreviation (input) UNAFFECTED :: u8 where "UNAFFECTED \<equiv> 0xFF"

definition write_flags :: "u8 \<Rightarrow> u8 \<Rightarrow> u8 \<Rightarrow> ('z, unit) arm" where
  "write_flags Rd flag_C flag_V =
     mbind arm_read_cpsr (\<lambda>cpsr.
     mbind (arm_read_register Rd) (\<lambda>v.
     let flag_N = get_bit v bit_N in
     mbind (arm_read_register Rd) (\<lambda>w.
     let flag_Z = (if w = 0 then 1 else 0 :: u32);
         cpsr = (if flag_N = 1 then set_bit32 cpsr bit_N else clr_bit cpsr bit_N);
         cpsr = (if flag_Z = 1 then set_bit32 cpsr bit_Z else clr_bit cpsr bit_Z);
         cpsr = (if flag_C \<noteq> UNAFFECTED then
                   (if flag_C = 1 then set_bit32 cpsr bit_C else clr_bit cpsr bit_C) else cpsr);
         cpsr = (if flag_V \<noteq> UNAFFECTED then
                   (if flag_V = 1 then set_bit32 cpsr bit_V else clr_bit cpsr bit_V) else cpsr)
     in arm_write_cpsr cpsr)))"

definition update_flags :: "u8 \<Rightarrow> u8 \<Rightarrow> u8 \<Rightarrow> u8 \<Rightarrow> ('z, unit) arm" where
  "update_flags S Rd flag_C flag_V =
     (if S = 1 \<and> Rd = 15 then
        mbind arm_current_mode_has_spsr (\<lambda>b.
        if b then mbind arm_read_spsr arm_write_cpsr
        else arm_exception UNDEFINED_INSTRUCTION)
      else if S = 1 then write_flags Rd flag_C flag_V
      else ret ())"

definition carryFrom :: "u32 \<Rightarrow> u32 \<Rightarrow> u8" where
  "carryFrom x y = (let mx = NOT 0 in if mx < x + y then 1 else 0)"

definition borrowFrom :: "u32 \<Rightarrow> u32 \<Rightarrow> u8" where
  "borrowFrom x y = (if x < y then 1 else 0)"

definition overflowFrom :: "u32 \<Rightarrow> u32 \<Rightarrow> u32 \<Rightarrow> u8 \<Rightarrow> u8" where
  "overflowFrom x y z opcode =
     (if opcode \<noteq> 0 then
        (if drop_bit 31 x = drop_bit 31 y \<and> drop_bit 31 x = drop_bit 31 z then 1 else 0)
      else
        (if drop_bit 31 x \<noteq> drop_bit 31 y \<and> drop_bit 31 x \<noteq> drop_bit 31 z then 1 else 0))"

section \<open>Operations\<close>

text \<open>\<open>and_op\<close> is the function \<open>and\<close> of the source; the others keep their names.\<close>

definition and_op :: "u8 \<Rightarrow> u8 \<Rightarrow> u8 \<Rightarrow> u32 \<Rightarrow> u8 \<Rightarrow> ('z, u32) arm" where
  "and_op S Rd Rn shifter_operand shifter_carry_out =
     mbind (arm_read_register Rn) (\<lambda>value_rn.
     let value_rd = value_rn AND shifter_operand in
     mseq (arm_write_register Rd value_rd)
     (mseq (update_flags S Rd shifter_carry_out UNAFFECTED)
     (ret 0)))"

definition eor :: "u8 \<Rightarrow> u8 \<Rightarrow> u8 \<Rightarrow> u32 \<Rightarrow> u8 \<Rightarrow> ('z, u32) arm" where
  "eor S Rd Rn shifter_operand shifter_carry_out =
     mbind (arm_read_register Rn) (\<lambda>value_rn.
     let value_rd = value_rn XOR shifter_operand in
     mseq (arm_write_register Rd value_rd)
     (mseq (update_flags S Rd shifter_carry_out UNAFFECTED)
     (ret 0)))"

definition sub :: "u8 \<Rightarrow> u8 \<Rightarrow> u8 \<Rightarrow> u32 \<Rightarrow> ('z, u32) arm" where
  "sub S Rd Rn shifter_operand =
     mbind (arm_read_register Rn) (\<lambda>value_rn.
     let value_rd = value_rn - shifter_operand in
     mseq (arm_write_register Rd value_rd)
     (let flag_C = NOT (borrowFrom value_rn shifter_operand);
          flag_V = overflowFrom value_rn shifter_operand value_rd 1 in
     mseq (update_flags S Rd flag_C flag_V)
     (ret 0)))"

definition rsb :: "u8 \<Rightarrow> u8 \<Rightarrow> u8 \<Rightarrow> u32 \<Rightarrow> ('z, u32) arm" where
  "rsb S Rd Rn shifter_operand =
     mbind (arm_read_register Rn) (\<lambda>value_rn.
     let value_rd = shifter_operand - value_rn in
     mseq (arm_write_register Rd value_rd)
     (let flag_C = NOT (borrowFrom shifter_operand value_rn);
          flag_V = overflowFrom shifter_operand value_rn value_rd 0 in
     mseq (update_flags S Rd flag_C flag_V)
     (ret 0)))"

definition add :: "u8 \<Rightarrow> u8 \<Rightarrow> u8 \<Rightarrow> u32 \<Rightarrow> ('z, u32) arm" where
  "add S Rd Rn shifter_operand =
     mbind (arm_read_register Rn) (\<lambda>value_rn.
     let value_rd = value_rn + shifter_operand in
     mseq (arm_write_register Rd value_rd)
     (let flag_C = carryFrom value_rn shifter_operand;
          flag_V = overflowFrom value_rn shifter_operand value_rd 1 in
     mseq (update_flags S Rd flag_C flag_V)
     (ret 0)))"

text \<open>
  The three operations with carry read the registers and the status register again after
  the assignment to \<open>Rd\<close>. \<open>~get_flag_C(p)\<close> complements an \<open>int\<close>.
\<close>

definition adc :: "u8 \<Rightarrow> u8 \<Rightarrow> u8 \<Rightarrow> u32 \<Rightarrow> ('z, u32) arm" where
  "adc S Rd Rn shifter_operand =
     mbind (arm_read_register Rn) (\<lambda>x. mbind get_flag_C (\<lambda>c.
     let value_rd = x + shifter_operand + ucast c in
     mseq (arm_write_register Rd value_rd)
     (mbind (arm_read_register Rn) (\<lambda>x. mbind get_flag_C (\<lambda>c.
     let flag_C = carryFrom (x + shifter_operand) (ucast c) in
     mbind (arm_read_register Rn) (\<lambda>x. mbind get_flag_C (\<lambda>c.
     let flag_V = overflowFrom (x + shifter_operand) (ucast c) value_rd 1 in
     mseq (update_flags S Rd flag_C flag_V)
     (ret 0))))))))"

definition sbc :: "u8 \<Rightarrow> u8 \<Rightarrow> u8 \<Rightarrow> u32 \<Rightarrow> ('z, u32) arm" where
  "sbc S Rd Rn shifter_operand =
     mbind (arm_read_register Rn) (\<lambda>x. mbind get_flag_C (\<lambda>c.
     let value_rd = x - shifter_operand - NOT (ucast c) in
     mseq (arm_write_register Rd value_rd)
     (mbind (arm_read_register Rn) (\<lambda>x. mbind get_flag_C (\<lambda>c.
     let flag_C = NOT (borrowFrom x (shifter_operand - NOT (ucast c))) in
     mbind (arm_read_register Rn) (\<lambda>x. mbind get_flag_C (\<lambda>c.
     let flag_V = overflowFrom x (shifter_operand - NOT (ucast c)) value_rd 0 in
     mseq (update_flags S Rd flag_C flag_V)
     (ret 0))))))))"

definition rsc :: "u8 \<Rightarrow> u8 \<Rightarrow> u8 \<Rightarrow> u32 \<Rightarrow> ('z, u32) arm" where
  "rsc S Rd Rn shifter_operand =
     mbind (arm_read_register Rn) (\<lambda>x. mbind get_flag_C (\<lambda>c.
     let value_rd = shifter_operand - x - NOT (ucast c) in
     mseq (arm_write_register Rd value_rd)
     (mbind get_flag_C (\<lambda>c. mbind (arm_read_register Rn) (\<lambda>x.
     let flag_C = NOT (borrowFrom (shifter_operand - NOT (ucast c)) x) in
     mbind get_flag_C (\<lambda>c. mbind (arm_read_register Rn) (\<lambda>x.
     let flag_V = overflowFrom (shifter_operand - NOT (ucast c)) x value_rd 0 in
     mseq (update_flags S Rd flag_C flag_V)
     (ret 0))))))))"

text \<open>The comparisons pass the result to \<open>write_flags\<close>, whose parameter is a register.\<close>

definition tst :: "u8 \<Rightarrow> u32 \<Rightarrow> u8 \<Rightarrow> ('z, u32) arm" where
  "tst Rn shifter_operand shifter_carry_out =
     mbind (arm_read_register Rn) (\<lambda>x.
     let alu_out = x AND shifter_operand in
     mseq (write_flags (ucast alu_out) shifter_carry_out UNAFFECTED)
     (ret 0))"

definition teq :: "u8 \<Rightarrow> u32 \<Rightarrow> u8 \<Rightarrow> ('z, u32) arm" where
  "teq Rn shifter_operand shifter_carry_out =
     mbind (arm_read_register Rn) (\<lambda>x.
     let alu_out = x XOR shifter_operand in
     mseq (write_flags (ucast alu_out) shifter_carry_out UNAFFECTED)
     (ret 0))"

definition cmp :: "u8 \<Rightarrow> u32 \<Rightarrow> ('z, u32) arm" where
  "cmp Rn shifter_operand =
     mbind (arm_read_register Rn) (\<lambda>x.
     let alu_out = x - shifter_operand in
     mbind (arm_read_register Rn) (\<lambda>x.
     let flag_C = NOT (borrowFrom x shifter_operand) in
     mbind (arm_read_register Rn) (\<lambda>x.
     let flag_V = overflowFrom x shifter_operand alu_out 0 in
     mseq (write_flags (ucast alu_out) flag_C flag_V)
     (ret 0))))"

definition cmn :: "u8 \<Rightarrow> u32 \<Rightarrow> ('z, u32) arm" where
  "cmn Rn shifter_operand =
     mbind (arm_read_register Rn) (\<lambda>x.
     let alu_out = x + shifter_operand in
     mbind (arm_read_register Rn) (\<lambda>x.
     let flag_C = carryFrom x shifter_operand in
     mbind (arm_read_register Rn) (\<lambda>x.
     let flag_V = overflowFrom x shifter_operand alu_out 1 in
     mseq (write_flags (ucast alu_out) flag_C flag_V)
     (ret 0))))"

definition orr :: "u8 \<Rightarrow> u8 \<Rightarrow> u8 \<Rightarrow> u32 \<Rightarrow> u8 \<Rightarrow> ('z, u32) arm" where
  "orr S Rd Rn shifter_operand shifter_carry_out =
     mbind (arm_read_register Rn) (\<lambda>x.
     let value = x OR shifter_operand in
     mseq (arm_write_register Rd value)
     (mseq (update_flags S Rd shifter_carry_out UNAFFECTED)
     (ret 0)))"

definition mov :: "u8 \<Rightarrow> u8 \<Rightarrow> u32 \<Rightarrow> u8 \<Rightarrow> ('z, u32) arm" where
  "mov S Rd shifter_operand shifter_carry_out =
     mseq (arm_write_register Rd shifter_operand)
     (mseq (update_flags S Rd shifter_carry_out UNAFFECTED)
     (ret 0))"

definition bic :: "u8 \<Rightarrow> u8 \<Rightarrow> u8 \<Rightarrow> u32 \<Rightarrow> u8 \<Rightarrow> ('z, u32) arm" where
  "bic S Rd Rn shifter_operand shifter_carry_out =
     mbind (arm_read_register Rn) (\<lambda>x.
     let value = x AND NOT shifter_operand in
     mseq (arm_write_register Rd value)
     (mseq (update_flags S Rd shifter_carry_out UNAFFECTED)
     (ret 0)))"

definition mvn :: "u8 \<Rightarrow> u8 \<Rightarrow> u32 \<Rightarrow> u8 \<Rightarrow> ('z, u32) arm" where
  "mvn S Rd shifter_operand shifter_carry_out =
     mseq (arm_write_register Rd (NOT shifter_operand))
     (mseq (update_flags S Rd shifter_carry_out UNAFFECTED)
     (ret 0))"

section \<open>The shifter operand\<close>

text \<open>Three of the four calls pass the code of the shift where the amount is meant.\<close>

definition shift_operation :: "u32 \<Rightarrow> u8 \<Rightarrow> u8 \<Rightarrow> ('s, u32) prog" where
  "shift_operation value shift shift_amount =
     (if shift = LSL then lsl value shift_amount
      else if shift = LSR then lsr value shift
      else if shift = ASR then asr value shift
      else if shift = ROR then ror value shift
      else ret 1)"

text \<open>
  \<open>write_shift_operand_sco\<close> assigns through two pointers; the model is given what they
  hold and returns what they hold afterwards. The body is in three parts: the shift by
  an immediate amount, the shift by a register, and the choice between them.
\<close>

definition shift_by_immediate ::
  "u32 \<Rightarrow> u8 \<Rightarrow> u8 \<Rightarrow> u32 \<times> u8 \<Rightarrow> ('z, u32 \<times> u8) arm" where
  "shift_by_immediate value_rm shift_amount code_shift out =
     (if code_shift = LSL then
        mbind (if shift_amount = 0 then ret value_rm
               else shift_operation value_rm code_shift shift_amount) (\<lambda>so.
        mbind (if shift_amount = 0 then get_flag_C
               else mbind (get_bit_at value_rm (32 - uint shift_amount)) (\<lambda>b. ret (ucast b))) (\<lambda>sco.
        ret (so, sco)))
      else if code_shift = LSR then
        mbind (if shift_amount = 0 then ret 0
               else shift_operation value_rm code_shift shift_amount) (\<lambda>so.
        mbind (if shift_amount = 0 then ret (ucast (get_bit value_rm 31))
               else mbind (get_bit_at value_rm (uint shift_amount - 1)) (\<lambda>b. ret (ucast b))) (\<lambda>sco.
        ret (so, sco)))
      else if code_shift = ASR then
        (if shift_amount = 0 then
           ret (if get_bit value_rm 31 = 0 then 0 else 0xFFFFFFFF, ucast (get_bit value_rm 31))
         else
           mbind (shift_operation value_rm code_shift shift_amount) (\<lambda>so.
           mbind (get_bit_at value_rm (uint shift_amount - 1)) (\<lambda>b.
           ret (so, ucast b))))
      else if code_shift = ROR then
        mbind get_flag_C (\<lambda>c.
        mbind (lsl (ucast c) 31) (\<lambda>y.
        mbind (lsr value_rm 1) (\<lambda>z.
        let x = y OR z in
        mbind (if shift_amount = 0 then ret x
               else shift_operation value_rm code_shift shift_amount) (\<lambda>so.
        mbind (if shift_amount = 0 then ret (ucast (get_bit value_rm 0))
               else mbind (get_bit_at value_rm (uint shift_amount - 1)) (\<lambda>b. ret (ucast b))) (\<lambda>sco.
        ret (so, sco))))))
      else ret out)"

definition shift_by_register ::
  "u32 \<Rightarrow> u32 \<Rightarrow> u8 \<Rightarrow> u8 \<Rightarrow> u32 \<times> u8 \<Rightarrow> ('z, u32 \<times> u8) arm" where
  "shift_by_register ins value_rm Rs code_shift out =
     mbind (arm_read_register Rs) (\<lambda>value_rs.
     if get_bit ins 7 = 0 then
       (let value_Rs_bits_7_0 = ucast (get_bits value_rs 7 0) :: u8 in
        if code_shift = LSL then
          (if value_Rs_bits_7_0 = 0 then mbind get_flag_C (\<lambda>c. ret (value_rm, c))
           else if value_Rs_bits_7_0 < 32 then
             mbind (shift_operation value_rm code_shift value_Rs_bits_7_0) (\<lambda>so.
             mbind (get_bit_at value_rm (32 - uint value_Rs_bits_7_0)) (\<lambda>b.
             ret (so, ucast b)))
           else if value_Rs_bits_7_0 = 32 then ret (0, ucast (get_bit value_rm 0))
           else ret (0, 0))
        else if code_shift = LSR then
          (if value_Rs_bits_7_0 = 0 then mbind get_flag_C (\<lambda>c. ret (value_rm, c))
           else if value_Rs_bits_7_0 < 32 then
             mbind (shift_operation value_rm code_shift value_Rs_bits_7_0) (\<lambda>so.
             mbind (get_bit_at value_rm (uint value_Rs_bits_7_0 - 1)) (\<lambda>b.
             ret (so, ucast b)))
           else if value_Rs_bits_7_0 = 32 then ret (0, ucast (get_bit value_rm 31))
           else ret (0, 0))
        else if code_shift = ASR then
          (if value_Rs_bits_7_0 = 0 then mbind get_flag_C (\<lambda>c. ret (value_rm, c))
           else if value_Rs_bits_7_0 < 32 then
             mbind (shift_operation value_rm code_shift value_Rs_bits_7_0) (\<lambda>so.
             mbind (get_bit_at value_rm (uint value_Rs_bits_7_0 - 1)) (\<lambda>b.
             ret (so, ucast b)))
           else ret (if get_bit value_rm 31 = 0 then 0 else 0xFFFFFFFF, ucast (get_bit value_rm 31)))
        else if code_shift = ROR then
          mbind (arm_read_register Rs) (\<lambda>a.
          mbind (if get_bits a 7 0 = 0 then
                   mbind (arm_read_register Rs) (\<lambda>a'.
                   if get_bits a' 4 0 = 0 then ret value_rm else ret value_rm)
                 else shift_operation value_rm code_shift (ucast (get_bits value_rs 4 0))) (\<lambda>so.
          mbind (arm_read_register Rs) (\<lambda>a.
          mbind (if get_bits a 7 0 = 0 then
                   mbind (arm_read_register Rs) (\<lambda>a'.
                   if get_bits a' 4 0 = 0 then get_flag_C else ret (ucast (get_bit value_rm 31)))
                 else mbind (get_bit_at value_rm (uint (ucast (get_bits value_rs 4 0) :: u8) - 1))
                   (\<lambda>b. ret (ucast b))) (\<lambda>sco.
          ret (so, sco)))))
        else ret out)
     else ret out)"

definition write_shift_operand_sco :: "u32 \<Rightarrow> u32 \<times> u8 \<Rightarrow> ('z, u32 \<times> u8) arm" where
  "write_shift_operand_sco ins out =
     (if get_bit ins 25 = 0 then
        let Rm = ucast (get_bits ins 3 0); shift_amount = ucast (get_bits ins 11 7) in
        mbind (arm_read_register Rm) (\<lambda>value_rm.
        let code_shift = ucast (get_bits ins 6 5); bit4 = get_bit ins 4 in
        mbind (if get_bits ins 11 4 AND 0xFF = 0 then mbind get_flag_C (\<lambda>c. ret (value_rm, c))
               else ret out) (\<lambda>out.
        if bit4 = 0 then shift_by_immediate value_rm shift_amount code_shift out
        else shift_by_register ins value_rm (ucast (get_bits ins 11 8)) code_shift out))
      else
        let rotate_imm = ucast (get_bits ins 11 8) :: u8; immediate = ucast (get_bits ins 7 0) :: u8 in
        mbind (ror (ucast immediate) (2 * rotate_imm)) (\<lambda>so.
        mbind (if rotate_imm = 0 then get_flag_C else ret (ucast (get_bit so 31))) (\<lambda>sco.
        ret (so, sco))))"

section \<open>Selection of the operation\<close>

text \<open>The assigned parameters, in the order opcode, \<open>S\<close>, \<open>Rn\<close>, \<open>Rd\<close>, operand, carry.\<close>

definition set_parameters ::
  "u32 \<Rightarrow> u32 \<times> u8 \<Rightarrow> ('z, u8 \<times> u8 \<times> u8 \<times> u8 \<times> u32 \<times> u8) arm" where
  "set_parameters ins out =
     (let opcode = ucast (get_bits ins 24 21); S = ucast (get_bit ins 20);
          Rn = ucast (get_bits ins 19 16); Rd = ucast (get_bits ins 15 12) in
      mbind (write_shift_operand_sco ins out) (\<lambda>(so, sco).
      ret (opcode, S, Rn, Rd, so, sco)))"

definition run_operation :: "u8 \<Rightarrow> u8 \<Rightarrow> u8 \<Rightarrow> u8 \<Rightarrow> u32 \<Rightarrow> u8 \<Rightarrow> ('z, u32) arm" where
  "run_operation opcode S Rn Rd so sco =
     (if opcode = 0 then and_op S Rd Rn so sco
      else if opcode = 1 then eor S Rd Rn so sco
      else if opcode = 2 then sub S Rd Rn so
      else if opcode = 3 then rsb S Rd Rn so
      else if opcode = 4 then add S Rd Rn so
      else if opcode = 5 then adc S Rd Rn so
      else if opcode = 6 then sbc S Rd Rn so
      else if opcode = 7 then rsc S Rd Rn so
      else if opcode = 8 then tst Rn so sco
      else if opcode = 9 then teq Rn so sco
      else if opcode = 10 then cmp Rn so
      else if opcode = 11 then cmn Rn so
      else if opcode = 12 then orr S Rd Rn so sco
      else if opcode = 13 then mov S Rd so sco
      else if opcode = 14 then bic S Rd Rn so sco
      else if opcode = 15 then mvn S Rd so sco
      else ret 1)"

definition select_operation :: "u32 \<Rightarrow> ('z, u32) arm" where
  "select_operation ins =
     mbind (set_parameters ins (0, 0)) (\<lambda>(opcode, S, Rn, Rd, so, sco).
     run_operation opcode S Rn Rd so sco)"

text \<open>The results are small, so their conversion to \<open>int\<close> keeps them.\<close>

definition arm_data_processing_shift :: "u32 \<Rightarrow> ('z, int) arm" where
  "arm_data_processing_shift ins = mbind (select_operation ins) (\<lambda>result. ret (sint result))"

definition arm_data_processing_immediate_msr :: "u32 \<Rightarrow> ('z, int) arm" where
  "arm_data_processing_immediate_msr ins = mbind (select_operation ins) (\<lambda>result. ret (sint result))"

section \<open>Invariant and independence of tracing\<close>

lemmas operation_defs = and_op_def eor_def sub_def rsb_def add_def adc_def sbc_def rsc_def
  tst_def teq_def cmp_def cmn_def orr_def mov_def bic_def mvn_def

lemmas shifter_defs = shift_operation_def lsl_def lsr_def asr_def ror_def get_bit_at_def

context machine_invariant
begin

lemma pres_flags_update [pres]:
  "preserves I (write_flags Rd c v)"
  "preserves I (update_flags S Rd c v)"
  by (auto simp: write_flags_def update_flags_def Let_def intro!: pres)

end

lemma resp_flags_update [resp]:
  "respecting same_core (write_flags Rd c v)"
  "respecting same_core (update_flags S Rd c v)"
  by (auto simp: write_flags_def update_flags_def Let_def intro!: resp)

context machine_invariant
begin

lemma pres_run_operation [pres]: "preserves I (run_operation opcode S Rn Rd so sco)"
  unfolding run_operation_def operation_defs Let_def by (intro pres)

end

lemma resp_run_operation [resp]: "respecting same_core (run_operation opcode S Rn Rd so sco)"
  unfolding run_operation_def operation_defs Let_def by (intro resp)

lemma pres_shifts [pres]:
  "preserves I (lsl x k)" "preserves I (lsr x k)" "preserves I (asr x k)" "preserves I (ror x k)"
  "preserves I (get_bit_at x i)" "preserves I (shift_operation x code k)"
  unfolding shifter_defs by (intro pres)+

lemma resp_shifts [resp]:
  "respecting R (lsl x k)" "respecting R (lsr x k)" "respecting R (asr x k)" "respecting R (ror x k)"
  "respecting R (get_bit_at x i)" "respecting R (shift_operation x code k)"
  unfolding shifter_defs by (intro resp)+

context machine_invariant
begin

lemma pres_shifter [pres]:
  "preserves I (shift_by_immediate value_rm amount code out)"
  "preserves I (shift_by_register ins value_rm Rs code out)"
  "preserves I (write_shift_operand_sco ins out)"
  unfolding write_shift_operand_sco_def shift_by_immediate_def shift_by_register_def Let_def
  by (intro pres)+

end

lemma resp_shifter [resp]:
  "respecting same_core (shift_by_immediate value_rm amount code out)"
  "respecting same_core (shift_by_register ins value_rm Rs code out)"
  "respecting same_core (write_shift_operand_sco ins out)"
  unfolding write_shift_operand_sco_def shift_by_immediate_def shift_by_register_def Let_def
  by (intro resp)+

context machine_invariant
begin

lemma pres_data_processing [pres]:
  "preserves I (select_operation ins)"
  "preserves I (arm_data_processing_shift ins)"
  "preserves I (arm_data_processing_immediate_msr ins)"
  by (auto simp: arm_data_processing_shift_def arm_data_processing_immediate_msr_def
      select_operation_def set_parameters_def Let_def split: prod.splits intro!: pres)

end

lemma resp_data_processing [resp]:
  "respecting same_core (select_operation ins)"
  "respecting same_core (arm_data_processing_shift ins)"
  "respecting same_core (arm_data_processing_immediate_msr ins)"
  by (auto simp: arm_data_processing_shift_def arm_data_processing_immediate_msr_def
      select_operation_def set_parameters_def Let_def split: prod.splits intro!: resp)

section \<open>The flags an operation writes\<close>

text \<open>
  \<open>put_flags v c f w\<close> is the status word \<open>w\<close> with \<open>N\<close> and \<open>Z\<close> those of the result
  \<open>v\<close>, and \<open>C\<close> and \<open>V\<close> replaced where a value is given. \<open>as_flag\<close> reads the
  eight-bit argument of \<open>write_flags\<close>: \<open>0xFF\<close> keeps the flag and 1 sets it.
\<close>

definition put_bit :: "nat \<Rightarrow> bool \<Rightarrow> u32 \<Rightarrow> u32" where
  "put_bit i b w = (if b then set_bit32 w i else clr_bit w i)"

lemma bit_put_bit [simp]: "i < 32 \<Longrightarrow> bit (put_bit j b w) i \<longleftrightarrow> (if i = j then b else bit w i)"
  by (auto simp: put_bit_def bit_set_bit32 bit_clr_bit)

definition as_flag :: "u8 \<Rightarrow> bool option" where
  "as_flag c = (if c = UNAFFECTED then None else Some (c = 1))"

primrec put_flag :: "nat \<Rightarrow> bool option \<Rightarrow> u32 \<Rightarrow> u32" where
  "put_flag i None w = w"
| "put_flag i (Some b) w = put_bit i b w"

definition put_flags :: "u32 \<Rightarrow> bool option \<Rightarrow> bool option \<Rightarrow> u32 \<Rightarrow> u32" where
  "put_flags v c f w =
     put_flag bit_V f (put_flag bit_C c (put_bit bit_Z (v = 0) (put_bit bit_N (bit v 31) w)))"

lemma bit_put_flag [simp]:
  "i < 32 \<Longrightarrow> bit (put_flag j x w) i \<longleftrightarrow> (if i = j then (case x of None \<Rightarrow> bit w i | Some b \<Rightarrow> b) else bit w i)"
  by (cases x) auto

lemma bit_put_flags:
  "i < 32 \<Longrightarrow> bit (put_flags v c f w) i \<longleftrightarrow>
     (if i = bit_N then bit v 31 else if i = bit_Z then v = 0
      else if i = bit_C then (case c of None \<Rightarrow> bit w i | Some b \<Rightarrow> b)
      else if i = bit_V then (case f of None \<Rightarrow> bit w i | Some b \<Rightarrow> b)
      else bit w i)"
  by (auto simp: put_flags_def split: option.splits)

lemma wp_write_flags [wp_simps]:
  "quiet_user s \<Longrightarrow> wp (write_flags Rd c f) h Q s \<longleftrightarrow>
     Rd \<le> 15 \<and> Q () (set_reg 16 (put_flags (usr_reg s Rd) (as_flag c) (as_flag f) (cpsr s)) s)"
  by (auto simp: write_flags_def Let_def wp_simps put_flags_def as_flag_def put_bit_def)

definition alu_state ::
  "u8 \<Rightarrow> u8 \<Rightarrow> u32 \<Rightarrow> u8 \<Rightarrow> u8 \<Rightarrow> 'z machine_scheme \<Rightarrow> 'z machine_scheme" where
  "alu_state S Rd v c f s =
     (let s' = set_reg (unat Rd) v s in
      if S = 1 \<and> Rd \<noteq> 15 then set_reg 16 (put_flags v (as_flag c) (as_flag f) (cpsr s)) s' else s')"

lemma alu_state_keeps [simp]:
  "user_state (alu_state S Rd v c f s) = user_state s" "quiet_user (alu_state S Rd v c f s) = quiet_user s"
  by (simp_all add: alu_state_def Let_def)

lemma usr_reg_set [simp]:
  "user_state s \<Longrightarrow> r \<le> 15 \<Longrightarrow> r \<noteq> 15 \<Longrightarrow> usr_reg (set_reg (unat r) v s) r = v"
  "j \<le> 15 \<Longrightarrow> unat i \<noteq> j \<Longrightarrow> usr_reg (set_reg j v s) i = usr_reg s i"
  by (auto simp: usr_reg_def user_state_def wf_registers_def word_le_nat_alt)

lemma unat_ne_16 [simp]: "r \<le> 15 \<Longrightarrow> unat r \<noteq> 16" for r :: u8
  by (auto simp: word_le_nat_alt)

lemma wp_update_flags [wp_simps]:
  "quiet_user s \<Longrightarrow> Rd \<le> 15 \<Longrightarrow> wp (update_flags S Rd c f) h Q (set_reg (unat Rd) v s) \<longleftrightarrow>
     Q () (alu_state S Rd v c f s)"
  by (auto simp: update_flags_def alu_state_def Let_def wp_simps quiet_user_def)

section \<open>Carry, borrow and overflow\<close>

text \<open>What the three flag functions compute, in terms of the integers the words stand for.\<close>

lemma sign_eq_iff: "drop_bit 31 x = drop_bit 31 y \<longleftrightarrow> bit x 31 = bit y 31" for x y :: u32
proof -
  have *: "drop_bit 31 w = of_bool (bit w 31)" for w :: u32
    proof (rule bit_word_eqI)
    fix n show "bit (drop_bit 31 w) n = bit (of_bool (bit w 31) :: u32) n"
      using bit_imp_le_length [of w "31 + n"] by (cases n) (auto simp: bit_simps)
  qed
  show ?thesis by (simp add: *)
qed

lemma sign_bit: "bit x 31 \<longleftrightarrow> sint x < 0" for x :: u32
  using bit_last_iff [of x] by simp

lemma sint_u32_range: "- 2147483648 \<le> sint x" "sint x < 2147483648" for x :: u32
  using sint_ge [of x] sint_lt [of x] by simp_all

lemma sint_wrap:
  "sint (x - y) = (sint x - sint y + 2147483648) mod 4294967296 - 2147483648"
  "sint (x + y) = (sint x + sint y + 2147483648) mod 4294967296 - 2147483648" for x y :: u32
  by (simp_all add: sint_word_ariths signed_take_bit_eq_take_bit_shift take_bit_eq_mod)

lemma wrap_range:
  fixes z :: int
  assumes "- 4294967296 \<le> z" "z < 4294967296"
  shows "(z + 2147483648) mod 4294967296 - 2147483648 =
    (if z < - 2147483648 then z + 4294967296 else if z < 2147483648 then z else z - 4294967296)"
proof -
  have below: "(z + 2147483648) mod 4294967296 = z + 6442450944" if "z < - 2147483648"
  proof -
    have "(z + 6442450944) mod 4294967296 = z + 6442450944"
      by (rule mod_pos_pos_trivial) (use assms that in linarith)+
    then show ?thesis using mod_add_self2 [of "z + 2147483648" 4294967296] by simp
  qed
  have above: "(z + 2147483648) mod 4294967296 = z - 2147483648" if "2147483648 \<le> z"
  proof -
    have "(z - 2147483648) mod 4294967296 = z - 2147483648"
      by (rule mod_pos_pos_trivial) (use assms that in linarith)+
    then show ?thesis using minus_mod_self2 [of "z + 2147483648" 4294967296] by simp
  qed
  show ?thesis using below above by auto
qed

lemma overflow_sub: "overflowFrom x y (x - y) 0 = of_bool (sint (x - y) \<noteq> sint x - sint y)"
  using sint_u32_range [of x] sint_u32_range [of y] sint_wrap(1) [of x y]
    wrap_range [of "sint x - sint y"]
  by (auto simp: overflowFrom_def sign_eq_iff sign_bit split: if_splits)

lemma overflow_add:
  "overflowFrom x y (x + y) 1 =
     of_bool ((sint x < 0) = (sint y < 0) \<and> sint (x + y) = sint x + sint y)"
  using sint_u32_range [of x] sint_u32_range [of y] sint_wrap(2) [of x y]
    wrap_range [of "sint x + sint y"]
  by (auto simp: overflowFrom_def sign_eq_iff sign_bit split: if_splits)

lemma carry_never: "carryFrom x y = 0"
proof -
  have "\<not> (NOT 0 :: u32) < x + y" by (simp add: not_less)
  then show ?thesis by (simp add: carryFrom_def)
qed

lemma borrow_spec: "borrowFrom x y = of_bool (uint (x - y) \<noteq> uint x - uint y)"
  by (auto simp: borrowFrom_def uint_sub_if' word_le_def word_less_def)

section \<open>Weakest preconditions of the operations\<close>

definition arm_alu :: "u8 \<Rightarrow> u32 \<Rightarrow> u32 \<Rightarrow> u32" where
  "arm_alu opcode rn so =
     (if opcode = 0 then rn AND so else if opcode = 1 then rn XOR so
      else if opcode = 2 then rn - so else if opcode = 3 then so - rn
      else if opcode = 4 then rn + so
      else if opcode = 12 then rn OR so else if opcode = 13 then so
      else if opcode = 14 then rn AND NOT so else NOT so)"

lemma wp_operation [wp_simps]:
  assumes "quiet_user s" "Rn \<le> 15" "Rd \<le> 15"
  shows "opcode \<in> {0, 1, 12, 13, 14, 15} \<Longrightarrow>
     wp (run_operation opcode S Rn Rd so sco) h Q s \<longleftrightarrow>
     Q 0 (alu_state S Rd (arm_alu opcode (usr_reg s Rn) so) sco UNAFFECTED s)"
    "wp (run_operation 2 S Rn Rd so sco) h Q s \<longleftrightarrow>
     Q 0 (alu_state S Rd (usr_reg s Rn - so) (NOT (borrowFrom (usr_reg s Rn) so))
       (overflowFrom (usr_reg s Rn) so (usr_reg s Rn - so) 1) s)"
    "wp (run_operation 3 S Rn Rd so sco) h Q s \<longleftrightarrow>
     Q 0 (alu_state S Rd (so - usr_reg s Rn) (NOT (borrowFrom so (usr_reg s Rn)))
       (overflowFrom so (usr_reg s Rn) (so - usr_reg s Rn) 0) s)"
    "wp (run_operation 4 S Rn Rd so sco) h Q s \<longleftrightarrow>
     Q 0 (alu_state S Rd (usr_reg s Rn + so) (carryFrom (usr_reg s Rn) so)
       (overflowFrom (usr_reg s Rn) so (usr_reg s Rn + so) 1) s)"
  using assms
  by (auto simp: run_operation_def operation_defs arm_alu_def Let_def wp_simps)
lemma ends_write_flags [end_simps]:
  "quiet_user s \<Longrightarrow> ends (write_flags Rd c f) h s e \<longleftrightarrow> 15 < Rd \<and> e = Exit 0"
  by (auto simp: write_flags_def Let_def end_simps wp_simps)
end
