(* ===== verification/Operations.thy ===== *)
theory Operations
  imports Data_Processing
begin

unbundle bit_operations_syntax

text \<open>
  What the sixteen operations of \<open>arm_data_processing.c\<close> do to the registers and the
  flags, on every user-mode state and whatever the trace module is set to.
\<close>

section \<open>Properties of the operations\<close>

lemma runs_operation:
  assumes "user_state s" "user_state s'"
    and "wp (run_operation opcode S Rn Rd so sco) h (\<lambda>w t. w = v \<and> t = quiet s') (quiet s)"
  shows "runs (run_operation opcode S Rn Rd so sco) h s v s'"
  using resp_run_operation assms by (rule runsI)

lemma alu_state_quiet [simp]: "quiet (alu_state S Rd v c f s) = alu_state S Rd v c f (quiet s)"
  by (simp add: alu_state_def Let_def)

text \<open>
  C18: AND, EOR, ORR, BIC, MOV and MVN store the result the instruction set gives in \<open>Rd\<close>;
  with \<open>S\<close> set (and \<open>Rd\<close> not the program counter) \<open>N\<close> and \<open>Z\<close> become those of the result, \<open>C\<close>
  becomes the shifter's carry and \<open>V\<close> stays. Nothing else changes and the call returns 0.
\<close>

theorem logical_operations:
  assumes "user_state s" "Rn \<le> 15" "Rd \<le> 15" "opcode \<in> {0, 1, 12, 13, 14, 15}"
  shows "runs (run_operation opcode S Rn Rd so sco) h s 0
    (alu_state S Rd (arm_alu opcode (usr_reg s Rn) so) sco UNAFFECTED s)"
  using assms by (intro runs_operation) (simp_all add: wp_operation)

theorem logical_operations_witness:
  "runs (run_operation 12 1 1 3 0x30 1) x86_host (sample [0, 0x0F]) 0
     (alu_state 1 3 0x3F 1 UNAFFECTED (sample [0, 0x0F]))"
  using logical_operations [of "sample [0, 0x0F]" 1 3 12 1 "0x30" 1 x86_host]
  by (simp add: usr_reg_def arm_alu_def)

text \<open>
  C27: ADD stores the sum modulo \<open>2\<^sup>3\<^sup>2\<close> in \<open>Rd\<close>. With \<open>S\<close> set it always clears \<open>C\<close>, since the
  carry test compares a 32-bit sum with the largest 32-bit value, and it sets \<open>V\<close> exactly when
  the operands have the same sign and the signed sum did not overflow.
\<close>

theorem add_operation:
  assumes "user_state s" "Rn \<le> 15" "Rd \<le> 15"
  defines "x \<equiv> usr_reg s Rn"
  shows "runs (run_operation 4 S Rn Rd so sco) h s 0
    (alu_state S Rd (x + so) 0
      (of_bool ((sint x < 0) = (sint so < 0) \<and> sint (x + so) = sint x + sint so)) s)"
  using assms by (intro runs_operation) (simp_all add: wp_operation carry_never overflow_add)

theorem add_operation_witness:
  "runs (run_operation 4 1 1 3 7 0) x86_host (sample [0, 5]) 0
     (alu_state 1 3 12 0 1 (sample [0, 5]))"
  using add_operation [of "sample [0, 5]" 1 3 1 7 0 x86_host] by (simp add: usr_reg_def)

text \<open>What the flag arguments of the subtractions are.\<close>

lemma not_borrow: "NOT (borrowFrom a b) = (if uint (a - b) = uint a - uint b then UNAFFECTED else 0xFE)"
  by (simp add: borrow_spec)

lemma overflow_sub_1: "overflowFrom x y (x - y) 1 =
    of_bool ((sint x < 0) = (sint y < 0) \<and> (sint x < 0) = (sint (x - y) < 0))"
  by (auto simp: overflowFrom_def sign_eq_iff sign_bit)

text \<open>
  C28: SUB and RSB store the difference modulo \<open>2\<^sup>3\<^sup>2\<close>. With \<open>S\<close> set, a borrow clears \<open>C\<close> but the
  absence of one leaves \<open>C\<close> as it was: the complement of the byte 0 is the value that means
  unaffected. RSB sets \<open>V\<close> exactly on signed overflow; SUB sets it when both operands and the
  result have the same sign, where no overflow is possible.
\<close>

theorem subtractions:
  assumes "user_state s" "Rn \<le> 15" "Rd \<le> 15"
  defines "x \<equiv> usr_reg s Rn"
  shows "runs (run_operation 2 S Rn Rd so sco) h s 0
      (alu_state S Rd (x - so) (if uint (x - so) = uint x - uint so then UNAFFECTED else 0xFE)
        (of_bool ((sint x < 0) = (sint so < 0) \<and> (sint x < 0) = (sint (x - so) < 0))) s)
    \<and> runs (run_operation 3 S Rn Rd so sco) h s 0
      (alu_state S Rd (so - x) (if uint (so - x) = uint so - uint x then UNAFFECTED else 0xFE)
        (of_bool (sint (so - x) \<noteq> sint so - sint x)) s)"
  using assms
  by (intro conjI runs_operation)
    (simp_all add: wp_operation not_borrow overflow_sub overflow_sub_1)

theorem subtractions_witness:
  "runs (run_operation 2 1 1 3 2 0) x86_host (sample [0, 5]) 0
     (alu_state 1 3 3 UNAFFECTED 1 (sample [0, 5]))"
  using subtractions [of "sample [0, 5]" 1 3 1 2 0 x86_host] by (simp add: usr_reg_def)

text \<open>
  What the operations with carry store. The architecture subtracts 1 less the carry; the
  code subtracts the complement of the \<open>int\<close> 0 or 1 and so adds 1 or 2.
\<close>

definition carry_alu :: "u8 \<Rightarrow> u32 \<Rightarrow> u32 \<Rightarrow> bool \<Rightarrow> u32" where
  "carry_alu opcode x so c = (if opcode = 5 then x + so + (if c then 1 else 0)
     else if opcode = 6 then x - so + (if c then 2 else 1)
     else so - x + (if c then 2 else 1))"

lemma minus_complement: "a - NOT (of_bool b) = a + (if b then 2 else 1)" for a :: u32
  by simp

lemma wp_carry_operations:
  assumes "quiet_user s" "Rn \<le> 15" "Rd \<le> 15"
  defines "x \<equiv> usr_reg s Rn" and "c \<equiv> flag bit_C s"
  defines "y v \<equiv> usr_reg (set_reg (unat Rd) v s) Rn"
  shows "wp (run_operation 5 S Rn Rd so sco) h Q s \<longleftrightarrow> (let v = carry_alu 5 x so c in
      Q 0 (alu_state S Rd v 0 (overflowFrom (y v + so) (of_bool c) v 1) s))"
    "wp (run_operation 6 S Rn Rd so sco) h Q s \<longleftrightarrow> (let v = carry_alu 6 x so c in
      Q 0 (alu_state S Rd v (NOT (borrowFrom (y v) (so + (if c then 2 else 1))))
        (overflowFrom (y v) (so + (if c then 2 else 1)) v 0) s))"
    "wp (run_operation 7 S Rn Rd so sco) h Q s \<longleftrightarrow> (let v = carry_alu 7 x so c in
      Q 0 (alu_state S Rd v (NOT (borrowFrom (so + (if c then 2 else 1)) (y v)))
        (overflowFrom (so + (if c then 2 else 1)) (y v) v 0) s))"
  using assms(1-3) unfolding x_def c_def y_def
  by (simp_all add: run_operation_def operation_defs carry_alu_def Let_def wp_simps
      minus_complement carry_never)

text \<open>
  C29: ADC stores the sum with the carry added. SBC and RSC store the difference with 1 plus the
  carry added, which is 2 more than the instruction set's difference less the borrow, for
  either value of the carry. In each case \<open>N\<close> and \<open>Z\<close> are those of the value stored.
\<close>

theorem carry_operations:
  assumes "user_state s" "Rn \<le> 15" "Rd \<le> 15" "opcode \<in> {5, 6, 7}"
  shows "\<exists>c f. runs (run_operation opcode S Rn Rd so sco) h s 0
    (alu_state S Rd (carry_alu opcode (usr_reg s Rn) so (flag bit_C s)) c f s)"
proof -
  have "\<exists>c f. wp (run_operation opcode S Rn Rd so sco) h (\<lambda>w t. w = 0 \<and>
      t = quiet (alu_state S Rd (carry_alu opcode (usr_reg s Rn) so (flag bit_C s)) c f s)) (quiet s)"
    using assms by (elim insertE emptyE) (simp_all only: wp_carry_operations [of "quiet s"]
      quiet_user_simps Let_def alu_state_quiet quiet_simps flag_upd, blast+)
  then obtain c f where "wp (run_operation opcode S Rn Rd so sco) h (\<lambda>w t. w = 0 \<and>
      t = quiet (alu_state S Rd (carry_alu opcode (usr_reg s Rn) so (flag bit_C s)) c f s)) (quiet s)"
    by blast
  with assms(1) show ?thesis by (intro exI runs_operation) simp_all
qed

theorem carry_operations_witness:
  "\<exists>c f. runs (run_operation 6 1 1 3 2 0) x86_host (sample [0, 5]) 0
     (alu_state 1 3 4 c f (sample [0, 5]))"
  using carry_operations [of "sample [0, 5]" 1 3 6 1 2 0 x86_host]
  by (simp add: usr_reg_def carry_alu_def flag_def cpsr_def nth_append)

text \<open>The value a comparison computes, and the flags \<open>C\<close> and \<open>V\<close> it passes on.\<close>

definition test_result :: "u8 \<Rightarrow> u32 \<Rightarrow> u32 \<Rightarrow> u32" where
  "test_result opcode rn so = (if opcode = 8 then rn AND so else if opcode = 9 then rn XOR so
     else if opcode = 10 then rn - so else rn + so)"

definition test_carry :: "u8 \<Rightarrow> u32 \<Rightarrow> u32 \<Rightarrow> u8 \<Rightarrow> bool option" where
  "test_carry opcode rn so sco = (if opcode \<in> {8, 9} then as_flag sco
     else if opcode = 10 \<and> uint (rn - so) = uint rn - uint so then None else Some False)"

definition test_overflow :: "u8 \<Rightarrow> u32 \<Rightarrow> u32 \<Rightarrow> bool option" where
  "test_overflow opcode rn so = (if opcode \<in> {8, 9} then None
     else if opcode = 10 then Some (sint (rn - so) \<noteq> sint rn - sint so)
     else Some ((sint rn < 0) = (sint so < 0) \<and> sint (rn + so) = sint rn + sint so))"

lemma as_flag_values [simp]: "as_flag 0xFF = None" "as_flag 0xFE = Some False" "as_flag 0 = Some False"
  "as_flag (of_bool b) = Some b"
  by (simp_all add: as_flag_def)

text \<open>
  C30: TST, TEQ, CMP and CMN pass the value they computed where a register number is expected. When
  its low byte exceeds 15 the whole simulator exits with status 0.
\<close>

theorem comparison_exits:
  assumes "user_state s" "Rn \<le> 15" "opcode \<in> {8, 9, 10, 11}"
    and "15 < unat (test_result opcode (usr_reg s Rn) so) mod 256"
  shows "run_operation opcode S Rn Rd so sco h s = Exit 0"
proof -
  have "15 < (ucast (test_result opcode (usr_reg s Rn) so) :: u8)"
    using assms(4) by (simp add: word_less_nat_alt unsigned_ucast_eq take_bit_eq_mod)
  with assms(1-3) have *: "ends (run_operation opcode S Rn Rd so sco) h (quiet s) (Exit 0)"
    by (elim insertE emptyE)
      (simp_all add: run_operation_def operation_defs Let_def test_result_def end_simps wp_simps)
  show ?thesis
    using ends_quiet [OF resp_run_operation assms(1) *] by (simp add: ends_simps)
qed

theorem comparison_exits_witness:
  "run_operation 10 1 1 0 2 0 x86_host (sample [0, 20]) = Exit 0"
  using comparison_exits [of "sample [0, 20]" 1 10 2 1 0 0 x86_host]
  by (simp add: usr_reg_def test_result_def)

text \<open>
  When the low byte of the value is 15 or less, a comparison sets \<open>N\<close> and \<open>Z\<close> from the register
  with that number: equal operands of CMP set \<open>Z\<close> only if \<open>R0\<close> is zero. CMP passes the
  right overflow on.
\<close>

theorem comparison_flags:
  fixes so :: u32
  assumes "user_state s" "Rn \<le> 15" "opcode \<in> {8, 9, 10, 11}"
  defines "r \<equiv> ucast (test_result opcode (usr_reg s Rn) so) :: u8"
  assumes "r \<le> 15"
  shows "runs (run_operation opcode S Rn Rd so sco) h s 0
    (set_reg 16 (put_flags (usr_reg s r) (test_carry opcode (usr_reg s Rn) so sco)
      (test_overflow opcode (usr_reg s Rn) so) (cpsr s)) s)"
  using assms by (intro runs_operation; elim insertE emptyE)
    (simp_all add: run_operation_def operation_defs Let_def wp_simps test_result_def
      test_carry_def test_overflow_def not_borrow overflow_sub overflow_add carry_never)

theorem comparison_flags_witness:
  "runs (run_operation 10 1 1 0 7 0) x86_host (sample [1, 7]) 0
     (set_reg 16 (put_flags 1 None (Some False) 0) (sample [1, 7]))"
  using comparison_flags [where s = "sample [1, 7]" and Rn = 1 and opcode = 10 and so = 7
      and S = 1 and Rd = 0 and h = x86_host and sco = 0]
  by (simp add: usr_reg_def test_result_def test_carry_def test_overflow_def cpsr_def nth_append)

end
