(* ===== verification/Load_Store.thy ===== *)
theory Load_Store
  imports Data_Processing
begin

unbundle bit_operations_syntax

text \<open>
  \<open>arm_load_store.c\<close>: single, multiple and miscellaneous loads and stores. Local
  variables that a path may leave unassigned are options; the base register \<open>rn\<close> is a
  local variable of each function, and no path writes it back.
\<close>

section \<open>Single loads and stores\<close>

text \<open>
  The three addressing modes selected by \<open>P\<close> and \<open>W\<close>: offset, pre-indexed, post-indexed.
  The source writes them out for an immediate, a register and a scaled register offset. The
  result is \<open>address\<close> and the new value of the local variable \<open>rn\<close>.
\<close>

definition offset_address :: "u32 \<Rightarrow> u8 \<Rightarrow> u32 \<Rightarrow> u32 \<Rightarrow> ('z, u32 option \<times> u32) arm" where
  "offset_address ins cond rn offset =
     (let W = get_bit ins 21; U = get_bit ins 23; P = get_bit ins 24 in
      if P = 1 \<and> W = 0 then
        ret (Some (if U = 1 then rn + offset else rn - offset), rn)
      else if P = 1 \<and> W = 1 then
        (let address = (if U = 1 then rn + offset else rn - offset) in
         mbind (condition_holds cond) (\<lambda>c. ret (Some address, if c then address else rn)))
      else if P = 0 \<and> W = 0 then
        (let address = rn in
         mbind (condition_holds cond) (\<lambda>c.
         ret (Some address, if c then (if U = 1 then rn + offset else rn - offset) else rn)))
      else ret (None, rn))"

text \<open>
  The switch over the shift of a scaled register offset, three times the same in the
  source. Its value is used in every case, so the \<open>default\<close> reads an unassigned \<open>index\<close>.
\<close>

definition scaled_index :: "u32 \<Rightarrow> u32 \<Rightarrow> u8 \<Rightarrow> ('z, u32) arm" where
  "scaled_index rm shift_imm shift =
     (if shift = LSL then c_shl rm (uint shift_imm)
      else if shift = LSR then
        (if shift_imm = 0 then ret 0 else c_shr rm (uint shift_imm))
      else if shift = ASR then
        (if shift_imm = 0 then ret (if get_bit rm 31 = 1 then 0xFFFFFFFF else 0)
         else asr rm (ucast shift_imm))
      else if shift = ROR then
        (if shift_imm = 0 then
           mbind arm_read_cpsr (\<lambda>c. ret (push_bit 31 (get_bit c bit_C) OR drop_bit 1 rm))
         else ror rm (ucast shift_imm))
      else undefined_as Uninitialised)"

definition scaled_address :: "u32 \<Rightarrow> u8 \<Rightarrow> u32 \<Rightarrow> u32 \<Rightarrow> ('z, u32 option \<times> u32) arm" where
  "scaled_address ins cond rn rm =
     (let shift_imm = get_bits ins 11 7; shift = ucast (get_bits ins 6 5) in
      if get_bit ins 24 = 0 \<and> get_bit ins 21 = 1 then ret (None, rn)
      else mbind (scaled_index rm shift_imm shift) (\<lambda>index. offset_address ins cond rn index))"

definition access_address :: "u32 \<Rightarrow> u8 \<Rightarrow> u32 \<Rightarrow> ('z, u32 option \<times> u32) arm" where
  "access_address ins cond rn =
     (if get_bits ins 27 25 = 2 then offset_address ins cond rn (get_bits ins 11 0)
      else if get_bits ins 27 25 = 3 \<and> get_bits ins 11 4 = 0 then
        mbind (arm_read_register (ucast (get_bits ins 3 0))) (\<lambda>rm.
        offset_address ins cond rn rm)
      else if get_bits ins 27 25 = 3 \<and> get_bit ins 4 = 0 then
        mbind (arm_read_register (ucast (get_bits ins 3 0))) (\<lambda>rm.
        scaled_address ins cond rn rm)
      else ret (None, rn))"

definition access_memory :: "u32 \<Rightarrow> u8 \<Rightarrow> u32 option \<Rightarrow> ('z, unit) arm" where
  "access_memory ins rd address =
     (let L = get_bit ins 20; B = get_bit ins 22 in
      if L = 1 then
        (if B = 1 then
           mbind (read_local address) (\<lambda>a.
           mbind (arm_read_byte a None) (\<lambda>(_, byte).
           arm_write_register rd (ucast byte)))
         else
           mbind (read_local address) (\<lambda>a.
           mbind (arm_read_word a None) (\<lambda>(_, word).
           arm_write_register rd word)))
      else
        (if B = 1 then
           mbind (arm_read_register rd) (\<lambda>v.
           let byte = ucast v in
           mbind (read_local address) (\<lambda>a.
           mbind (arm_write_byte a byte) (\<lambda>_. ret ())))
         else
           mbind (arm_read_register rd) (\<lambda>word.
           mbind (read_local address) (\<lambda>a.
           mbind (arm_write_word a word) (\<lambda>_. ret ())))))"

definition arm_load_store :: "u32 \<Rightarrow> ('z, int) arm" where
  "arm_load_store ins =
     (let cond = ucast (get_bits ins 31 28); rd = ucast (get_bits ins 15 12) in
      mbind (arm_read_register (ucast (get_bits ins 19 16))) (\<lambda>rn.
      mbind (access_address ins cond rn) (\<lambda>(address, rn).
      mseq (access_memory ins rd address) (ret 0))))"

section \<open>Multiple loads and stores\<close>

function number_set_bits_loop :: "u16 \<Rightarrow> u8 \<Rightarrow> u8" where
  "number_set_bits_loop n c =
     (if n \<noteq> 0 then number_set_bits_loop (drop_bit 1 n) (c + ucast (n mod 2)) else c)"
  by pat_completeness auto

termination
proof (relation "measure (\<lambda>(n, c). unat n)")
  fix n :: u16 and c :: u8 assume "n \<noteq> 0"
  then have "unat n div 2 < unat n" by (simp add: unat_gt_0)
  then show "((drop_bit 1 n, c + ucast (n mod 2)), (n, c)) \<in> measure (\<lambda>(n, c). unat n)"
    by (simp add: unat_div drop_bit_Suc)
qed simp

declare number_set_bits_loop.simps [simp del]

definition number_set_bits_in :: "u16 \<Rightarrow> u8" where
  "number_set_bits_in n = number_set_bits_loop n 0"

text \<open>The start address, the end address and the new value of the local \<open>rn\<close>.\<close>

definition multiple_addresses :: "u32 \<Rightarrow> u8 \<Rightarrow> u32 \<Rightarrow> ('z, u32 \<times> u32 \<times> u32) arm" where
  "multiple_addresses ins cond rn =
     (let register_list = ucast (get_bits ins 15 0);
          W = get_bit ins 21; U = get_bit ins 23; P = get_bit ins 24;
          size = ucast (number_set_bits_in register_list) * 4 :: u32 in
      if P = 0 \<and> U = 1 then
        mbind (condition_holds cond) (\<lambda>c.
        ret (rn, rn + size - 4, if c \<and> W = 1 then rn + size else rn))
      else if P = 1 \<and> U = 1 then
        mbind (condition_holds cond) (\<lambda>c.
        ret (rn + 4, rn + size, if c \<and> W = 1 then rn + size else rn))
      else if P = 0 \<and> U = 0 then
        mbind (condition_holds cond) (\<lambda>c.
        ret (rn - size + 4, rn, if c \<and> W = 1 then rn - size else rn))
      else if P = 1 \<and> U = 0 then
        mbind (condition_holds cond) (\<lambda>c.
        ret (rn - size, rn - 4, if c \<and> W = 1 then rn - size else rn))
      else undefined_as Uninitialised)"

text \<open>The loops over the register list; they return the address (and \<open>value\<close>) they leave.\<close>

fun load_registers ::
  "u16 \<Rightarrow> nat list \<Rightarrow> u32 \<Rightarrow> u32 option \<Rightarrow> ('z, u32 \<times> u32 option) arm" where
  "load_registers register_list [] address value = ret (address, value)"
| "load_registers register_list (i # is) address value =
     (if get_bit (ucast register_list) i = 1 then
        mbind (arm_read_word address value) (\<lambda>(_, value).
        mseq (arm_write_register (of_nat i) value)
        (load_registers register_list is (address + 4) (Some value)))
      else load_registers register_list is address value)"

fun store_registers :: "u16 \<Rightarrow> nat list \<Rightarrow> u32 \<Rightarrow> ('z, u32) arm" where
  "store_registers register_list [] address = ret address"
| "store_registers register_list (i # is) address =
     (if get_bit (ucast register_list) i = 1 then
        mbind (arm_read_register (of_nat i)) (\<lambda>v.
        mbind (arm_write_word address v) (\<lambda>_.
        store_registers register_list is (address + 4)))
      else store_registers register_list is address)"

definition arm_load_store_multiple :: "u32 \<Rightarrow> ('z, int) arm" where
  "arm_load_store_multiple ins =
     (let cond = ucast (get_bits ins 31 28); register_list = ucast (get_bits ins 15 0);
          L = get_bit ins 20 in
      mbind (arm_read_register (ucast (get_bits ins 19 16))) (\<lambda>rn.
      mbind (multiple_addresses ins cond rn) (\<lambda>(start_address, end_address, rn).
      if L \<noteq> 0 then
        mbind (condition_holds cond) (\<lambda>ok.
        mseq (mwhen ok
          (mbind (load_registers register_list [0..<15] start_address None) (\<lambda>(address, value).
           mbind (if get_bit (ucast register_list) 15 = 1 then
                    mbind (arm_read_word address value) (\<lambda>(code, value).
                    let value = word_of_int code in
                    mseq (arm_write_register 15 (value AND 0xFFFFFFFE)) (ret (address + 4)))
                  else ret address) (\<lambda>address.
           c_assert (end_address = address - 4)))))
        (ret 0))
      else
        mbind (condition_holds cond) (\<lambda>ok.
        mseq (mwhen ok
          (mbind (store_registers register_list [0..<16] start_address) (\<lambda>address.
           c_assert (end_address = address - 4))))
        (ret 0)))))"

section \<open>Miscellaneous loads and stores\<close>

text \<open>
  The address of a halfword or signed access; the register offset is read from the register
  numbered by the value of the base register. The indexed modes test the condition to update
  the local \<open>rn\<close>, which is not read again. \<open>arm_decode\<close> does not call this function.
\<close>

definition misc_address :: "u32 \<Rightarrow> u8 \<Rightarrow> u32 \<Rightarrow> u32 \<Rightarrow> ('z, u32 option) arm" where
  "misc_address ins cond rn rm =
     (let U = get_bit ins 23; immedH = get_bits ins 11 8; immedL = get_bits ins 3 0;
          offset_8 = push_bit 4 immedH OR immedL;
          bits74 = (get_bit ins 7 = 1 \<and> get_bit ins 4 = 1) in
      if get_bits ins 27 24 = 1 \<and> get_bits ins 22 21 = 2 \<and> bits74 then
        ret (Some (if U = 1 then rn + offset_8 else rn - offset_8))
      else if get_bits ins 27 24 = 1 \<and> get_bits ins 22 21 = 0 \<and> bits74 then
        ret (Some (if U = 1 then rn + rm else rn - rm))
      else if get_bits ins 27 24 = 1 \<and> get_bits ins 22 21 = 3 \<and> bits74 then
        mseq (condition_holds cond) (ret (Some (if U = 1 then rn + offset_8 else rn - offset_8)))
      else if get_bits ins 27 24 = 1 \<and> get_bits ins 22 21 = 1 \<and> bits74 then
        mseq (condition_holds cond) (ret (Some (if U = 1 then rn + rm else rn - rm)))
      else if get_bits ins 27 24 = 0 \<and> get_bits ins 22 21 = 2 \<and> bits74 then
        mseq (condition_holds cond) (ret (Some rn))
      else if get_bits ins 27 24 = 0 \<and> get_bits ins 22 21 = 2 \<and> bits74 then
        mseq (condition_holds cond) (ret (Some rn))
      else ret None)"

text \<open>
  \<open>CP15_reg1_Ubit\<close> is the constant 1, so the branches for 0 are unreachable. A byte that
  is not sign-extended leaves \<open>extended_data\<close> unassigned.
\<close>

definition misc_load :: "u32 \<Rightarrow> u8 \<Rightarrow> u8 \<Rightarrow> u32 option \<Rightarrow> ('z, unit) arm" where
  "misc_load ins cond rd address =
     (let B = get_bit ins 22; H = get_bit ins 5; S = get_bit ins 6 in
      if H = 1 then
        mbind (condition_holds cond) (\<lambda>c. mwhen c
          (mbind (read_local address) (\<lambda>a.
           mbind (arm_read_half a None) (\<lambda>(_, data_half).
           let extended_data = (if S \<noteq> 0 \<and> get_bit (ucast data_half) 15 \<noteq> 0
                 then push_bit 16 (NOT 0) OR ucast data_half else ucast data_half) in
           arm_write_register rd extended_data))))
      else if B = 1 then
        mbind (condition_holds cond) (\<lambda>c. mwhen c
          (mbind (read_local address) (\<lambda>a.
           mbind (arm_read_byte a None) (\<lambda>(_, data_byte).
           let extended_data = (if S \<noteq> 0 \<and> get_bit (ucast data_byte) 7 \<noteq> 0
                 then Some (push_bit 8 (NOT 0) OR ucast data_byte) else None) in
           mbind (read_local extended_data) (arm_write_register rd)))))
      else ret ())"

definition misc_store :: "u32 \<Rightarrow> u8 \<Rightarrow> u8 \<Rightarrow> u32 option \<Rightarrow> ('z, unit) arm" where
  "misc_store ins cond rd address =
     (let H = get_bit ins 5 in
      if H = 1 then
        mbind (condition_holds cond) (\<lambda>c. mwhen c
          (mbind (read_local address) (\<lambda>a.
           mbind (arm_read_register rd) (\<lambda>v.
           mbind (arm_write_half a (ucast (get_bits v 15 0))) (\<lambda>_. ret ())))))
      else ret ())"

definition arm_load_store_miscellaneous :: "u32 \<Rightarrow> ('z, int) arm" where
  "arm_load_store_miscellaneous ins =
     (let cond = ucast (get_bits ins 31 28); rd = ucast (get_bits ins 15 12) in
      mbind (arm_read_register (ucast (get_bits ins 3 0))) (\<lambda>rn.
      mbind (arm_read_register (ucast rn)) (\<lambda>rm.
      mbind (misc_address ins cond rn rm) (\<lambda>address.
      mseq (if get_bit ins 20 = 1 then misc_load ins cond rd address
            else misc_store ins cond rd address)
      (ret 0)))))"

definition arm_coprocessor_load_store :: "u32 \<Rightarrow> ('z, int) arm" where
  "arm_coprocessor_load_store ins = ret 2"

section \<open>Invariant and independence of tracing\<close>

lemmas load_store_defs = arm_load_store_def access_memory_def access_address_def
  scaled_address_def scaled_index_def offset_address_def

lemmas multiple_defs = arm_load_store_multiple_def multiple_addresses_def

lemmas misc_defs = arm_load_store_miscellaneous_def misc_address_def misc_load_def misc_store_def

context machine_invariant
begin

lemma pres_load_registers [pres]: "preserves I (load_registers l is a v)"
  by (induction l "is" a v rule: load_registers.induct) (auto intro!: pres)

end

context machine_invariant
begin

lemma pres_store_registers [pres]: "preserves I (store_registers l is a)"
  by (induction l "is" a rule: store_registers.induct) (auto intro!: pres)

end

lemma resp_load_registers [resp]: "respecting same_core (load_registers l is a v)"
  by (induction l "is" a v rule: load_registers.induct) (auto intro!: resp)

lemma resp_store_registers [resp]: "respecting same_core (store_registers l is a)"
  by (induction l "is" a rule: store_registers.induct) (auto intro!: resp)

context machine_invariant
begin

lemma pres_load_store [pres]:
  "preserves I (arm_load_store ins)"
  "preserves I (arm_load_store_multiple ins)"
  "preserves I (arm_load_store_miscellaneous ins)"
  unfolding load_store_defs multiple_defs misc_defs Let_def by (intro pres)+

end

lemma resp_load_store [resp]:
  "respecting same_core (arm_load_store ins)"
  "respecting same_core (arm_load_store_multiple ins)"
  "respecting same_core (arm_load_store_miscellaneous ins)"
  unfolding load_store_defs multiple_defs misc_defs Let_def by (intro resp)+

end
