(* ===== verification/Barrel_Shifter.thy ===== *)
theory Barrel_Shifter
  imports Data_Processing
begin

unbundle bit_operations_syntax

text \<open>
  The second operand of a data-processing instruction: what \<open>write_shift_operand_sco\<close>
  computes for each of its encodings, compared with the barrel shifter of the architecture.
\<close>

section \<open>The shifter of the architecture\<close>

text \<open>
  The operand and the carry out for a shift of \<open>rm\<close> by an immediate amount \<open>k\<close> (0 encodes
  a shift by 32 or, for \<open>ROR\<close>, a rotation through the carry \<open>c\<close>), and for a shift by the
  low byte \<open>k\<close> of a register.
\<close>

fun arm_shift :: "u8 \<Rightarrow> nat \<Rightarrow> u32 \<Rightarrow> bool \<Rightarrow> u32 \<times> bool" where
  "arm_shift code k rm c =
     (if code = LSL then (push_bit k rm, if k = 0 then c else bit rm (32 - k))
      else if code = LSR then
        (if k = 0 then (0, bit rm 31) else (drop_bit k rm, bit rm (k - 1)))
      else if code = ASR then
        (if k = 0 then (if bit rm 31 then 0xFFFFFFFF else 0, bit rm 31)
         else (signed_drop_bit k rm, bit rm (k - 1)))
      else
        (if k = 0 then (push_bit 31 (of_bool c) OR drop_bit 1 rm, bit rm 0)
         else (word_rotr k rm, bit rm (k - 1))))"

declare arm_shift.simps [simp del]

fun arm_shift_register :: "u8 \<Rightarrow> nat \<Rightarrow> u32 \<Rightarrow> bool \<Rightarrow> u32 \<times> bool" where
  "arm_shift_register code k rm c =
     (if k = 0 then (rm, c)
      else if code = ROR then
        (if k mod 32 = 0 then (rm, bit rm 31) else arm_shift ROR (k mod 32) rm c)
      else if k < 32 then arm_shift code k rm c
      else if code = LSL then (0, k = 32 \<and> bit rm 0)
      else if code = LSR then (0, k = 32 \<and> bit rm 31)
      else (if bit rm 31 then 0xFFFFFFFF else 0, bit rm 31))"

declare arm_shift_register.simps [simp del]

text \<open>
  The amount the shift is really made by: the number of the shift (1, 2 or 3) takes the place of the amount \<open>k\<close>,
  except for LSL, for the amount 0, and, in a shift by a register, for LSR and ASR by 32 or more.
\<close>

definition shifted_by :: "u8 \<Rightarrow> nat \<Rightarrow> nat" where
  "shifted_by code k = (if code = LSL \<or> k = 0 then k else unat code)"

definition register_shifted_by :: "u8 \<Rightarrow> nat \<Rightarrow> nat" where
  "register_shifted_by code k =
     (if code = LSL \<or> k = 0 \<or> (code \<noteq> ROR \<and> 32 \<le> k) then k else unat code)"

lemma unat_field:
  "h - l < 8 \<Longrightarrow> unat (ucast (get_bits x h l) :: u8) = unat (get_bits x h l)"
  using get_bits_less [of h l x] power_increasing [of "h - l + 1" 8 "2 :: nat"]
  by (simp add: unsigned_ucast_eq take_bit_nat_eq_self)

lemma field_less: "h - l < 8 \<Longrightarrow> unat (ucast (get_bits x h l) :: u8) < 2 ^ (h - l + 1)"
  using get_bits_less [of h l x] by (simp add: unat_field)

lemma wp_get_bit_at [wp_simps]:
  "0 \<le> i \<Longrightarrow> i < 32 \<Longrightarrow> wp (get_bit_at x i) h Q s \<longleftrightarrow> Q (of_bool (bit x (nat i))) s"
  by (simp add: get_bit_at_def wp_simps and_one_eq bit_iff_odd_drop_bit mod2_eq_if)

lemma u8_code: "unat code < 4 \<Longrightarrow> code = 0 \<or> code = 1 \<or> code = 2 \<or> code = 3" for code :: u8
proof -
  assume "unat code < 4"
  then have "unat code = 0 \<or> unat code = 1 \<or> unat code = 2 \<or> unat code = 3" by auto
  then show ?thesis by (auto simp: word_unat_eq_iff)
qed

lemma wp_shift_operation:
  assumes "code \<le> 3" "0 < unat k" "unat k < 32"
  shows "wp (shift_operation x code k) h Q s \<longleftrightarrow>
     Q (fst (arm_shift code (shifted_by code (unat k)) x c)) s"
proof -
  have "unat code < 4" using assms(1) by (simp add: word_le_nat_alt)
  from u8_code [OF this] assms(2,3) show ?thesis
    by (elim disjE; simp add: shift_operation_def arm_shift.simps shifted_by_def lsl_in_range
      lsr_in_range asr_in_range ror_in_range wp_ret)
qed

lemma wp_carry_bit:
  fixes k :: u8
  assumes "0 < unat k" "unat k < 32"
  shows "wp (get_bit_at x (uint k - 1)) h Q s \<longleftrightarrow> Q (of_bool (bit x (unat k - 1))) s"
    "wp (get_bit_at x (32 - uint k)) h Q s \<longleftrightarrow> Q (of_bool (bit x (32 - unat k))) s"
proof -
  have u: "uint k = int (unat k)" by simp
  have n: "nat (uint k - 1) = unat k - 1" "nat (32 - uint k) = 32 - unat k"
    and r: "0 \<le> uint k - 1" "uint k - 1 < 32" "0 \<le> 32 - uint k" "32 - uint k < 32"
    unfolding u using assms by linarith+
  show "wp (get_bit_at x (uint k - 1)) h Q s \<longleftrightarrow> Q (of_bool (bit x (unat k - 1))) s"
    "wp (get_bit_at x (32 - uint k)) h Q s \<longleftrightarrow> Q (of_bool (bit x (32 - unat k))) s"
    by (simp_all only: wp_get_bit_at r n)
qed

lemma ucast_of_bool [simp]: "ucast (of_bool b :: u32) = (of_bool b :: u8)"
  by (cases b) simp_all

lemma wp_shift_by_immediate:
  assumes q: "quiet_user s" and code: "code \<le> 3" and k: "unat k < 32"
  shows "wp (shift_by_immediate x k code out) h Q s \<longleftrightarrow>
     Q (fst (arm_shift code (shifted_by code (unat k)) x (flag bit_C s)),
        of_bool (snd (arm_shift code (unat k) x (flag bit_C s)))) s"
proof -
  have "unat code < 4" using code by (simp add: word_le_nat_alt)
  note codes = u8_code [OF this]
  show ?thesis
  proof (cases "k = 0")
    case True
    from codes q True show ?thesis
      by (elim disjE) (simp_all add: shift_by_immediate_def wp_simps arm_shift.simps shifted_by_def
        get_bit_of_bool lsl_def lsr_def)
  next
    case False
    then have "0 < unat k" by (simp add: unat_gt_0)
    note k' = wp_shift_operation [OF _ this k, where c = "flag bit_C s"] wp_carry_bit [OF this k]
    from codes q False \<open>0 < unat k\<close> show ?thesis
      by (elim disjE) (simp_all add: shift_by_immediate_def wp_bind wp_get_flag wp_ret k' arm_shift.simps
        lsl_def lsr_def)
  qed
qed

lemma low_byte: "unat (ucast (get_bits x 7 0) :: u8) = unat x mod 256"
  "get_bits x 7 0 = 0 \<longleftrightarrow> (ucast (get_bits x 7 0) :: u8) = 0"
  "unat (ucast (get_bits x 4 0) :: u8) = unat (ucast (get_bits x 7 0) :: u8) mod 32"
proof -
  show a: "unat (ucast (get_bits x 7 0) :: u8) = unat x mod 256"
    by (simp add: unat_field unat_get_bits)
  show "get_bits x 7 0 = 0 \<longleftrightarrow> (ucast (get_bits x 7 0) :: u8) = 0"
    using unat_field [of 7 0 x] by (simp add: word_unat_eq_iff)
  show "unat (ucast (get_bits x 4 0) :: u8) = unat (ucast (get_bits x 7 0) :: u8) mod 32"
    unfolding a by (simp add: unat_field unat_get_bits mod_mod_cancel)
qed

lemma u8_cases_32: "k < 32 \<longleftrightarrow> unat k < 32" "k = 32 \<longleftrightarrow> unat k = 32" "k = 0 \<longleftrightarrow> unat k = 0" for k :: u8
  by (auto simp: word_less_nat_alt word_unat_eq_iff)

lemma wp_shift_by_register:
  assumes q: "quiet_user s" and code: "code \<le> 3" and Rs: "Rs \<le> 15" and b: "\<not> bit ins 7"
    and k: "k = unat (usr_reg s Rs) mod 256" and d: "code = ROR \<longrightarrow> k = 0 \<or> k mod 32 \<noteq> 0"
  shows "wp (shift_by_register ins x Rs code out) h Q s \<longleftrightarrow>
     Q (fst (arm_shift_register code (register_shifted_by code k) x (flag bit_C s)),
        of_bool (snd (arm_shift_register code k x (flag bit_C s)))) s"
proof -
  have "unat code < 4" using code by (simp add: word_le_nat_alt)
  note codes = u8_code [OF this]
  define n :: u8 where "n = ucast (get_bits (usr_reg s Rs) 7 0)"
  have n: "unat n = k" "get_bits (usr_reg s Rs) 7 0 = 0 \<longleftrightarrow> n = 0"
    "unat (ucast (get_bits (usr_reg s Rs) 4 0) :: u8) = k mod 32"
    using low_byte [of "usr_reg s Rs"] by (simp_all add: n_def k)
  note defs = shift_by_register_def wp_bind wp_get_flag wp_arm_registers wp_ret Let_def
    n_def [symmetric] n register_shifted_by_def arm_shift_register.simps
  show ?thesis
  proof (cases "n = 0")
    case True
    with n have k: "k = 0" by simp
    with n have "get_bits (usr_reg s Rs) 4 0 = 0"
      using unat_field [of 4 0 "usr_reg s Rs"] by (simp add: word_unat_eq_iff)
    with codes k q Rs b True show ?thesis by (elim disjE) (simp_all add: defs)
  next
    case False
    with n(1) have k0: "0 < k" using u8_cases_32(3) [of n] by simp
    show ?thesis
    proof (cases "code = 3")
      case True
      let ?m = "ucast (get_bits (usr_reg s Rs) 4 0) :: u8"
      have m: "0 < unat ?m" "unat ?m < 32" using d k0 True by (auto simp: n)
      note ks = wp_shift_operation [OF _ m, where c = "flag bit_C s"] wp_carry_bit [OF m]
      show ?thesis using True q Rs b False k0 d by (simp add: defs ks shifted_by_def arm_shift.simps)
    next
      case c: False
      with codes have codes: "code = 0 \<or> code = 1 \<or> code = 2" by blast
      show ?thesis
      proof (cases "k < 32")
        case True
        with k0 n have m: "0 < unat n" "unat n < 32" by simp_all
        note ks = wp_shift_operation [OF _ m, where c = "flag bit_C s"] wp_carry_bit [OF m]
        from codes q Rs b False True k0 show ?thesis
          by (elim disjE) (simp_all add: defs ks u8_cases_32(1) shifted_by_def arm_shift.simps)
      next
        case ge: False
        from codes q Rs b False ge k0 show ?thesis
          by (elim disjE) (simp_all add: defs u8_cases_32(1,2) [of n] get_bit_of_bool shifted_by_def)
      qed
    qed
  qed
qed

lemma wp_shifter_immediate:
  assumes q: "quiet_user s" and "\<not> bit ins 25" "\<not> bit ins 4"
  defines "rm \<equiv> usr_reg s (ucast (get_bits ins 3 0))"
    and "code \<equiv> ucast (get_bits ins 6 5)" and "k \<equiv> unat (get_bits ins 11 7)"
  shows "wp (write_shift_operand_sco ins out) h Q s \<longleftrightarrow>
     Q (fst (arm_shift code (shifted_by code k) rm (flag bit_C s)),
        of_bool (snd (arm_shift code k rm (flag bit_C s)))) s"
proof -
  have f: "(ucast (get_bits ins 3 0) :: u8) \<le> 15" "(ucast (get_bits ins 6 5) :: u8) \<le> 3"
    "unat (ucast (get_bits ins 11 7) :: u8) < 32"
    using field_less [of 3 0 ins] field_less [of 6 5 ins] field_less [of 11 7 ins]
    by (simp_all add: word_le_nat_alt)
  show ?thesis
    using assms(1-3) f unfolding rm_def code_def k_def
    by (simp add: write_shift_operand_sco_def Let_def wp_bind wp_arm_registers wp_get_flag wp_ret
        wp_shift_by_immediate [OF q f(2,3)] unat_field split: if_splits)
qed

lemma wp_shifter_register:
  assumes q: "quiet_user s" and "\<not> bit ins 25" "bit ins 4" and b: "\<not> bit ins 7"
  defines "rm \<equiv> usr_reg s (ucast (get_bits ins 3 0))"
    and "code \<equiv> ucast (get_bits ins 6 5)"
    and "k \<equiv> unat (usr_reg s (ucast (get_bits ins 11 8))) mod 256"
  assumes d: "code = ROR \<longrightarrow> k = 0 \<or> k mod 32 \<noteq> 0"
  shows "wp (write_shift_operand_sco ins out) h Q s \<longleftrightarrow>
     Q (fst (arm_shift_register code (register_shifted_by code k) rm (flag bit_C s)),
        of_bool (snd (arm_shift_register code k rm (flag bit_C s)))) s"
proof -
  have f: "(ucast (get_bits ins 3 0) :: u8) \<le> 15" "(ucast (get_bits ins 6 5) :: u8) \<le> 3"
    "(ucast (get_bits ins 11 8) :: u8) \<le> 15"
    using field_less [of 3 0 ins] field_less [of 6 5 ins] field_less [of 11 8 ins]
    by (simp_all add: word_le_nat_alt)
  show ?thesis
    using assms(1-3) f unfolding rm_def code_def k_def
    by (simp add: write_shift_operand_sco_def Let_def wp_bind wp_arm_registers wp_get_flag wp_ret
        wp_shift_by_register [OF q f(2,3) b refl d [unfolded code_def k_def]] split: if_splits)
qed

lemma wp_rotated_immediate:
  assumes q: "quiet_user s" and "bit ins 25"
  defines "n \<equiv> 2 * unat (get_bits ins 11 8)" and "imm \<equiv> get_bits ins 7 0"
  shows "0 < n \<Longrightarrow> wp (write_shift_operand_sco ins out) h Q s \<longleftrightarrow>
     Q (word_rotr n imm, of_bool (bit (word_rotr n imm) 31)) s"
    "n = 0 \<Longrightarrow> wp (write_shift_operand_sco ins out) h Q s \<longleftrightarrow>
     (\<exists>y. shl_past h imm 32 = Some y \<and> Q (imm OR y, of_bool (flag bit_C s)) s)"
    "n = 0 \<Longrightarrow> ends (write_shift_operand_sco ins out) h s e \<longleftrightarrow>
     shl_past h imm 32 = None \<and> e = Undefined Shift_range"
proof -
  let ?r = "ucast (get_bits ins 11 8) :: u8"
  have r: "unat ?r < 16" "unat ?r = unat (get_bits ins 11 8)"
    using field_less [of 11 8 ins] by (simp_all add: unat_field)
  then have n: "unat (2 * ?r) = n" "n < 32" "?r = 0 \<longleftrightarrow> n = 0"
    by (auto simp: n_def unat_word_ariths u8_cases_32(3))
  have imm: "ucast (ucast (get_bits ins 7 0) :: u8) = imm"
    by (rule bit_word_eqI) (auto simp: imm_def bit_get_bits bit_simps)
  note defs = write_shift_operand_sco_def Let_def wp_bind wp_get_flag wp_ret imm
    assms(1,2) get_bit_of_bool
  show "0 < n \<Longrightarrow> wp (write_shift_operand_sco ins out) h Q s \<longleftrightarrow>
     Q (word_rotr n imm, of_bool (bit (word_rotr n imm) 31)) s"
    using n by (simp add: defs ror_in_range)
  show "n = 0 \<Longrightarrow> wp (write_shift_operand_sco ins out) h Q s \<longleftrightarrow>
     (\<exists>y. shl_past h imm 32 = Some y \<and> Q (imm OR y, of_bool (flag bit_C s)) s)"
    using n by (simp add: defs ror_def wp_c_shl)
  show "n = 0 \<Longrightarrow> ends (write_shift_operand_sco ins out) h s e \<longleftrightarrow>
     shl_past h imm 32 = None \<and> e = Undefined Shift_range"
    using n by (auto simp: defs ror_def wp_c_shl end_simps get_flag_C_def)
qed

lemma runs_shifter:
  assumes "user_state s" "wp (write_shift_operand_sco ins out) h (\<lambda>w t. w = v \<and> t = quiet s) (quiet s)"
  shows "runs (write_shift_operand_sco ins out) h s v s"
  using resp_shifter(3) assms(1,1,2) by (rule runsI)

text \<open>
  C31: For a shift by an immediate amount the carry out is the one of the architecture, including
  the special meanings of the amount 0 (LSR and ASR by 32, rotation through the carry). The
  operand is too for LSL and for the amount 0; for LSR, ASR and ROR by a nonzero amount the
  register is shifted by the number of the shift (1, 2 or 3) instead.
\<close>

theorem barrel_shifter_immediate:
  assumes "user_state s" "\<not> bit ins 25" "\<not> bit ins 4"
  defines "rm \<equiv> usr_reg s (ucast (get_bits ins 3 0))"
    and "code \<equiv> ucast (get_bits ins 6 5)" and "k \<equiv> unat (get_bits ins 11 7)"
  shows "runs (write_shift_operand_sco ins out) h s
    (fst (arm_shift code (shifted_by code k) rm (flag bit_C s)),
     of_bool (snd (arm_shift code k rm (flag bit_C s)))) s"
  using assms by (intro runs_shifter) (simp_all add: wp_shifter_immediate)

theorem barrel_shifter_immediate_witness:
  "runs (write_shift_operand_sco 0xE1A01221 (0, 0)) x86_host (sample [0, 0x80]) (0x40, 0) (sample [0, 0x80])"
  using barrel_shifter_immediate [where s = "sample [0, 0x80]" and ins = "0xE1A01221" and out = "(0, 0)" and h = x86_host]
  by (simp add: usr_reg_def get_bits_eval shifted_by_def arm_shift.simps flag_def cpsr_def nth_append)

text \<open>
  C32: For a shift by a register (bit 7 clear) the carry out is the one of the architecture. The
  operand is too for LSL, for the amount 0, and for LSR and ASR by 32 or more. For LSR and ASR by 1
  to 31 the register is shifted by the number of the shift (1 or 2) instead, and for ROR by any
  nonzero amount, also one above 32, it is rotated by 3. A rotation by a nonzero multiple of 32 is
  excluded: it tests the bit at position -1.
\<close>

theorem barrel_shifter_register:
  assumes "user_state s" "\<not> bit ins 25" "bit ins 4" "\<not> bit ins 7"
  defines "rm \<equiv> usr_reg s (ucast (get_bits ins 3 0))"
    and "code \<equiv> ucast (get_bits ins 6 5)"
    and "k \<equiv> unat (usr_reg s (ucast (get_bits ins 11 8))) mod 256"
  assumes "code = ROR \<longrightarrow> k = 0 \<or> k mod 32 \<noteq> 0"
  shows "runs (write_shift_operand_sco ins out) h s
    (fst (arm_shift_register code (register_shifted_by code k) rm (flag bit_C s)),
     of_bool (snd (arm_shift_register code k rm (flag bit_C s)))) s"
  using assms by (intro runs_shifter) (simp_all add: wp_shifter_register)

theorem barrel_shifter_register_witness:
  "runs (write_shift_operand_sco 0xE1A01210 (0, 0)) x86_host (sample [3, 0, 4]) (0x30, 0) (sample [3, 0, 4])"
  using barrel_shifter_register [where s = "sample [3, 0, 4]" and ins = "0xE1A01210" and out = "(0, 0)" and h = x86_host]
  by (simp add: usr_reg_def get_bits_eval register_shifted_by_def arm_shift_register.simps
      arm_shift.simps flag_def cpsr_def nth_append)

text \<open>
  An immediate with a nonzero rotation field gives the byte rotated right by twice the field,
  and bit 31 of it as carry, as the architecture defines.
\<close>

theorem rotated_immediate:
  assumes "user_state s" "bit ins 25" "get_bits ins 11 8 \<noteq> 0"
  defines "v \<equiv> word_rotr (2 * unat (get_bits ins 11 8)) (get_bits ins 7 0)"
  shows "runs (write_shift_operand_sco ins out) h s (v, of_bool (bit v 31)) s"
  using assms by (intro runs_shifter) (simp_all add: wp_rotated_immediate unat_gt_0)

lemma rotation: "word_rotr 8 0xFF = (0xFF000000 :: u32)"
  by code_simp

theorem rotated_immediate_witness:
  "runs (write_shift_operand_sco 0xE3A014FF (0, 0)) x86_host (sample []) (0xFF000000, 1) (sample [])"
  using rotated_immediate [where s = "sample []" and ins = "0xE3A014FF" and out = "(0, 0)" and h = x86_host]
  by (simp add: get_bits_eval rotation)

text \<open>
  An immediate that is not rotated, the commonest one, shifts by 32, to which C gives no
  meaning. Where the host takes shift counts modulo 32, as the x86 shift instructions do, it
  gives the byte itself and the carry flag, which is what the architecture defines.
\<close>

theorem unrotated_immediate:
  assumes "user_state s" "bit ins 25" "get_bits ins 11 8 = 0"
  shows "write_shift_operand_sco ins out strict_host s = Undefined Shift_range
    \<and> runs (write_shift_operand_sco ins out) x86_host s (get_bits ins 7 0, of_bool (flag bit_C s)) s"
proof (rule conjI)
  have "ends (write_shift_operand_sco ins out) strict_host (quiet s) (Undefined Shift_range)"
    using assms by (simp add: wp_rotated_immediate(3) strict_host_def)
  from ends_quiet [OF resp_shifter(3) assms(1) this]
  show "write_shift_operand_sco ins out strict_host s = Undefined Shift_range"
    by (simp add: ends_simps)
  show "runs (write_shift_operand_sco ins out) x86_host s (get_bits ins 7 0, of_bool (flag bit_C s)) s"
    using assms by (intro runs_shifter) (simp_all add: wp_rotated_immediate(2) x86_host_def)
qed


theorem unrotated_immediate_witness:
  "write_shift_operand_sco 0xE3A01007 (0, 0) strict_host (sample []) = Undefined Shift_range
    \<and> runs (write_shift_operand_sco 0xE3A01007 (0, 0)) x86_host (sample []) (7, 0) (sample [])"
  using unrotated_immediate [where s = "sample []" and ins = "0xE3A01007" and out = "(0, 0)"]
  by (simp add: get_bits_eval flag_def cpsr_def nth_append)

end
