(* ===== verification/Block_Transfers.thy ===== *)
theory Block_Transfers
  imports Load_Store Barrel_Shifter
begin

unbundle bit_operations_syntax

text \<open>
  What \<open>arm_load_store_multiple\<close> does: the block of words it moves between the memory and
  the listed registers, in terms of the word-store interface of the memory.
\<close>

section \<open>The register list\<close>

text \<open>The registers a list names, in the order of the loop.\<close>

definition listed :: "u16 \<Rightarrow> nat list \<Rightarrow> nat list" where
  "listed l is = filter (bit l) is"

lemma bits_step:
  fixes n :: u16
  shows "card {i. bit n i} = (if bit n 0 then 1 else 0) + card {i. bit (drop_bit 1 n) i}"
proof -
  have fin: "finite {i. bit w i}" for w :: u16
    by (rule finite_subset [of _ "{..<16}"]) (auto dest: bit_imp_le_length)
  have "{i. bit n i} = {i. i = 0 \<and> bit n 0} \<union> Suc ` {i. bit (drop_bit 1 n) i}"
  proof (intro set_eqI)
    fix i show "i \<in> {i. bit n i} \<longleftrightarrow> i \<in> {i. i = 0 \<and> bit n 0} \<union> Suc ` {i. bit (drop_bit 1 n) i}"
      by (cases i) (auto simp: bit_simps)
  qed
  moreover have "card ({i. i = 0 \<and> bit n 0} \<union> Suc ` {i. bit (drop_bit 1 n) i})
      = card {i. i = (0::nat) \<and> bit n 0} + card (Suc ` {i. bit (drop_bit 1 n) i})"
    by (rule card_Un_disjoint) (auto intro: fin finite_imageI)
  ultimately show ?thesis by (auto simp: card_image)
qed

lemma number_set_bits_loop: "number_set_bits_loop n c = c + of_nat (card {i. bit n i})"
proof (induction n c rule: number_set_bits_loop.induct)
  case (1 n c)
  show ?case
  proof (cases "n = 0")
    case True then show ?thesis by (subst number_set_bits_loop.simps) (simp add: bot_fun_def)
  next
    case False
    have "ucast (n mod 2) = (of_bool (bit n 0) :: u8)"
      by (cases "bit n 0") (simp_all add: bit_0 mod2_eq_if)
    with 1 [OF False] False bits_step [of n] show ?thesis
      by (subst number_set_bits_loop.simps) simp
  qed
qed

lemma unat_number_set_bits: "unat (number_set_bits_in l) = card {i. i < 16 \<and> bit l i}"
proof -
  have "{i. bit l i} = {i. i < 16 \<and> bit l i}" by (auto dest: bit_imp_le_length)
  moreover have "card {i. i < 16 \<and> bit l i} \<le> card {..<16::nat}" by (rule card_mono) auto
  ultimately show ?thesis
    by (simp add: number_set_bits_in_def number_set_bits_loop unsigned_of_nat take_bit_nat_eq_self)
qed

text \<open>The bit count of a register list is the number of registers in it.\<close>

theorem number_set_bits_spec: "unat (number_set_bits_in l) = card {i. i < 16 \<and> bit l i}"
  by (rule unat_number_set_bits)

lemma length_listed: "length (listed l [0..<16]) = card {i. i < 16 \<and> bit l i}"
proof -
  have "set (listed l [0..<16]) = {i. i < 16 \<and> bit l i}" by (auto simp: listed_def)
  then show ?thesis by (metis distinct_card distinct_filter distinct_upt listed_def)
qed

lemma block_size: "ucast (number_set_bits_in l) * 4 = (4 * of_nat (length (listed l [0..<16])) :: u32)"
proof -
  have "(ucast (number_set_bits_in l) :: u32) = of_nat (length (listed l [0..<16]))"
    unfolding length_listed unat_number_set_bits [symmetric] by simp
  then show ?thesis by simp
qed

section \<open>The loops\<close>

lemma wp_store_registers [wp_simps]:
  "quiet_user s \<Longrightarrow> \<forall>i \<in> set is. i < 16 \<Longrightarrow> wp (store_registers l is a) h Q s \<longleftrightarrow>
    (\<exists>m. words.stores (mem s) a (map (\<lambda>i. usr_reg s (of_nat i)) (listed l is)) = Ret m \<and>
      Q (a + 4 * of_nat (length (listed l is))) (s\<lparr>mem := m\<rparr>))"
proof (induction "is" arbitrary: a s)
  case Nil then show ?case by (simp add: listed_def wp_simps)
next
  case (Cons i "is")
  have i: "(of_nat i :: u8) \<le> 15" using Cons.prems(2) by (simp add: word_le_nat_alt unsigned_of_nat take_bit_nat_eq_self)
  show ?case
  proof (cases "bit l i")
    case True
    with Cons i show ?thesis
      by (auto simp: listed_def wp_simps obind_Ret_iff bit_simps algebra_simps dest: bit_imp_le_length)
  next
    case False
    with Cons i show ?thesis by (auto simp: listed_def wp_simps bit_simps)
  qed
qed

text \<open>Assignment of a list of values to a list of registers.\<close>

fun set_regs :: "nat list \<Rightarrow> u32 list \<Rightarrow> 'z machine_scheme \<Rightarrow> 'z machine_scheme" where
  "set_regs (i # is) (w # ws) s = set_regs is ws (set_reg i w s)"
| "set_regs _ _ s = s"

lemma set_regs_simps [simp]:
  "mem (set_regs is ws s) = mem s" "user_state (set_regs is ws s) = user_state s"
  "quiet_user (set_regs is ws s) = quiet_user s" "quiet (set_regs is ws s) = set_regs is ws (quiet s)"
  by (induction "is" ws s rule: set_regs.induct) simp_all

lemma wp_load_registers [wp_simps]:
  "quiet_user s \<Longrightarrow> \<forall>i \<in> set is. i < 15 \<Longrightarrow> wp (load_registers l is a v) h Q s \<longleftrightarrow>
    (\<exists>ws. words.loads (mem s) a (length (listed l is)) = Ret ws \<and>
      Q (a + 4 * of_nat (length (listed l is)), last (v # map Some ws))
        (set_regs (listed l is) ws s))"
proof (induction "is" arbitrary: a v s)
  case Nil then show ?case by (simp add: listed_def wp_simps)
next
  case (Cons i "is")
  have u: "unat (of_nat i :: u8) = i" using Cons.prems(2) by (simp add: unsigned_of_nat take_bit_nat_eq_self)
  have i: "(of_nat i :: u8) \<le> 15" using Cons.prems(2) u by (simp add: word_le_nat_alt)
  show ?case
  proof (cases "bit l i")
    case True
    with Cons i u show ?thesis
      by (auto simp: listed_def wp_simps obind_Ret_iff bit_simps algebra_simps
          simp del: last.simps dest: bit_imp_le_length) (auto simp: last_ConsR)
  next
    case False
    with Cons i show ?thesis by (auto simp: listed_def wp_simps bit_simps simp del: last.simps)
  qed
qed

section \<open>The transfers\<close>

lemma listed_16: "listed l [0..<16] = listed l [0..<15] @ (if bit l 15 then [15] else [])"
proof -
  have "[0..<16] = [0..<15] @ [15]" using upt_Suc [of 0 15] by simp
  then show ?thesis by (simp only: listed_def filter_append) simp
qed

text \<open>
  The lowest address of the block of \<open>n\<close> words for the four addressing modes, and what the
  local variable \<open>rn\<close> holds afterwards.
\<close>

definition block_start :: "u32 \<Rightarrow> u32 \<Rightarrow> nat \<Rightarrow> u32" where
  "block_start ins rn n =
     (if bit ins 23 then (if bit ins 24 then rn + 4 else rn)
      else (if bit ins 24 then rn - 4 * of_nat n else rn - 4 * of_nat n + 4))"

definition block_base :: "u32 \<Rightarrow> u8 \<Rightarrow> u32 \<Rightarrow> nat \<Rightarrow> 'z machine_scheme \<Rightarrow> u32" where
  "block_base ins cond rn n s =
     (if cond_ok cond s \<and> bit ins 21
      then (if bit ins 23 then rn + 4 * of_nat n else rn - 4 * of_nat n) else rn)"

abbreviation register_list :: "u32 \<Rightarrow> u16" where
  "register_list ins \<equiv> ucast (get_bits ins 15 0)"

abbreviation condition_field :: "u32 \<Rightarrow> u8" where
  "condition_field ins \<equiv> ucast (get_bits ins 31 28)"

lemma wp_multiple_addresses [wp_simps]:
  assumes "quiet_user s" and n: "n = length (listed (register_list ins) [0..<16])"
  shows "wp (multiple_addresses ins cond rn) h Q s \<longleftrightarrow>
    Q (block_start ins rn n, block_start ins rn n + 4 * of_nat n - 4, block_base ins cond rn n s) s"
  using assms by (simp add: multiple_addresses_def Let_def wp_simps block_size block_start_def
      block_base_def algebra_simps)

lemma wp_stm:
  assumes q: "quiet_user s" and "\<not> bit ins 20"
  defines "rs \<equiv> listed (register_list ins) [0..<16]"
  defines "a \<equiv> block_start ins (usr_reg s (ucast (get_bits ins 19 16))) (length rs)"
  shows "wp (arm_load_store_multiple ins) h Q s \<longleftrightarrow>
    (if cond_ok (condition_field ins) s then
       (\<exists>m. words.stores (mem s) a (map (\<lambda>i. usr_reg s (of_nat i)) rs) = Ret m \<and> Q 0 (s\<lparr>mem := m\<rparr>))
     else Q 0 s)"
proof -
  have f: "(ucast (get_bits ins 19 16) :: u8) \<le> 15"
    using field_less [of 19 16 ins] by (simp add: word_le_nat_alt)
  show ?thesis
    using assms(1,2) f unfolding a_def rs_def
    by (simp add: arm_load_store_multiple_def Let_def wp_simps del: upt_rec_numeral upt.simps)
qed

lemma wp_ldm:
  assumes q: "quiet_user s" and "bit ins 20"
  defines "rs \<equiv> listed (register_list ins) [0..<15]" and "n \<equiv> length (listed (register_list ins) [0..<16])"
  defines "a \<equiv> block_start ins (usr_reg s (ucast (get_bits ins 19 16))) n"
  shows "wp (arm_load_store_multiple ins) h Q s \<longleftrightarrow>
    (if cond_ok (condition_field ins) s then
       (\<exists>ws. words.loads (mem s) a (length rs) = Ret ws \<and>
         (if bit ins 15 then (\<exists>w. load_word (mem s) (a + 4 * of_nat (length rs)) = Ret w) \<and>
            Q 0 (set_reg 15 0 (set_regs rs ws s))
          else Q 0 (set_regs rs ws s)))
     else Q 0 s)"
proof -
  have f: "(ucast (get_bits ins 19 16) :: u8) \<le> 15"
    using field_less [of 19 16 ins] by (simp add: word_le_nat_alt)
  have b: "bit (register_list ins) 15 = bit ins 15"
    "bit (ucast (register_list ins) :: u32) 15 = bit ins 15"
    by (simp_all add: bit_simps bit_get_bits)
  have n: "n = length rs + (if bit ins 15 then 1 else 0)"
    unfolding n_def rs_def listed_16 b(1) by simp
  show ?thesis
    using assms(1,2) f unfolding a_def
    by (simp add: arm_load_store_multiple_def Let_def wp_simps n_def [symmetric] rs_def [symmetric] b
      del: upt_rec_numeral upt.simps) (auto simp: n)
qed

lemma of_nat_u8: "i < 16 \<Longrightarrow> \<not> 15 < (of_nat i :: u8)"
  by (simp add: word_less_nat_alt unsigned_of_nat take_bit_nat_eq_self)

lemma ends_store_registers [end_simps]:
  "quiet_user s \<Longrightarrow> \<forall>i \<in> set is. i < 16 \<Longrightarrow> \<not> ends (store_registers l is a) h s Abort"
  by (induction "is" arbitrary: a s) (auto simp: end_simps wp_simps of_nat_u8)

lemma ends_load_registers [end_simps]:
  "quiet_user s \<Longrightarrow> \<forall>i \<in> set is. i < 16 \<Longrightarrow> \<not> ends (load_registers l is a v) h s Abort"
  by (induction "is" arbitrary: a v s) (auto simp: end_simps wp_simps of_nat_u8)

text \<open>
  The assertion at the end of LDM and STM, that the last address used is the end address computed
  beforehand, never fails: the functions do not abort, whatever the instruction and the memory.
\<close>

theorem assertions_hold:
  assumes "user_state s"
  shows "arm_load_store_multiple ins h s \<noteq> Abort"
proof -
  have f: "(ucast (get_bits ins 19 16) :: u8) \<le> 15"
    using field_less [of 19 16 ins] by (simp add: word_le_nat_alt)
  have b: "bit (register_list ins) 15 = bit ins 15"
    "bit (ucast (register_list ins) :: u32) 15 = bit ins 15"
    by (simp_all add: bit_simps bit_get_bits)
  have n: "length (listed (register_list ins) [0..<16]) =
      length (listed (register_list ins) [0..<15]) + (if bit ins 15 then 1 else 0)"
    unfolding listed_16 b(1) by simp
  have "\<not> ends (arm_load_store_multiple ins) h (quiet s) Abort"
    using f assms
    by (auto simp add: arm_load_store_multiple_def Let_def end_simps wp_simps multiple_addresses_def b n
       block_size not_less simp del: upt_rec_numeral upt.simps)
  then have "\<not> ends (arm_load_store_multiple ins) h s Abort"
    by (simp only: ends_quiet_iff [OF resp_load_store(2) assms] not_False_eq_True)
  then show ?thesis by (simp add: ends_simps)
qed

theorem assertions_hold_witness: "arm_load_store_multiple 0xE8B2800B x86_host (sample [0, 1, 8]) \<noteq> Abort"
  using assertions_hold [of "sample [0, 1, 8]"] by simp

lemma runs_multiple:
  assumes "user_state s" "user_state s'"
    and "wp (arm_load_store_multiple ins) h (\<lambda>w t. w = v \<and> t = quiet s') (quiet s)"
  shows "runs (arm_load_store_multiple ins) h s v s'"
  using resp_load_store(2) assms by (rule runsI)

lemma cond_ok_upd [simp]:
  "cond_ok c (quiet s) = cond_ok c s" "cond_ok c (s\<lparr>mem := m\<rparr>) = cond_ok c s"
  by (simp_all add: cond_ok_def)

text \<open>
  STM stores the listed registers, lowest first, to consecutive words from the start address of
  its addressing mode, if its condition holds, and changes no register (the base register is not
  written back). If the condition fails it changes nothing.
\<close>

theorem stm_effect:
  fixes ins :: u32
  assumes "user_state s" "\<not> bit ins 20"
  defines "rs \<equiv> listed (register_list ins) [0..<16]"
  defines "a \<equiv> block_start ins (usr_reg s (ucast (get_bits ins 19 16))) (length rs)"
  assumes "words.stores (mem s) a (map (\<lambda>i. usr_reg s (of_nat i)) rs) = Ret m"
  shows "runs (arm_load_store_multiple ins) h s 0
    (if cond_ok (condition_field ins) s then s\<lparr>mem := m\<rparr> else s)"
  using assms by (intro runs_multiple) (simp_all add: wp_stm del: upt_rec_numeral)

lemma sample_lists:
  "listed 3 [0..<16] = [0, 1]" "listed 3 [0..<15] = [0, 1]" "listed 32769 [0..<15] = [0]"
  by code_simp+

lemma sample_condition: "cond_ok 14 s"
  by (simp add: cond_ok_def condition_OK_def)

theorem stm_effect_witness:
  "runs (arm_load_store_multiple 0xE8820003) x86_host (sample [7, 9, 8]) 0 ((sample [7, 9, 8])\<lparr>mem :=
     memory_create ((replicate 64 0)[8 := 0, 9 := 0, 10 := 0, 11 := 7, 12 := 0, 13 := 0, 14 := 0, 15 := 9]) 64 1\<rparr>)"
proof -
  have "words.stores (mem (sample [7, 9, 8])) 8 [7, 9]
      = Ret (memory_create ((replicate 64 0)[8 := 0, 9 := 0, 10 := 0, 11 := 7, 12 := 0, 13 := 0, 14 := 0, 15 := 9]) 64 1)"
    by (simp add: store_word_def memory_write_word_def put_octet_def memory_create_def)
  then show ?thesis
    using stm_effect [where s = "sample [7, 9, 8]" and ins = "0xE8820003" and h = x86_host
        and m = "memory_create ((replicate 64 0)[8 := 0, 9 := 0, 10 := 0, 11 := 7, 12 := 0, 13 := 0, 14 := 0, 15 := 9]) 64 1"]
    by (simp add: sample_lists block_start_def get_bits_eval usr_reg_def sample_condition)
qed

text \<open>
  LDM without the program counter loads the listed registers, lowest first, from consecutive
  words from the start address, if its condition holds; the base register keeps its value unless
  it is listed. If the condition fails it changes nothing.
\<close>

theorem ldm_effect:
  fixes ins :: u32
  assumes "user_state s" "bit ins 20" "\<not> bit ins 15"
  defines "rs \<equiv> listed (register_list ins) [0..<15]"
  defines "a \<equiv> block_start ins (usr_reg s (ucast (get_bits ins 19 16))) (length rs)"
  assumes "words.loads (mem s) a (length rs) = Ret ws"
  shows "runs (arm_load_store_multiple ins) h s 0
    (if cond_ok (condition_field ins) s then set_regs rs ws s else s)"
proof -
  have "listed (register_list ins) [0..<16] = rs"
    using assms(3) unfolding listed_16 rs_def by (simp add: bit_simps bit_get_bits)
  with assms show ?thesis
    by (intro runs_multiple) (simp_all add: wp_ldm del: upt_rec_numeral)
qed

theorem ldm_effect_witness:
  "runs (arm_load_store_multiple 0xE8920003) x86_host (sample [7, 9, 8]) 0
     (set_reg 1 0 (set_reg 0 0 (sample [7, 9, 8])))"
  using ldm_effect [where s = "sample [7, 9, 8]" and ins = "0xE8920003" and h = x86_host and ws = "[0, 0]"]
  by (simp add: sample_lists block_start_def get_bits_eval usr_reg_def sample_condition
      load_word_def memory_read_word_def octet_def memory_create_def)

text \<open>
  LDM with the program counter in its list sets the program counter to 0 and not to the word it loads:
  the word is overwritten by the code the read returns.
\<close>

theorem ldm_pc:
  fixes ins :: u32
  assumes "user_state s" "bit ins 20" "bit ins 15" "cond_ok (condition_field ins) s"
  defines "rs \<equiv> listed (register_list ins) [0..<15]"
  defines "a \<equiv> block_start ins (usr_reg s (ucast (get_bits ins 19 16))) (Suc (length rs))"
  assumes "words.loads (mem s) a (length rs) = Ret ws"
    and "load_word (mem s) (a + 4 * of_nat (length rs)) = Ret w"
  shows "runs (arm_load_store_multiple ins) h s 0 (set_reg 15 0 (set_regs rs ws s))"
proof -
  have "length (listed (register_list ins) [0..<16]) = Suc (length rs)"
    using assms(3) unfolding listed_16 rs_def by (simp add: bit_simps bit_get_bits)
  with assms show ?thesis
    by (intro runs_multiple) (simp_all add: wp_ldm del: upt_rec_numeral)
qed

theorem ldm_pc_witness:
  "runs (arm_load_store_multiple 0xE8928001) x86_host (sample [7, 9, 8]) 0
     (set_reg 15 0 (set_reg 0 0 (sample [7, 9, 8])))"
  using ldm_pc [where s = "sample [7, 9, 8]" and ins = "0xE8928001" and h = x86_host and ws = "[0]" and w = 0]
  by (simp add: sample_lists block_start_def get_bits_eval usr_reg_def sample_condition
      load_word_def memory_read_word_def octet_def memory_create_def)

text \<open>
  C20: A block stored by STM is loaded back into the same registers by an LDM with the same list (without
  the program counter) and the same start address, from any later state \<open>t\<close> with that memory.
\<close>

theorem stm_then_ldm:
  fixes stm ldm :: u32
  assumes "user_state s" "\<not> bit stm 20" "bit ldm 20" "\<not> bit stm 15"
    and "register_list ldm = register_list stm" "cond_ok (condition_field stm) s"
  defines "rs \<equiv> listed (register_list stm) [0..<15]"
  defines "a \<equiv> block_start stm (usr_reg s (ucast (get_bits stm 19 16))) (length rs)"
  assumes room: "\<forall>i < length rs. in_block (mem s) (a + 4 * of_nat i) 4"
    and t: "\<And>m. user_state (t m) \<and> mem (t m) = m \<and> cond_ok (condition_field ldm) (t m) \<and>
      block_start ldm (usr_reg (t m) (ucast (get_bits ldm 19 16))) (length rs) = a"
  shows "\<exists>m. runs (arm_load_store_multiple stm) h s 0 (s\<lparr>mem := m\<rparr>) \<and>
    runs (arm_load_store_multiple ldm) h (t m) 0 (set_regs rs (map (\<lambda>i. usr_reg s (of_nat i)) rs) (t m))"
proof -
  let ?vs = "map (\<lambda>i. usr_reg s (of_nat i)) rs"
  obtain m where m: "words.stores (mem s) a ?vs = Ret m"
    using words.stores_room [of ?vs "mem s" a] room by auto
  have b: "bit (register_list stm) 15 = bit stm 15" "bit (register_list ldm) 15 = bit ldm 15"
    by (simp_all add: bit_simps bit_get_bits)
  have l: "listed (register_list stm) [0..<16] = rs"
    using assms(4) unfolding listed_16 rs_def b(1) by simp
  have "length rs \<le> length [0..<15::nat]" unfolding rs_def listed_def by (rule length_filter_le)
  then have ld: "words.loads m a (length rs) = Ret ?vs"
    using words.loads_stores [OF m] by simp
  have "runs (arm_load_store_multiple stm) h s 0 (s\<lparr>mem := m\<rparr>)"
    using assms m l by (intro runs_multiple) (simp_all add: wp_stm del: upt_rec_numeral)
  moreover have "runs (arm_load_store_multiple ldm) h (t m) 0 (set_regs rs ?vs (t m))"
    using assms(3-6) t [of m] ld l b
    by (intro runs_multiple) (simp_all add: wp_ldm rs_def del: upt_rec_numeral)
  ultimately show ?thesis by blast
qed

theorem stm_then_ldm_witness:
  "\<exists>m. runs (arm_load_store_multiple 0xE8820003) x86_host (sample [7, 9, 8]) 0
      ((sample [7, 9, 8])\<lparr>mem := m\<rparr>) \<and>
    runs (arm_load_store_multiple 0xE8920003) x86_host ((sample [0, 0, 8])\<lparr>mem := m\<rparr>) 0
      (set_reg 1 9 (set_reg 0 7 ((sample [0, 0, 8])\<lparr>mem := m\<rparr>)))"
  using stm_then_ldm [where s = "sample [7, 9, 8]" and stm = "0xE8820003" and ldm = "0xE8920003"
        and t = "\<lambda>m. (sample [0, 0, 8])\<lparr>mem := m\<rparr>" and h = x86_host]
    by (simp add: sample_lists block_start_def get_bits_eval usr_reg_def sample_condition in_block_word
        memory_create_def less_Suc_eq all_conj_distrib)

end
