(* ===== verification/Branch_Other.thy ===== *)
theory Branch_Other
  imports Data_Processing
begin

unbundle bit_operations_syntax

text \<open>
  \<open>arm_branch_other.c\<close>: branches, software interrupts and reads of the status registers.
\<close>

section \<open>Operations\<close>

definition arm_branch :: "u32 \<Rightarrow> ('z, int) arm" where
  "arm_branch ins =
     mseq (mwhen (get_bit ins 24 \<noteq> 0)
       (mbind (arm_read_register 15) (\<lambda>pc. arm_write_register 14 pc)))
     (mseq (if get_bit ins 23 \<noteq> 0 then
              (let res = push_bit 2 (get_bits ins 23 0 OR 0x3F000000) in
               mbind (arm_read_register 15) (\<lambda>pc. arm_write_register 15 (pc + res)))
            else
              (let res = push_bit 2 (get_bits ins 23 0) in
               mbind (arm_read_register 15) (\<lambda>pc. arm_write_register 15 (pc + res))))
     (ret 0))"

definition arm_coprocessor_others_swi :: "u32 \<Rightarrow> ('z, int) arm" where
  "arm_coprocessor_others_swi ins =
     (if get_bit ins 24 \<noteq> 0 then
        (if ins AND 0xFFFFFF = 0x123456 then exit_with 0 else ret 3)
      else ret 2)"

definition arm_miscellaneous :: "u32 \<Rightarrow> ('z, int) arm" where
  "arm_miscellaneous ins =
     mseq (if get_bit ins 22 \<noteq> 0 then
             mbind arm_read_spsr (\<lambda>v. arm_write_register (ucast (get_bits ins 15 12)) v)
           else
             mbind arm_read_cpsr (\<lambda>v. arm_write_register (ucast (get_bits ins 15 12)) v))
     (ret 2)"

section \<open>Invariant and independence of tracing\<close>

lemmas branch_other_defs = arm_branch_def arm_coprocessor_others_swi_def arm_miscellaneous_def

context machine_invariant
begin

lemma pres_branch_other [pres]:
  "preserves I (arm_branch ins)"
  "preserves I (arm_coprocessor_others_swi ins)"
  "preserves I (arm_miscellaneous ins)"
  unfolding branch_other_defs Let_def by (intro pres)+

end

lemma resp_branch_other [resp]:
  "respecting same_core (arm_branch ins)"
  "respecting same_core (arm_coprocessor_others_swi ins)"
  "respecting same_core (arm_miscellaneous ins)"
  unfolding branch_other_defs Let_def by (intro resp)+

end
