(* ===== verification/Instruction.thy ===== *)
theory Instruction
  imports Load_Store Branch_Other
begin

unbundle bit_operations_syntax

text \<open>
  \<open>arm_instruction.c\<close>: fetching an instruction, choosing the function that executes it, and
  the step of the simulator; then the machine as a step relation.
\<close>

section \<open>The step\<close>

text \<open>
  \<open>decode_class\<close> is the switch of \<open>arm_decode\<close> over bits 27 to 25; \<open>result\<close> is what the
  variable holds before it.
\<close>

definition decode_class :: "u32 \<Rightarrow> int \<Rightarrow> ('z, int) arm" where
  "decode_class instruction result =
     (let code_instruction = ucast (get_bits instruction 27 25) :: u8 in
      if code_instruction = 0 then
        (let two_first_bits_opcode = ucast (get_bits instruction 24 23) :: u8;
             S = ucast (get_bit instruction 20) :: u8;
             bit4 = ucast (get_bit instruction 4) :: u8;
             bit7 = ucast (get_bit instruction 7) :: u8 in
         if two_first_bits_opcode AND 0xF = 2 \<and> S AND 0xF = 0 then
           (if bit4 AND 0xF = 0 \<or> bit7 AND 0xF = 0 then arm_miscellaneous instruction
            else ret result)
         else arm_data_processing_shift instruction)
      else if code_instruction = 1 then arm_data_processing_immediate_msr instruction
      else if code_instruction = 2 \<or> code_instruction = 3 then arm_load_store instruction
      else if code_instruction = 4 then arm_load_store_multiple instruction
      else if code_instruction = 5 then arm_branch instruction
      else if code_instruction = 6 then arm_coprocessor_load_store instruction
      else if code_instruction = 7 then arm_coprocessor_others_swi instruction
      else ret 2)"

definition arm_decode :: "('z, int) arm" where
  "arm_decode =
     mbind (arm_fetch None) (\<lambda>(_, instruction).
     let cond = ucast (get_bits instruction 31 28) in
     mbind arm_read_cpsr (\<lambda>cpsr.
     let flag_N = ucast (get_bit cpsr bit_N); flag_Z = ucast (get_bit cpsr bit_Z);
         flag_C = ucast (get_bit cpsr bit_C); flag_V = ucast (get_bit cpsr bit_V);
         result = (if \<not> condition_OK cond flag_N flag_Z flag_C flag_V then 2 else 0) in
     decode_class instruction result))"

definition arm_execute_instruction :: "('z, int) arm" where
  "arm_execute_instruction = mbind arm_decode (\<lambda>result. ret result)"

definition arm_step :: "('z, int) arm" where
  "arm_step =
     mbind arm_execute_instruction (\<lambda>result.
     mseq (mwhen (result \<noteq> 0) (arm_exception (word_of_int result)))
     (ret result))"

section \<open>Invariant and independence of tracing\<close>

context machine_invariant
begin

lemma pres_decode_class [pres]: "preserves I (decode_class ins r)"
  unfolding decode_class_def arm_coprocessor_load_store_def Let_def by (intro pres)

end

context clock_free_invariant
begin

lemma pres_decode [pres]:
  "preserves I arm_decode" "preserves I arm_execute_instruction" "preserves I arm_step"
  unfolding arm_step_def arm_execute_instruction_def arm_decode_def Let_def by (intro pres)+

end

lemma resp_decode [resp]:
  "respecting same_core (decode_class ins r)" "respecting same_core arm_decode"
  "respecting same_core arm_execute_instruction" "respecting same_core arm_step"
  unfolding arm_step_def arm_execute_instruction_def arm_decode_def decode_class_def
    arm_coprocessor_load_store_def Let_def by (intro resp)+

end
