(* ===== verification/Transfers.thy ===== *)
theory Transfers
  imports Load_Store Barrel_Shifter
begin

unbundle bit_operations_syntax

text \<open>
  What \<open>arm_load_store\<close> does: the address it uses, the value that moves, and the encodings
  for which it reads an unassigned address.
\<close>

section \<open>Effective addresses\<close>

text \<open>
  The offset an instruction encodes, and the address of the access: the base register for
  post-indexed accesses, the sum or difference otherwise. \<open>None\<close> where the code assigns no address:
  post-indexing with \<open>W\<close> set, and a register offset with bit 4 set.
\<close>

definition offset_field :: "u32 \<Rightarrow> 'z machine_scheme \<Rightarrow> u32 option" where
  "offset_field ins s =
     (let rm = usr_reg s (ucast (get_bits ins 3 0)) in
      if get_bits ins 27 25 = 2 then Some (get_bits ins 11 0)
      else if get_bits ins 27 25 = 3 \<and> get_bits ins 11 4 = 0 then Some rm
      else if get_bits ins 27 25 = 3 \<and> \<not> bit ins 4 then
        Some (fst (arm_shift (ucast (get_bits ins 6 5)) (unat (get_bits ins 11 7)) rm (flag bit_C s)))
      else None)"

definition effective_address :: "u32 \<Rightarrow> 'z machine_scheme \<Rightarrow> u32 option" where
  "effective_address ins s =
     (let rn = usr_reg s (ucast (get_bits ins 19 16)) in
      case offset_field ins s of None \<Rightarrow> None
      | Some d \<Rightarrow>
         if \<not> bit ins 24 then (if bit ins 21 then None else Some rn)
         else Some (if bit ins 23 then rn + d else rn - d))"

text \<open>The local \<open>rn\<close> after the address is formed; it is not used any more.\<close>

definition local_base :: "u32 \<Rightarrow> u8 \<Rightarrow> u32 \<Rightarrow> u32 \<Rightarrow> 'z machine_scheme \<Rightarrow> u32" where
  "local_base ins cond rn d s =
     (if cond_ok cond s \<and> bit ins 24 = bit ins 21 then (if bit ins 23 then rn + d else rn - d)
      else rn)"

lemma wp_offset_address [wp_simps]:
  "quiet_user s \<Longrightarrow> wp (offset_address ins cond rn d) h Q s \<longleftrightarrow>
    Q (if \<not> bit ins 24 then (if bit ins 21 then None else Some rn)
       else Some (if bit ins 23 then rn + d else rn - d),
       local_base ins cond rn d s) s"
  by (auto simp: offset_address_def Let_def wp_simps local_base_def)

lemma wp_scaled_index [wp_simps]:
  assumes "quiet_user s" "shift \<le> 3" "unat k < 32"
  shows "wp (scaled_index rm k shift) h Q s \<longleftrightarrow>
    Q (fst (arm_shift shift (unat k) rm (flag bit_C s))) s"
proof -
  have k: "unat (ucast k :: u8) = unat k" using assms(3) by (simp add: unsigned_ucast_eq take_bit_nat_eq_self)
  have "uint k = int (unat k)" by simp
  with assms(3) have uk: "uint k < 32" by linarith
  have z: "unat k = 0 \<longleftrightarrow> k = 0" by (simp add: word_unat_eq_iff)
  have "unat shift < 4" using assms(2) by (simp add: word_le_nat_alt)
  from u8_code [OF this] show ?thesis
  proof (elim disjE)
    assume "shift = 0" with assms uk show ?thesis
      unfolding scaled_index_def by (simp add: wp_simps arm_shift.simps)
  next
    assume "shift = 1" with assms uk show ?thesis
      unfolding scaled_index_def by (simp add: wp_simps arm_shift.simps z)
  next
    assume "shift = 2" with assms k show ?thesis
      unfolding scaled_index_def by (simp add: wp_simps arm_shift.simps asr_in_range z unat_gt_0)
  next
    assume "shift = 3" with assms k show ?thesis
      unfolding scaled_index_def by (simp add: wp_simps arm_shift.simps ror_in_range z unat_gt_0 flag_def get_bit_of_bool)
  qed
qed

definition access_base :: "u32 \<Rightarrow> u8 \<Rightarrow> 'z machine_scheme \<Rightarrow> u32" where
  "access_base ins cond s =
     (let rn = usr_reg s (ucast (get_bits ins 19 16)) in
      case offset_field ins s of None \<Rightarrow> rn | Some d \<Rightarrow> local_base ins cond rn d s)"

lemma wp_access_address:
  assumes q: "quiet_user s"
  shows "wp (access_address ins cond (usr_reg s (ucast (get_bits ins 19 16)))) h Q s
    \<longleftrightarrow> Q (effective_address ins s, access_base ins cond s) s"
proof -
  have f: "(ucast (get_bits ins 3 0) :: u8) \<le> 15" "(ucast (get_bits ins 6 5) :: u8) \<le> 3"
    "unat (get_bits ins 11 7) < 32"
    using field_less [of 3 0 ins] field_less [of 6 5 ins] get_bits_less [of 11 7 ins]
    by (simp_all add: word_le_nat_alt)
  show ?thesis
    using f q by (simp add: access_address_def scaled_address_def effective_address_def
        offset_field_def access_base_def local_base_def Let_def wp_bind wp_arm_registers wp_scaled_index
        wp_offset_address wp_ret)
qed

text \<open>The value a load puts into the register, and the memory a store leaves.\<close>

definition load_value :: "memory \<Rightarrow> u32 \<Rightarrow> bool \<Rightarrow> u32 outcome" where
  "load_value m a b = (if b then obind (octet m a) (\<lambda>x. Ret (ucast x)) else load_word m a)"

definition store_value :: "memory \<Rightarrow> u32 \<Rightarrow> bool \<Rightarrow> u32 \<Rightarrow> memory outcome" where
  "store_value m a b v = (if b then put_octet m a (ucast v) else store_word m a v)"

lemma wp_load_store:
  fixes ins :: u32
  assumes "quiet_user s"
  defines "rd \<equiv> ucast (get_bits ins 15 12) :: u8"
  shows "wp (arm_load_store ins) h Q s \<longleftrightarrow> (\<exists>a. effective_address ins s = Some a \<and>
    (if bit ins 20 then (\<exists>v. load_value (mem s) a (bit ins 22) = Ret v \<and> Q 0 (set_reg (unat rd) v s))
     else (\<exists>m. store_value (mem s) a (bit ins 22) (usr_reg s rd) = Ret m \<and> Q 0 (s\<lparr>mem := m\<rparr>))))"
proof -
  have f: "rd \<le> 15" "(ucast (get_bits ins 19 16) :: u8) \<le> 15"
    using field_less [of 15 12 ins] field_less [of 19 16 ins] by (simp_all add: rd_def word_le_nat_alt)
  have a: "wp (access_memory ins rd ea) h (\<lambda>_. Q 0) s \<longleftrightarrow> (\<exists>a. ea = Some a \<and>
    (if bit ins 20 then (\<exists>v. load_value (mem s) a (bit ins 22) = Ret v \<and> Q 0 (set_reg (unat rd) v s))
     else (\<exists>m. store_value (mem s) a (bit ins 22) (usr_reg s rd) = Ret m \<and> Q 0 (s\<lparr>mem := m\<rparr>))))" for ea
    using f assms(1) by (auto simp: access_memory_def Let_def wp_simps load_value_def store_value_def obind_Ret_iff)
  show ?thesis
    using f assms(1)
    by (simp add: arm_load_store_def Let_def wp_bind wp_arm_registers wp_ret rd_def [symmetric]
      wp_access_address a)
qed

section \<open>Properties\<close>

lemma runs_load_store:
  assumes "user_state s" "user_state s'"
    and "wp (arm_load_store ins) h (\<lambda>w t. w = v \<and> t = quiet s') (quiet s)"
  shows "runs (arm_load_store ins) h s v s'"
  using resp_load_store(1) assms by (rule runsI)

lemma effective_address_upd [simp]:
  "effective_address ins (quiet s) = effective_address ins s"
  "effective_address ins (s\<lparr>mem := m\<rparr>) = effective_address ins s"
  by (simp_all add: effective_address_def offset_field_def Let_def)

lemma runs_load:
  assumes "user_state s" "bit ins 20" "effective_address ins s = Some a"
    and "load_value (mem s) a (bit ins 22) = Ret v"
  shows "runs (arm_load_store ins) h s 0 (set_reg (unat (get_bits ins 15 12)) v s)"
  using assms unat_field [of 15 12 ins] by (intro runs_load_store) (simp_all add: wp_load_store)

lemma runs_store:
  assumes "user_state s" "\<not> bit ins 20" "effective_address ins s = Some a"
    and "store_value (mem s) a (bit ins 22) (usr_reg s (ucast (get_bits ins 15 12))) = Ret m"
  shows "runs (arm_load_store ins) h s 0 (s\<lparr>mem := m\<rparr>)"
  using assms by (intro runs_load_store) (simp_all add: wp_load_store)

text \<open>
  C19: A load (LDR, LDRB) puts the word, or the byte extended with zeros, at the effective address into \<open>Rd\<close>
  and changes nothing else: the base register keeps its value for the pre- and post-indexed
  modes too, and the condition of the instruction has no influence.
\<close>

theorem load_effect:
  assumes "user_state s" "bit ins 20" "effective_address ins s = Some a"
    and "load_value (mem s) a (bit ins 22) = Ret v"
  shows "runs (arm_load_store ins) h s 0 (set_reg (unat (get_bits ins 15 12)) v s)"
  using assms by (rule runs_load)

theorem load_effect_witness:
  "runs (arm_load_store 0xE5923004) x86_host (sample [0, 0, 8, 9]) 0 (set_reg 3 0 (sample [0, 0, 8, 9]))"
  using load_effect [where s = "sample [0, 0, 8, 9]" and ins = "0xE5923004" and a = 12 and v = 0
      and h = x86_host]
  by (simp add: effective_address_def offset_field_def get_bits_eval usr_reg_def load_value_def
      load_word_def memory_read_word_def octet_def memory_create_def)

text \<open>
  A store (STR, STRB) writes the value of \<open>Rd\<close>, or its low byte, at the effective address and changes
  no register, not even the base register of the pre- and post-indexed modes.
\<close>

theorem store_effect:
  assumes "user_state s" "\<not> bit ins 20" "effective_address ins s = Some a"
    and "store_value (mem s) a (bit ins 22) (usr_reg s (ucast (get_bits ins 15 12))) = Ret m"
  shows "runs (arm_load_store ins) h s 0 (s\<lparr>mem := m\<rparr>)"
  using assms by (rule runs_store)

theorem store_effect_witness:
  "runs (arm_load_store 0xE5C23004) x86_host (sample [0, 0, 8, 9]) 0
     ((sample [0, 0, 8, 9])\<lparr>mem := memory_create ((replicate 64 0)[12 := 9]) 64 1\<rparr>)"
  using store_effect [where s = "sample [0, 0, 8, 9]" and ins = "0xE5C23004" and a = 12
      and m = "memory_create ((replicate 64 0)[12 := 9]) 64 1" and h = x86_host]
  by (simp add: effective_address_def offset_field_def get_bits_eval usr_reg_def store_value_def
      put_octet_def memory_create_def)

text \<open>
  C35: Where the encoding assigns no address (post-indexing with \<open>W\<close> set, or a register offset with bit 4
  set), the access reads the unassigned local variable.
\<close>

theorem unassigned_address:
  assumes "user_state s" "effective_address ins s = None"
  shows "arm_load_store ins h s = Undefined Uninitialised"
proof -
  have f: "(ucast (get_bits ins 15 12) :: u8) \<le> 15" "(ucast (get_bits ins 19 16) :: u8) \<le> 15"
    using field_less [of 15 12 ins] field_less [of 19 16 ins] by (simp_all add: word_le_nat_alt)
  have a: "ends (access_memory ins (ucast (get_bits ins 15 12)) None) h t (Undefined Uninitialised)"
    if "quiet_user t" for t :: "'a machine_scheme"
    using f that by (simp add: access_memory_def Let_def end_simps wp_simps read_local_def)
  have "ends (arm_load_store ins) h (quiet s) (Undefined Uninitialised)"
    using assms f a wp_access_address [of "quiet s"]
    by (simp add: arm_load_store_def Let_def end_simps wp_simps)
  from ends_quiet [OF resp_load_store(1) assms(1) this] show ?thesis by (simp add: ends_simps)
qed

theorem unassigned_address_witness:
  "arm_load_store 0xE4B23004 x86_host (sample [0, 0, 8, 9]) = Undefined Uninitialised"
  using unassigned_address [where s = "sample [0, 0, 8, 9]" and ins = "0xE4B23004" and h = x86_host]
  by (simp add: effective_address_def offset_field_def get_bits_eval)

text \<open>
  A word stored by STR is what LDR from the same address loads, for any two instructions whose
  addresses agree and lie in the memory.
\<close>

theorem store_then_load:
  assumes "user_state s" "\<not> bit str 20" "\<not> bit str 22" "bit ldr 20" "\<not> bit ldr 22"
    and "effective_address str s = Some a" "effective_address ldr s = Some a"
    and "in_block (mem s) a 4"
  shows "\<exists>m. runs (mseq (arm_load_store str) (arm_load_store ldr)) h s 0
    (set_reg (unat (get_bits ldr 15 12)) (usr_reg s (ucast (get_bits str 15 12))) (s\<lparr>mem := m\<rparr>))"
proof -
  let ?v = "usr_reg s (ucast (get_bits str 15 12))"
  obtain m where m: "store_word (mem s) a ?v = Ret m"
    using words.store_room [OF assms(8)] by blast
  have st: "runs (arm_load_store str) h s 0 (s\<lparr>mem := m\<rparr>)"
    using assms m by (intro runs_store) (simp_all add: store_value_def)
  have ld: "runs (arm_load_store ldr) h (s\<lparr>mem := m\<rparr>) 0
      (set_reg (unat (get_bits ldr 15 12)) ?v (s\<lparr>mem := m\<rparr>))"
    using assms words.load_store [OF m] by (intro runs_load) (simp_all add: load_value_def)
  show ?thesis by (rule exI, rule runs_bind [OF st resp_load_store(1) ld])
qed

theorem store_then_load_witness:
  "\<exists>m. runs (mseq (arm_load_store 0xE5821004) (arm_load_store 0xE5923004)) x86_host
     (sample [0, 7, 8]) 0 (set_reg 3 7 ((sample [0, 7, 8])\<lparr>mem := m\<rparr>))"
  using store_then_load [where s = "sample [0, 7, 8]" and str = "0xE5821004" and ldr = "0xE5923004"
      and a = 12 and h = x86_host]
  by (simp add: effective_address_def offset_field_def get_bits_eval usr_reg_def in_block_word
      memory_create_def)

end
