(* ===== verification/Steps.thy ===== *)
theory Steps
  imports Instruction Transfers
begin

unbundle bit_operations_syntax

text \<open>
  What one step of the simulator does, class of instruction by class, and what holds along
  every run.
\<close>

section \<open>Result codes\<close>

lemma opcode_cases: "unat op < 16 \<Longrightarrow> op \<in> {0, 1, 2, 3, 4, 5, 6, 7, 8, 9, 10, 11, 12, 13, 14, 15}" for op :: u8
proof -
  assume "unat op < 16"
  then have "unat op \<in> {0, 1, 2, 3, 4, 5, 6, 7, 8, 9, 10, 11, 12, 13, 14, 15}"
    unfolding insert_iff empty_iff by presburger
  then show ?thesis by (auto simp: word_unat_eq_iff)
qed

lemma yields_operations:
  "yields (\<lambda>r. r = 0) (and_op S Rd Rn so sco)" "yields (\<lambda>r. r = 0) (eor S Rd Rn so sco)"
  "yields (\<lambda>r. r = 0) (sub S Rd Rn so)" "yields (\<lambda>r. r = 0) (rsb S Rd Rn so)"
  "yields (\<lambda>r. r = 0) (add S Rd Rn so)" "yields (\<lambda>r. r = 0) (adc S Rd Rn so)"
  "yields (\<lambda>r. r = 0) (sbc S Rd Rn so)" "yields (\<lambda>r. r = 0) (rsc S Rd Rn so)"
  "yields (\<lambda>r. r = 0) (tst Rn so sco)" "yields (\<lambda>r. r = 0) (teq Rn so sco)"
  "yields (\<lambda>r. r = 0) (cmp Rn so)" "yields (\<lambda>r. r = 0) (cmn Rn so)"
  "yields (\<lambda>r. r = 0) (orr S Rd Rn so sco)" "yields (\<lambda>r. r = 0) (mov S Rd so sco)"
  "yields (\<lambda>r. r = 0) (bic S Rd Rn so sco)" "yields (\<lambda>r. r = 0) (mvn S Rd so sco)"
  unfolding operation_defs Let_def by (intro yld refl)+

lemma yields_data_processing:
  "yields (\<lambda>r. r = 0) (arm_data_processing_shift ins)"
  "yields (\<lambda>r. r = 0) (arm_data_processing_immediate_msr ins)"
proof -
  have "yields (\<lambda>r. r = 0) (run_operation (ucast (get_bits ins 24 21)) S Rn Rd so sco)" for S Rn Rd so sco
    using opcode_cases [of "ucast (get_bits ins 24 21)"] field_less [of 24 21 ins]
    unfolding run_operation_def by (auto intro: yields_operations)
  then have "yields (\<lambda>r. r = 0) (select_operation ins)"
    unfolding select_operation_def set_parameters_def Let_def mbind_assoc
    by (auto intro!: yields_bind simp: split: prod.splits)
  then show "yields (\<lambda>r. r = 0) (arm_data_processing_shift ins)"
    "yields (\<lambda>r. r = 0) (arm_data_processing_immediate_msr ins)"
    unfolding arm_data_processing_shift_def arm_data_processing_immediate_msr_def
    by (auto intro!: yields_bind_value yields_ret)
qed

lemma yields_load_store:
  "yields (\<lambda>r. r = 0) (arm_load_store ins)" "yields (\<lambda>r. r = 0) (arm_load_store_multiple ins)"
  unfolding arm_load_store_def arm_load_store_multiple_def Let_def by (intro yld refl)+

lemma yields_branch_other:
  "yields (\<lambda>r. r = 0) (arm_branch ins)" "yields (\<lambda>r. r = 2) (arm_miscellaneous ins)"
  "yields (\<lambda>r. r = 2 \<or> r = 3) (arm_coprocessor_others_swi ins)"
  unfolding branch_other_defs Let_def by (intro yld refl disjI1 disjI2 | simp add: yields_ret yields_exit)+

lemma yields_decode_class: "r \<in> {0, 2} \<Longrightarrow> yields (\<lambda>r. r \<in> {0, 2, 3}) (decode_class ins r)"
  unfolding decode_class_def arm_coprocessor_load_store_def Let_def
  by (intro yields_if yields_mono [OF yields_load_store(1)] yields_mono [OF yields_load_store(2)]
    yields_mono [OF yields_data_processing(1)] yields_mono [OF yields_data_processing(2)]
    yields_mono [OF yields_branch_other(1)] yields_mono [OF yields_branch_other(2)]
    yields_mono [OF yields_branch_other(3)] yields_ret) auto

lemma yields_execute: "yields (\<lambda>r. r \<in> {0, 2, 3}) arm_execute_instruction"
proof -
  have "yields (\<lambda>r. r \<in> {0, 2, 3}) arm_decode"
    unfolding arm_decode_def Let_def
    by (intro yields_bind yields_case_prod yields_decode_class) simp
  then show ?thesis
    unfolding arm_execute_instruction_def by (rule yields_bind_value) (intro yld)
qed

text \<open>So the exception raised for a nonzero result is never a reset, and does nothing.\<close>

lemma arm_step_decode: "arm_step = arm_decode"
proof -
  have "arm_step = mbind arm_execute_instruction ret"
    unfolding arm_step_def
    by (rule mbind_cong_yields [OF yields_execute]) (auto simp: mwhen_def arm_exception_def)
  then show ?thesis by (simp add: arm_execute_instruction_def mbind_ret_right)
qed

text \<open>
  A step returns 0, 2 or 3, and raising an exception for a nonzero result does nothing: a step is
  the decoding of one instruction.
\<close>

theorem step_results: "yields (\<lambda>r. r \<in> {0, 2, 3}) arm_step \<and> arm_step = arm_decode"
  using yields_execute
  by (simp add: arm_step_decode arm_execute_instruction_def mbind_ret_right)

section \<open>Fetching and decoding\<close>

text \<open>The state after the fetch: one more cycle, and the program counter advanced.\<close>

definition fetched :: "'z machine_scheme \<Rightarrow> 'z machine_scheme" where
  "fetched s = set_reg 15 (usr_reg s 15) (s\<lparr>cycle_count := cycle_count s + 1\<rparr>)"

definition fetch_address :: "'z machine_scheme \<Rightarrow> u32" where
  "fetch_address s = usr_reg s 15 - 4"

lemma mask_bit_1: "\<not> bit w 1 \<Longrightarrow> w AND 0xFFFFFFFD = w" for w :: u32
proof -
  assume w: "\<not> bit w 1"
  have "clr_bit w 1 = w" by (rule bit_word_eqI) (use w in \<open>auto simp: bit_clr_bit\<close>)
  moreover have "(0xFFFFFFFD :: u32) = NOT (push_bit 1 1)" by simp
  ultimately show ?thesis by (simp only: clr_bit_def)
qed

lemma bit_1_unat: "bit w 1 \<longleftrightarrow> odd (unat w div 2)" for w :: u32
  using bit_unsigned_iff [of w 1, where 'a = nat] by (simp add: bit_iff_odd)

lemma odd_div_2_cong: "a mod 4 = b mod 4 \<Longrightarrow> odd (a div 2) = odd (b div 2)" for a b :: nat
  by presburger

lemma pc_masked: "(usr_reg s 15 + 4) AND 0xFFFFFFFD = usr_reg s 15 + 4"
proof (rule mask_bit_1)
  have "unat (w + 4) mod 4 = unat w mod 4" for w :: u32
    by (simp add: unat_word_ariths mod_mod_cancel)
  from odd_div_2_cong [OF this]
  have "bit (usr_reg s 15 + 4) 1 \<longleftrightarrow> bit (usr_reg s 15) 1" unfolding bit_1_unat .
  moreover have "\<not> bit (usr_reg s 15) 1" by (simp add: usr_reg_def bit_simps)
  ultimately show "\<not> bit (usr_reg s 15 + 4) 1" by blast
qed

lemma fetched_simps [simp]:
  "user_state (fetched s) = user_state s" "quiet_user (fetched s) = quiet_user s"
  "mem (fetched s) = mem s" "quiet (fetched s) = fetched (quiet s)" "cpsr (fetched s) = cpsr s"
  "flag i (fetched s) = flag i s" "cond_ok c (fetched s) = cond_ok c s"
  "cycle_count (fetched s) = cycle_count s + 1"
  by (simp_all add: fetched_def cond_ok_def)

lemma fetch_address_quiet [simp]: "fetch_address (quiet s) = fetch_address s"
  by (simp add: fetch_address_def)

lemma usr_reg_fetched [simp]:
  "user_state s \<Longrightarrow> usr_reg (fetched s) 15 = fetch_address s + 8"
  "i < 15 \<Longrightarrow> usr_reg (fetched s) i = usr_reg s i"
proof -
  show "user_state s \<Longrightarrow> usr_reg (fetched s) 15 = fetch_address s + 8"
    using pc_masked [of s]
    by (simp add: fetched_def fetch_address_def usr_reg_def user_state_def wf_registers_def)
  show "i < 15 \<Longrightarrow> usr_reg (fetched s) i = usr_reg s i"
    by (auto simp: fetched_def word_less_nat_alt)
qed

lemma wp_arm_step:
  assumes "quiet_user s"
  shows "wp arm_step h Q s \<longleftrightarrow> (\<exists>ins. load_word (mem s) (fetch_address s) = Ret ins \<and>
    wp (decode_class ins (if cond_ok (ucast (get_bits ins 31 28)) s then 0 else 2)) h Q (fetched s))"
  using assms unfolding arm_step_decode arm_decode_def Let_def fetch_address_def
  by (auto simp: wp_simps fetched_def [symmetric] cond_ok_def flag_def get_bit_of_bool)

section \<open>The classes of instructions\<close>

lemma ucast_field_eq:
  "h - l < 8 \<Longrightarrow> (ucast (get_bits x h l) :: u8) = c \<longleftrightarrow> get_bits x h l = ucast c"
proof -
  assume "h - l < 8"
  moreover have "unat (ucast c :: u32) = unat c"
  proof -
    have "unat c < 256" using unsigned_less [of c] by simp
    then show ?thesis by (simp add: unsigned_ucast_eq take_bit_nat_eq_self)
  qed
  ultimately show "(ucast (get_bits x h l) :: u8) = c \<longleftrightarrow> get_bits x h l = ucast c"
    by (simp only: word_unat_eq_iff unat_field)
qed

lemma masked_fields:
  "(ucast (get_bits ins 24 23) :: u8) AND 0xF = ucast (get_bits ins 24 23)"
  "(of_bool b :: u8) AND 0xF = of_bool b"
proof -
  have m: "(0xF :: u8) = mask 4" by (simp add: mask_eq_exp_minus_1)
  show "(ucast (get_bits ins 24 23) :: u8) AND 0xF = ucast (get_bits ins 24 23)"
    unfolding m by (rule bit_word_eqI) (auto simp: bit_simps bit_get_bits)
  show "(of_bool b :: u8) AND 0xF = of_bool b" by (cases b) simp_all
qed

lemma decode_class_cases:
  "get_bits ins 27 25 = 0 \<Longrightarrow> decode_class ins r =
     (if get_bits ins 24 23 = 2 \<and> \<not> bit ins 20 then
        (if \<not> bit ins 4 \<or> \<not> bit ins 7 then arm_miscellaneous ins else ret r)
      else arm_data_processing_shift ins)"
  "get_bits ins 27 25 = 1 \<Longrightarrow> decode_class ins r = arm_data_processing_immediate_msr ins"
  "get_bits ins 27 25 = 2 \<Longrightarrow> decode_class ins r = arm_load_store ins"
  "get_bits ins 27 25 = 3 \<Longrightarrow> decode_class ins r = arm_load_store ins"
  "get_bits ins 27 25 = 4 \<Longrightarrow> decode_class ins r = arm_load_store_multiple ins"
  "get_bits ins 27 25 = 5 \<Longrightarrow> decode_class ins r = arm_branch ins"
  "get_bits ins 27 25 = 6 \<Longrightarrow> decode_class ins r = arm_coprocessor_load_store ins"
  "get_bits ins 27 25 = 7 \<Longrightarrow> decode_class ins r = arm_coprocessor_others_swi ins"
  by (simp_all add: decode_class_def Let_def ucast_field_eq masked_fields)

lemma class_range: "get_bits ins 27 25 \<in> {0, 1, 2, 3, 4, 5, 6, 7}"
proof -
  have "unat (get_bits ins 27 25) < 8" using get_bits_less [of 27 25 ins] by simp
  then have "unat (get_bits ins 27 25) \<in> {0, 1, 2, 3, 4, 5, 6, 7}"
    unfolding insert_iff empty_iff by presburger
  then show ?thesis by (auto simp: word_unat_eq_iff)
qed

section \<open>Steps by class of instruction\<close>

lemma runs_step:
  assumes "user_state s" "load_word (mem s) (fetch_address s) = Ret ins"
    and "runs (decode_class ins (if cond_ok (ucast (get_bits ins 31 28)) s then 0 else 2)) h (fetched s) r s'"
  shows "runs arm_step h s r s'"
  using assms
  by (simp add: runs_iff_quiet [OF resp_decode(4)] runs_iff_quiet [OF resp_decode(1)] wp_arm_step
      fetch_address_def cond_ok_def)

text \<open>
  C1: If the word at the fetch address is \<open>ins\<close>, a step counts a cycle, advances the program counter and
  does what the function selected for \<open>ins\<close> does, with the same result.
\<close>

theorem step_executes:
  assumes "user_state s" "load_word (mem s) (fetch_address s) = Ret ins"
    and "runs (decode_class ins (if cond_ok (ucast (get_bits ins 31 28)) s then 0 else 2)) h (fetched s) r s'"
  shows "runs arm_step h s r s'"
  using assms by (rule runs_step)

lemma fetch_loaded: "fetch_address (loaded bs []) = 0"
  by (simp add: fetch_address_def usr_reg_def)

lemma load_first_word [simp]:
  "load_word (memory_create (a # b # c # d # bs) sz 1) 0 =
     Ret (push_bit 24 (ucast a) OR push_bit 16 (ucast b) OR push_bit 8 (ucast c) OR ucast d)"
  by (simp add: load_word_def memory_read_word_def octet_def memory_create_def)

lemma ends_arm_step:
  assumes "quiet_user s" "load_word (mem s) (fetch_address s) = Ret ins"
  shows "ends arm_step h s e \<longleftrightarrow>
    ends (decode_class ins (if cond_ok (ucast (get_bits ins 31 28)) s then 0 else 2)) h (fetched s) e"
proof -
  have "\<not> ends (arm_fetch None) h s e"
    using assms by (auto simp: arm_fetch_def Let_def end_simps wp_simps fetch_address_def
        memory_read_word_load)
  then show ?thesis
    using assms unfolding arm_step_decode arm_decode_def Let_def fetch_address_def
    by (simp add: end_simps wp_simps fetched_def [symmetric] cond_ok_def flag_def get_bit_of_bool)
qed

text \<open>
  The condition of an instruction does not decide whether it is executed: a failed condition only
  changes the initial result, which every class overwrites, except the encodings in the
  miscellaneous class with bits 4 and 7 set, for which nothing is executed.
\<close>

theorem condition_ignored:
  assumes "\<not> (get_bits ins 27 25 = 0 \<and> get_bits ins 24 23 = 2 \<and> \<not> bit ins 20 \<and> bit ins 4 \<and> bit ins 7)"
  shows "decode_class ins 2 = decode_class ins 0"
  using class_range [of ins] assms by (elim insertE emptyE) (auto simp: decode_class_cases)

theorem condition_ignored_witness: "decode_class 0x03A01007 2 = decode_class 0x03A01007 0"
  by (rule condition_ignored) (simp add: get_bits_eval)

section \<open>Branches, status reads and software interrupts\<close>

text \<open>Four times the signed 24-bit offset of the instruction.\<close>

definition branch_offset :: "u32 \<Rightarrow> u32" where
  "branch_offset ins = word_of_int (4 * sint (ucast ins :: 24 word))"

lemma branch_operand:
  "push_bit 2 (get_bits ins 23 0 OR (if bit ins 23 then 0x3F000000 else 0)) = branch_offset ins"
proof -
  have "branch_offset ins = 4 * scast (ucast ins :: 24 word)"
    unfolding branch_offset_def by simp
  also have "\<dots> = push_bit 2 (scast (ucast ins :: 24 word))" 
    by (simp add: push_bit_eq_mult)
  also have "\<dots> = push_bit 2 (get_bits ins 23 0 OR (if bit ins 23 then 0x3F000000 else 0))"
  proof (rule bit_word_eqI)
    fix i assume i: "i < LENGTH(32)"
    have "bit (0x3F000000 :: u32) j \<longleftrightarrow> 24 \<le> j \<and> j < 30" for j
    proof -
      have "(0x3F000000 :: u32) = push_bit 24 (mask 6)" by (simp add: mask_eq_exp_minus_1)
      then show ?thesis by (simp only: bit_simps) auto
    qed
    note b = this
    have l: "bit (scast (ucast ins :: 24 word) :: u32) j \<longleftrightarrow> j < 32 \<and> bit ins (min j 23)" for j
      by (simp add: bit_simps min_def)
    have r: "bit (get_bits ins 23 0 OR (if bit ins 23 then 0x3F000000 else 0)) j \<longleftrightarrow>
      (j < 24 \<and> bit ins j) \<or> (bit ins 23 \<and> 24 \<le> j \<and> j < 30)" for j
    proof (cases "bit ins 23")
      case True then show ?thesis by (simp only: bit_or_iff if_True b) (auto simp: bit_get_bits)
    next
      case False then show ?thesis by (auto simp: bit_get_bits)
    qed
    from i show "bit (push_bit 2 (scast (ucast ins :: 24 word)) :: u32) i =
      bit (push_bit 2 (get_bits ins 23 0 OR (if bit ins 23 then 0x3F000000 else 0))) i"
      unfolding bit_push_bit_iff l r by (auto simp: min_def not_le)
  qed
  finally show ?thesis by simp
qed

lemma wp_arm_branch:
  "quiet_user s \<Longrightarrow> wp (arm_branch ins) h Q s \<longleftrightarrow>
    Q 0 (set_reg 15 (usr_reg s 15 + branch_offset ins)
      (if bit ins 24 then set_reg 14 (usr_reg s 15) s else s))"
  by (auto simp: arm_branch_def Let_def wp_simps branch_operand [symmetric])

text \<open>
  C34: A branch adds four times the signed 24-bit offset to the address of the instruction plus 8, as the
  architecture does, but whatever its condition; BL sets the link register to the address plus 8,
  where the return address is the address plus 4.
\<close>

theorem step_branch:
  assumes "user_state s" "load_word (mem s) (fetch_address s) = Ret ins" "get_bits ins 27 25 = 5"
  shows "runs arm_step h s 0 (set_reg 15 (fetch_address s + 8 + branch_offset ins)
    (if bit ins 24 then set_reg 14 (fetch_address s + 8) (fetched s) else fetched s))"
  using assms
  by (intro runsI resp_decode) (simp_all add: wp_arm_step fetch_address_def decode_class_cases
      wp_arm_branch usr_reg_fetched(1) [unfolded fetch_address_def])

theorem step_branch_witness:
  "runs arm_step x86_host (loaded [0x0B, 0xFF, 0xFF, 0xFE] []) 0
     (set_reg 15 0 (set_reg 14 8 (fetched (loaded [0x0B, 0xFF, 0xFF, 0xFE] []))))"
proof -
  have o: "branch_offset 0x0BFFFFFE = -8" by code_simp
  show ?thesis
    using step_branch [of "loaded [0x0B, 0xFF, 0xFF, 0xFE] []" "0x0BFFFFFE" x86_host]
    by (simp add: fetch_loaded o get_bits_eval)
qed

theorem step_executes_witness:
  "runs arm_step x86_host (loaded [0xEA, 0, 0, 2] []) 0
     (set_reg 15 16 (fetched (loaded [0xEA, 0, 0, 2] [])))"
proof (rule step_executes [where ins = "0xEA000002"])
  have o: "branch_offset 0xEA000002 = 8" by code_simp
  show "runs (decode_class 0xEA000002 (if cond_ok (ucast (get_bits 0xEA000002 31 28))
        (loaded [0xEA, 0, 0, 2] []) then 0 else 2)) x86_host (fetched (loaded [0xEA, 0, 0, 2] [])) 0
      (set_reg 15 16 (fetched (loaded [0xEA, 0, 0, 2] [])))"
    by (intro runsI resp_decode) (simp_all add: decode_class_cases get_bits_eval wp_arm_branch o
        usr_reg_fetched fetch_loaded)
qed (simp_all add: fetch_loaded)

lemma ends_arm_read_spsr [end_simps]:
  "quiet_user s \<Longrightarrow> ends arm_read_spsr h s e \<longleftrightarrow> e = Exit 1"
  by (auto simp: arm_read_spsr_def end_simps wp_simps no_spsr_in_USR quiet_user_def user_state_def)

text \<open>
  MRS of the current status register copies it to \<open>Rd\<close> but returns the code of an undefined
  instruction; MRS of the saved one ends the simulator with status 1.
\<close>

theorem step_mrs:
  assumes "user_state s" "load_word (mem s) (fetch_address s) = Ret ins" "get_bits ins 27 25 = 0"
    and "get_bits ins 24 23 = 2" "\<not> bit ins 20" "\<not> bit ins 4 \<or> \<not> bit ins 7"
  shows "if bit ins 22 then arm_step h s = Exit 1
    else runs arm_step h s 2 (set_reg (unat (get_bits ins 15 12)) (cpsr s) (fetched s))"
proof -
  have f: "(ucast (get_bits ins 15 12) :: u8) \<le> 15"
    using field_less [of 15 12 ins] by (simp add: word_le_nat_alt)
  show ?thesis
  proof (cases "bit ins 22")
    case True
    with assms have "ends arm_step h (quiet s) (Exit 1)"
      by (simp add: ends_arm_step fetch_address_def decode_class_cases arm_miscellaneous_def end_simps)
    from ends_quiet [OF resp_decode(4) assms(1) this] True show ?thesis by (simp add: ends_simps)
  next
    case False
    with assms f unat_field [of 15 12 ins] show ?thesis
      by (simp, intro runsI resp_decode)
        (simp_all add: wp_arm_step fetch_address_def decode_class_cases arm_miscellaneous_def wp_simps)
  qed
qed

theorem step_mrs_witness:
  "runs arm_step x86_host (loaded [0xE1, 0x0F, 0x10, 0] []) 2
     (set_reg 1 0 (fetched (loaded [0xE1, 0x0F, 0x10, 0] [])))"
  using step_mrs [of "loaded [0xE1, 0x0F, 0x10, 0] []" "0xE10F1000" x86_host]
  by (simp add: fetch_loaded get_bits_eval cpsr_def nth_append)

lemma high_bits: "x mod 16 = 15 \<Longrightarrow> x div 2 mod 8 = 7" for x :: nat
  by presburger

text \<open>
  SWI 0x123456 ends the simulator with status 0; any other software interrupt only fetches and
  returns 3.
\<close>

theorem step_swi:
  assumes "user_state s" "load_word (mem s) (fetch_address s) = Ret ins" "get_bits ins 27 24 = 15"
  shows "if ins AND 0xFFFFFF = 0x123456 then arm_step h s = Exit 0 else runs arm_step h s 3 (fetched s)"
proof -
  have "unat (get_bits ins 27 24) = 15" using assms(3) by simp
  then have u: "unat ins div 2 ^ 24 mod 16 = 15" by (simp add: unat_get_bits)
  have c: "get_bits ins 27 25 = 7"
  proof -
    have "unat (get_bits ins 27 25) = unat ins div 2 ^ 24 div 2 mod 8"
      by (simp add: unat_get_bits div_mult2_eq [symmetric])
    also have "\<dots> = 7" using u by (rule high_bits)
    finally show ?thesis by (simp add: word_unat_eq_iff)
  qed
  have b: "bit ins 24"
  proof -
    have "bit (get_bits ins 27 24) 0" unfolding assms(3) by simp
    then show ?thesis by (simp add: bit_get_bits)
  qed
  show ?thesis
  proof (cases "ins AND 0xFFFFFF = 0x123456")
    case True
    with assms b c have "ends arm_step h (quiet s) (Exit 0)"
      by (simp add: ends_arm_step fetch_address_def decode_class_cases arm_coprocessor_others_swi_def
          end_simps)
    from ends_quiet [OF resp_decode(4) assms(1) this] True show ?thesis by (simp add: ends_simps)
  next
    case False
    with assms b c show ?thesis
      by (simp, intro runsI resp_decode) (simp_all add: wp_arm_step fetch_address_def
          decode_class_cases arm_coprocessor_others_swi_def wp_simps)
  qed
qed

theorem step_swi_witness: "arm_step x86_host (loaded [0xEF, 0x12, 0x34, 0x56] []) = Exit 0"
  using step_swi [of "loaded [0xEF, 0x12, 0x34, 0x56] []" "0xEF123456" x86_host]
  by (simp add: fetch_loaded get_bits_eval)

section \<open>Data-processing steps\<close>

text \<open>
  C2: A data-processing instruction (immediate form, or register form outside the miscellaneous class)
  reads its second operand from the shifter and then performs the operation its opcode selects,
  whatever its condition. Multiplications and halfword transfers, whose bits 4 and 7 are set,
  are executed as data processing too.
\<close>

theorem step_data_processing:
  assumes "user_state s" "load_word (mem s) (fetch_address s) = Ret ins"
    and "get_bits ins 27 25 = 1 \<or>
      (get_bits ins 27 25 = 0 \<and> \<not> (get_bits ins 24 23 = 2 \<and> \<not> bit ins 20))"
    and "runs (write_shift_operand_sco ins (0, 0)) h (fetched s) (so, sco) s1"
    and "runs (run_operation (ucast (get_bits ins 24 21)) (of_bool (bit ins 20))
      (ucast (get_bits ins 19 16)) (ucast (get_bits ins 15 12)) so sco) h s1 0 s'"
  shows "runs arm_step h s 0 s'"
proof (rule runs_step [OF assms(1,2)])
  have sel: "runs (select_operation ins) h (fetched s) 0 s'"
    unfolding select_operation_def set_parameters_def Let_def mbind_assoc
    by (rule runs_bind [OF assms(4)]) (use assms(5) in \<open>simp_all add: resp_run_operation\<close>)
  have r0: "respecting same_core (ret (sint (0 :: u32)))" by (rule resp)
  have u: "user_state s'" using sel by (auto simp: runs_def same_core_def)
  have "runs (mbind (select_operation ins) (\<lambda>result. ret (sint result))) h (fetched s) 0 s'"
    by (rule runs_bind [OF sel, where f = "\<lambda>result. ret (sint result)"])
      (use r0 u in \<open>simp_all add: runs_def ret_def same_core_refl\<close>)
  with assms(3) show "runs (decode_class ins (if cond_ok (ucast (get_bits ins 31 28)) s then 0 else 2))
      h (fetched s) 0 s'"
    by (auto simp: decode_class_cases arm_data_processing_shift_def
        arm_data_processing_immediate_msr_def)
qed

theorem step_data_processing_witness:
  "runs arm_step x86_host (loaded [0x03, 0xA0, 0x10, 0x07] []) 0
     (set_reg 1 7 (fetched (loaded [0x03, 0xA0, 0x10, 0x07] [])))"
proof -
  let ?s = "loaded [0x03, 0xA0, 0x10, 0x07] [] :: machine"
  have so: "runs (write_shift_operand_sco 0x03A01007 (0, 0)) x86_host (fetched ?s) (7, 0) (fetched ?s)"
    by (intro runs_shifter)
      (simp_all add: wp_rotated_immediate(2) get_bits_eval x86_host_def flag_loaded)
  have "runs (run_operation 13 0 0 1 7 0) x86_host (fetched ?s) 0 (set_reg 1 7 (fetched ?s))"
    by (intro runsI resp_run_operation)
      (simp_all add: wp_operation arm_alu_def alu_state_def)
  then show ?thesis
    using step_data_processing [OF _ _ _ so] by (simp add: fetch_loaded get_bits_eval)
qed

section \<open>Runs of the simulator\<close>

text \<open>\<open>steps h n s t\<close>: the machine goes from \<open>s\<close> to \<open>t\<close> in \<open>n\<close> steps that all return.\<close>

inductive steps :: "host \<Rightarrow> nat \<Rightarrow> 'z machine_scheme \<Rightarrow> 'z machine_scheme \<Rightarrow> bool" where
  steps_0: "steps h 0 s s"
| steps_Suc: "arm_step h s = Ret (r, t) \<Longrightarrow> steps h n t u \<Longrightarrow> steps h (Suc n) s u"

inductive_simps steps_0_iff [simp]: "steps h 0 s t"
inductive_simps steps_Suc_iff: "steps h (Suc n) s t"
inductive_cases steps_SucE: "steps h (Suc n) s t"

lemma steps_invariant:
  assumes "clock_free_invariant I" "steps h n s t" "I s"
  shows "I t"
  using assms(2,3)
proof (induction rule: steps.induct)
  case (steps_Suc h s r t n u)
  then have "I t"
    using preservesD [OF clock_free_invariant.pres_decode(3) [OF assms(1)]] by blast
  then show ?case using steps_Suc.IH by simp
qed simp

lemma step_cycle: "arm_step h s = Ret (r, t) \<Longrightarrow> cycle_count t = cycle_count s + 1"
proof -
  let ?s1 = "s\<lparr>cycle_count := cycle_count s + 1\<rparr>"
  define rest :: "('a, int) arm" where "rest =
    mbind (mbind (arm_read_register 15) (\<lambda>pc.
     let address = pc - 4 in
     mbind (gets mem) (\<lambda>m.
     mbind (lift_o (memory_read_word m address None)) (\<lambda>(result, value).
     mbind (read_local value) (\<lambda>v.
     mseq (tr_memory READ 4 OPCODE_FETCH address v)
     (mseq (arm_write_register 15 (address + 4))
     (ret (result, v))))))))
    (\<lambda>(_, instruction).
     let cond = ucast (get_bits instruction 31 28) in
     mbind arm_read_cpsr (\<lambda>cpsr.
     let flag_N = ucast (get_bit cpsr bit_N); flag_Z = ucast (get_bit cpsr bit_Z);
         flag_C = ucast (get_bit cpsr bit_C); flag_V = ucast (get_bit cpsr bit_V);
         result = (if \<not> condition_OK cond flag_N flag_Z flag_C flag_V then 2 else 0) in
     decode_class instruction result))"
  have split: "arm_step = mseq (modify (\<lambda>s. s\<lparr>cycle_count := cycle_count s + 1\<rparr>)) rest"
    unfolding arm_step_decode arm_decode_def arm_fetch_def rest_def mbind_assoc ..
  have "preserves (\<lambda>s. cycle_count s = cycle_count ?s1) rest"
    unfolding rest_def Let_def by (intro pres)
  moreover assume "arm_step h s = Ret (r, t)"
  then have "rest h ?s1 = Ret (r, t)" by (simp add: split mbind_def modify_def)
  ultimately show ?thesis by (auto dest: preservesD)
qed

text \<open>
  C25: Every run of the simulator keeps the state well-formed: 37 registers, user mode, a memory of
  unchanged size and byte order, a well-formed trace module; and it counts its steps, modulo
  \<open>2\<^sup>3\<^sup>2\<close>. Fields the state is extended with are not touched.
\<close>

theorem runs_invariant:
  assumes "steps h n s t" "sim_inv sz be s"
  shows "sim_inv sz be t \<and> cycle_count t = cycle_count s + of_nat n \<and> machine.more t = machine.more s"
proof (intro conjI)
  show "sim_inv sz be t" using steps_invariant [OF sim.clock_free_invariant_axioms assms] .
  show "machine.more t = machine.more s"
    using steps_invariant [OF more.clock_free_invariant_axioms assms(1)] by blast
  from assms(1) show "cycle_count t = cycle_count s + of_nat n"
    by (induction rule: steps.induct) (auto dest: step_cycle)
qed

lemma branch_to_self:
  "runs arm_step x86_host (loaded [0xEA, 0xFF, 0xFF, 0xFE] []) 0
     (set_reg 15 0 (fetched (loaded [0xEA, 0xFF, 0xFF, 0xFE] [])))"
proof -
  have o: "branch_offset 0xEAFFFFFE = -8" by code_simp
  show ?thesis
    by (rule runs_step [where ins = "0xEAFFFFFE"]; (intro runsI resp_decode)?)
      (simp_all add: fetch_loaded decode_class_cases get_bits_eval wp_arm_branch o)
qed

theorem runs_invariant_witness:
  "\<exists>t. steps x86_host 1 (loaded [0xEA, 0xFF, 0xFF, 0xFE] []) t \<and> sim_inv 64 1 t \<and> cycle_count t = 1"
proof -
  obtain t where "arm_step x86_host (loaded [0xEA, 0xFF, 0xFF, 0xFE] []) = Ret (0, t)"
    using branch_to_self by (auto simp: runs_def)
  then have "steps x86_host 1 (loaded [0xEA, 0xFF, 0xFF, 0xFE] []) t"
    by (simp add: steps_Suc_iff)
  moreover have "sim_inv 64 1 (loaded [0xEA, 0xFF, 0xFF, 0xFE] [])"
    by (simp add: sim_inv_def memory_create_def wf_memory_def)
  ultimately show ?thesis using runs_invariant by fastforce
qed

text \<open>
  C24: Tracing has no influence on a run: from two user-mode states that differ only in the data of the
  trace module, runs of the same length end in states that differ only there.
\<close>

theorem trace_independent:
  assumes "steps h n s s'" "same_core s t"
  shows "\<exists>t'. steps h n t t' \<and> same_core s' t'"
  using assms
proof (induction arbitrary: t rule: steps.induct)
  case (steps_Suc h s r s1 n s')
  have "outcome_rel same_core (arm_step h s) (arm_step h t)"
    using resp_decode(4) steps_Suc.prems unfolding respecting_def by blast
  with steps_Suc.hyps(1) obtain t1 where t1: "arm_step h t = Ret (r, t1)" "same_core s1 t1"
    by (auto simp: outcome_rel_def split: outcome.splits)
  then show ?case using steps_Suc.IH [OF t1(2)] steps.steps_Suc by blast
qed auto



theorem trace_independent_witness:
  "\<exists>s t. steps x86_host 1 (loaded [0xEA, 0xFF, 0xFF, 0xFE] []) s \<and>
     steps x86_host 1 (quiet (loaded [0xEA, 0xFF, 0xFF, 0xFE] [])) t \<and> same_core s t"
proof -
  obtain s where "arm_step x86_host (loaded [0xEA, 0xFF, 0xFF, 0xFE] []) = Ret (0, s)"
    using branch_to_self by (auto simp: runs_def)
  then have "steps x86_host 1 (loaded [0xEA, 0xFF, 0xFF, 0xFE] []) s"
    by (simp add: steps_Suc_iff)
  from trace_independent [OF this same_core_quiet] this show ?thesis by auto
qed

end
