(* ===== verification/Printing.thy ===== *)
theory Printing
  imports Steps
begin

unbundle bit_operations_syntax

text \<open>
  What the debugger does between two steps: switch tracing off and on and print the state of
  the processor. None of it has an influence on registers, memory and cycle count, and the
  printing returns.
\<close>

section \<open>Switching the trace\<close>

definition set_trace :: "(trace_data \<Rightarrow> trace_data) \<Rightarrow> ('z, unit) arm" where
  "set_trace f = modify (\<lambda>s. s\<lparr>trc := f (trc s)\<rparr>)"

section \<open>Programs that only trace\<close>

definition only_traces :: "('z, 'a) arm \<Rightarrow> bool" where
  "only_traces m \<longleftrightarrow> (\<forall>h s. user_state s \<longrightarrow> (\<exists>v t. m h s = Ret (v, t) \<and> same_core t s))"

named_theorems trc_only

lemma only_traces_ret [trc_only]: "only_traces (ret v)"
  by (simp add: only_traces_def ret_def same_core_refl)

lemma only_traces_bind [trc_only]:
  fixes m :: "('z, 'a) arm"
  assumes "only_traces m" "\<And>v. only_traces (f v)"
  shows "only_traces (mbind m f)"
  unfolding only_traces_def
proof (intro allI impI)
  fix h and s :: "'z machine_scheme" assume s: "user_state s"
  with assms(1) obtain v t where t: "m h s = Ret (v, t)" "same_core t s"
    unfolding only_traces_def by blast
  then have "user_state t" by (simp add: same_core_def)
  with assms(2) obtain w u where "f v h t = Ret (w, u)" "same_core u t"
    unfolding only_traces_def by blast
  with t show "\<exists>v t. mbind m f h s = Ret (v, t) \<and> same_core t s"
    by (auto simp: mbind_def intro: same_core_trans)
qed

lemma only_traces_when [trc_only]: "only_traces m \<Longrightarrow> only_traces (mwhen b m)"
  by (simp add: mwhen_def only_traces_ret)

lemma only_traces_if [trc_only]:
  "(b \<Longrightarrow> only_traces m) \<Longrightarrow> (\<not> b \<Longrightarrow> only_traces n) \<Longrightarrow> only_traces (if b then m else n)"
  by simp

lemma only_traces_gets [trc_only]: "only_traces (gets f)"
  by (simp add: only_traces_def gets_def same_core_refl)

lemma only_traces_lift: "m = Ret v \<Longrightarrow> only_traces (lift_o m)"
  by (simp add: only_traces_ret)

lemma only_traces_set_trace [trc_only]:
  assumes "\<And>t. wf_trace t \<Longrightarrow> wf_trace (f t)"
  shows "only_traces (set_trace f)"
  using assms by (auto simp: only_traces_def set_trace_def modify_def same_core_def user_state_def)

lemma only_traces_printf [trc_only]: "only_traces (printf_trace i)"
  by (auto simp: only_traces_def printf_trace_def print_item_def modify_def same_core_def user_state_def)

lemma only_traces_runs:
  assumes "\<And>s. user_state s \<Longrightarrow> \<exists>v. runs m h s v s"
  shows "user_state s \<Longrightarrow> \<exists>v t. m h s = Ret (v, t) \<and> same_core t s"
  using assms by (fastforce simp: runs_def)

lemma only_traces_reads [trc_only]:
  "rg \<le> 15 \<Longrightarrow> only_traces (arm_read_register rg)"
  "rg \<le> 15 \<Longrightarrow> only_traces (arm_read_usr_register rg)"
  "only_traces arm_read_cpsr"
  unfolding only_traces_def
  by (intro allI impI only_traces_runs exI runsI resp; simp add: wp_arm_registers)+

text \<open>A program that only traces respects the core and is a run that stays where it is.\<close>

lemma only_traces_respecting:
  fixes m :: "('z, unit) arm"
  assumes "only_traces m" shows "respecting same_core m"
  unfolding respecting_def
proof (intro allI impI)
  fix h :: host and s t :: "'z machine_scheme" assume st: "same_core s t"
  then have "user_state s" "user_state t" by (simp_all add: same_core_def)
  with assms obtain s' t' where "m h s = Ret ((), s')" "same_core s' s"
    "m h t = Ret ((), t')" "same_core t' t"
    unfolding only_traces_def by (metis old.unit.exhaust)
  with st show "outcome_rel same_core (m h s) (m h t)"
    by (auto intro: same_core_trans same_core_sym)
qed

lemma only_traces_runs_unit:
  fixes m :: "('z, unit) arm"
  shows "only_traces m \<Longrightarrow> user_state s \<Longrightarrow> runs m h s () s"
  unfolding only_traces_def runs_def by (metis old.unit.exhaust)

section \<open>Printing the state\<close>

lemma register_number: "i < 16 \<Longrightarrow> (of_nat i :: u8) \<le> 15" for i :: nat
  by (simp add: word_le_nat_alt unat_of_nat)

lemma names_defined:
  "i < 16 \<Longrightarrow> \<exists>n. arm_get_register_name (of_nat i) = Ret n"
  "i < 32 \<Longrightarrow> \<exists>n. arm_get_mode_name (of_nat i) = Ret n"
  by (simp_all add: arm_get_register_name_defined arm_get_mode_name_defined word_less_nat_alt
      unat_of_nat)

lemma only_traces_print_registers:
  "\<forall>i \<in> set is. i < 16 \<Longrightarrow> only_traces (print_registers md is count)"
proof (induction "is" arbitrary: count)
  case (Cons i "is")
  then have i: "i < 16" by simp
  then obtain n where "arm_get_register_name (of_nat i) = Ret n" using names_defined by blast
  with Cons i show ?case
    by (auto intro!: trc_only simp: register_number simp del: of_nat_numeral)
qed (simp add: only_traces_ret)

lemma only_traces_print_modes: "\<forall>i \<in> set mds. i < 32 \<Longrightarrow> only_traces (print_modes mds)"
proof (induction mds)
  case (Cons md mds)
  then obtain n where n: "arm_get_mode_name (of_nat md) = Ret n"
    using names_defined [of md] by auto
  have "only_traces (print_registers (of_nat md) [0..<16] 0)"
    by (rule only_traces_print_registers) simp
  with Cons n show ?case
    by (cases n) (auto intro!: trc_only)
qed (simp add: only_traces_ret)

lemma only_traces_trace_arm_state [trc_only]: "only_traces trace_arm_state"
  unfolding trace_arm_state_def arm_print_state_def
  by (intro trc_only only_traces_print_modes) simp

text \<open>Every invariant of the machine is kept.\<close>

context machine_invariant
begin

lemma preserves_set_trace:
  assumes "\<And>t. wf_trace t \<Longrightarrow> wf_trace (f t)"
  shows "preserves I (set_trace f)"
  unfolding set_trace_def by (rule preserves_modify, rule inv_trace) (auto intro: assms)

lemma preserves_printf_trace [pres]: "preserves I (printf_trace i)"
  unfolding printf_trace_def
  by (rule preserves_modify, rule inv_trace) (auto simp: print_item_def)

lemma preserves_print_registers [pres]: "preserves I (print_registers md is count)"
  by (induction md "is" count rule: print_registers.induct) (auto intro!: pres)

lemma preserves_print_modes [pres]: "preserves I (print_modes mds)"
proof (induction mds)
  case (Cons md mds)
  then show ?case
    by (auto intro!: pres split: option.split)
qed (simp add: preserves_ret)

lemma preserves_printing [pres]:
  "preserves I trace_arm_state" "preserves I (set_trace trace_disable)" "preserves I (set_trace trace_enable)"
  unfolding trace_arm_state_def arm_print_state_def
  by (intro pres preserves_set_trace; simp add: trace_disable_def trace_enable_def)+

end

lemma switch_trace [trc_only]:
  "only_traces (set_trace trace_disable)" "only_traces (set_trace trace_enable)"
  by (rule only_traces_set_trace; simp add: trace_disable_def trace_enable_def)+

lemmas resp_trace [resp] =
  only_traces_respecting [OF only_traces_trace_arm_state]
  only_traces_respecting [OF switch_trace(1)] only_traces_respecting [OF switch_trace(2)]

lemmas runs_trace =
  only_traces_runs_unit [OF only_traces_trace_arm_state]
  only_traces_runs_unit [OF switch_trace(1)] only_traces_runs_unit [OF switch_trace(2)]

end
