(* ===== verification/C_Strings.thy ===== *)
theory C_Strings
  imports Util
begin

unbundle bit_operations_syntax

text \<open>
  The parts of the C library the debugger protocol uses on character arrays: strings up to
  their terminator, \<open>sscanf\<close> with \<open>%x\<close>, \<open>atoi\<close>, \<open>index\<close> and \<open>sprintf\<close> with \<open>%02x\<close>. An
  array is the list of its bytes from a pointer on; nothing is known of what lies behind it.
\<close>

section \<open>Strings\<close>

definition bytes :: "string \<Rightarrow> u8 list" where
  "bytes s = map of_char s"

definition cstring :: "u8 list \<Rightarrow> u8 list outcome" where
  "cstring s = (if 0 \<in> set s then Ret (takeWhile (\<lambda>c. c \<noteq> 0) s) else Undefined Bad_string)"

text \<open>\<open>index\<close>: the array from the first occurrence of a character on, if there is one.\<close>

definition c_index :: "u8 \<Rightarrow> u8 list \<Rightarrow> u8 list option outcome" where
  "c_index c s = obind (cstring s) (\<lambda>t.
     Ret (if c \<in> set t then Some (dropWhile (\<lambda>d. d \<noteq> c) s) else None))"

definition byte_at :: "u8 list \<Rightarrow> nat \<Rightarrow> u8 outcome" where
  "byte_at s i = (if i < length s then Ret (s ! i) else Undefined Out_of_bounds)"

section \<open>Numbers\<close>

definition is_space :: "u8 \<Rightarrow> bool" where
  "is_space c \<longleftrightarrow> c = 32 \<or> 9 \<le> c \<and> c \<le> 13"

definition is_digit :: "u8 \<Rightarrow> bool" where
  "is_digit c \<longleftrightarrow> 48 \<le> c \<and> c \<le> 57"

definition is_hex :: "u8 \<Rightarrow> bool" where
  "is_hex c \<longleftrightarrow> is_digit c \<or> 97 \<le> c \<and> c \<le> 102 \<or> 65 \<le> c \<and> c \<le> 70"

definition digit_value :: "u8 \<Rightarrow> nat" where
  "digit_value c = (if is_digit c then unat c - 48
     else if 97 \<le> c then unat c - 87 else unat c - 55)"

definition number :: "nat \<Rightarrow> u8 list \<Rightarrow> nat" where
  "number base ds = foldl (\<lambda>n d. base * n + digit_value d) 0 ds"

definition split_sign :: "u8 list \<Rightarrow> bool \<times> u8 list" where
  "split_sign s = (case s of [] \<Rightarrow> (False, [])
     | c # cs \<Rightarrow> if c = 45 then (True, cs) else if c = 43 then (False, cs) else (False, s))"

definition skip_0x :: "u8 list \<Rightarrow> u8 list" where
  "skip_0x s = (case s of a # b # cs \<Rightarrow> if a = 48 \<and> (b = 120 \<or> b = 88) then cs else s | _ \<Rightarrow> s)"

text \<open>
  The conversion \<open>%x\<close>, with a field width or without: \<open>None\<close> where the input does not
  match, otherwise the value and the rest of the input. As the C standard has it, a prefix
  \<open>0x\<close> without a digit does not match, and a value the variable cannot hold is undefined.
\<close>

definition scan_hex :: "nat option \<Rightarrow> u8 list \<Rightarrow> (u32 \<times> u8 list) option outcome" where
  "scan_hex width s =
     (let s = dropWhile is_space s;
          field = (case width of None \<Rightarrow> s | Some n \<Rightarrow> take n s);
          (negative, body) = split_sign field;
          body = skip_0x body;
          ds = takeWhile is_hex body;
          v = number 16 ds in
      if ds = [] then Ret None
      else if v < 2 ^ 32 then
        Ret (Some (if negative then - of_nat v else of_nat v,
          drop (length field - length body + length ds) s))
      else Undefined Value_range)"

text \<open>\<open>sscanf(s, "%x", &v)\<close>, also with a width, and \<open>sscanf(s, "%x,%x", &v, &w)\<close>: the
  variables before the call and after it.\<close>

definition scan_x :: "nat option \<Rightarrow> u8 list \<Rightarrow> u32 option \<Rightarrow> u32 option outcome" where
  "scan_x width s v = obind (cstring s) (\<lambda>t. obind (scan_hex width t) (\<lambda>r.
     Ret (case r of None \<Rightarrow> v | Some (x, rest) \<Rightarrow> Some x)))"

definition scan_x_x ::
  "u8 list \<Rightarrow> u32 option \<Rightarrow> u32 option \<Rightarrow> (u32 option \<times> u32 option) outcome" where
  "scan_x_x s v w = obind (cstring s) (\<lambda>t. obind (scan_hex None t) (\<lambda>r.
     case r of None \<Rightarrow> Ret (v, w)
     | Some (x, rest) \<Rightarrow>
         (case rest of [] \<Rightarrow> Ret (Some x, w)
          | c # cs \<Rightarrow> if c = 44 then obind (scan_hex None cs) (\<lambda>q.
              Ret (Some x, case q of None \<Rightarrow> w | Some (y, _) \<Rightarrow> Some y))
            else Ret (Some x, w))))"

definition atoi :: "u8 list \<Rightarrow> int outcome" where
  "atoi s = obind (cstring s) (\<lambda>t.
     let (negative, body) = split_sign (dropWhile is_space t);
         n = int (number 10 (takeWhile is_digit body));
         v = (if negative then - n else n) in
     if - (2 ^ 31) \<le> v \<and> v < 2 ^ 31 then Ret v else Undefined Value_range)"

definition hex_char :: "nat \<Rightarrow> u8" where
  "hex_char n = (if n < 10 then of_nat (48 + n) else of_nat (87 + n))"

definition hex2 :: "u8 \<Rightarrow> u8 list" where
  "hex2 b = [hex_char (unat b div 16), hex_char (unat b mod 16)]"

section \<open>Hexadecimal digits\<close>

lemma less_16_cases: "n < 16 \<Longrightarrow> n \<in> {0, 1, 2, 3, 4, 5, 6, 7, 8, 9, 10, 11, 12, 13, 14, 15}"
  for n :: nat
  unfolding insert_iff empty_iff by presburger

lemma hex_char_simps [simp]:
  assumes "n < 16"
  shows "is_hex (hex_char n)" "digit_value (hex_char n) = n" "\<not> is_space (hex_char n)"
    "hex_char n \<noteq> 43" "hex_char n \<noteq> 45" "hex_char n \<noteq> 120" "hex_char n \<noteq> 88" "hex_char n \<noteq> 0"
    "hex_char n \<noteq> 35" "hex_char n \<noteq> 36" "hex_char n \<noteq> 44"
  using less_16_cases [OF assms]
  by (auto simp: hex_char_def is_hex_def is_digit_def digit_value_def is_space_def)

lemma hex2_nibbles:
  obtains a b where "hex2 x = [hex_char a, hex_char b]" "a < 16" "b < 16" "unat x = 16 * a + b"
proof
  show "hex2 x = [hex_char (unat x div 16), hex_char (unat x mod 16)]" by (simp add: hex2_def)
  show "unat x div 16 < 16" using unsigned_less [of x, where 'a = nat] by simp
qed simp_all

lemma length_hex2 [simp]: "length (hex2 x) = 2"
  by (simp add: hex2_def)

lemma hex2_no_zero [simp]: "0 \<notin> set (hex2 x)"
  by (rule hex2_nibbles [of x]) (simp add: eq_commute [of 0])

text \<open>Reading back the two digits of a byte.\<close>

lemma scan_hex2: "scan_hex (Some 2) (hex2 x @ rest) = Ret (Some (ucast x, rest))"
proof (rule hex2_nibbles [of x])
  fix a b assume x: "hex2 x = [hex_char a, hex_char b]" "a < 16" "b < 16" "unat x = 16 * a + b"
  then have v: "of_nat (16 * a + b) = (ucast x :: u32)" "16 * a + b < 256"
    using unsigned_less [of x] by (simp_all flip: x(4) add: unsigned_ucast_eq) 
  show ?thesis
    using x(2,3) v by (simp add: x(1) scan_hex_def split_sign_def skip_0x_def number_def Let_def)
qed

text \<open>The two digits alone, as at the end of a packet.\<close>

lemma scan_hex2_end: "scan_hex None (hex2 x) = Ret (Some (ucast x, []))"
  using scan_hex2 [of x "[]"] by (simp add: scan_hex_def hex2_def)

lemma cstring_append: "0 \<notin> set s \<Longrightarrow> 0 \<in> set t \<Longrightarrow> cstring (s @ t) = Ret (s @ takeWhile (\<lambda>c. c \<noteq> 0) t)"
  by (auto simp: cstring_def takeWhile_append)

lemma cstring_terminated: "0 \<notin> set s \<Longrightarrow> cstring (s @ 0 # t) = Ret s"
  by (simp add: cstring_append)

lemma scan_x_hex2: "0 \<in> set s \<Longrightarrow> scan_x (Some 2) (hex2 x @ s) v = Ret (Some (ucast x))"
  by (simp add: scan_x_def cstring_append scan_hex2)

lemma scan_x_hex2_end: "scan_x None (hex2 x @ [0]) v = Ret (Some (ucast x))"
  by (simp add: scan_x_def cstring_terminated [of _ "[]", simplified] scan_hex2_end)

end
