(* ===== verification/Gdb_Protocol.thy ===== *)
theory Gdb_Protocol
  imports Printing C_Strings
begin

unbundle bit_operations_syntax

text \<open>
  \<open>gdb_protocol.c\<close>: the server side of the debugger's serial protocol. The state extends that
  of the simulator by the fields of \<open>gdb_protocol_data\<close>; \<open>gdb->arm\<close> and \<open>gdb->mem\<close> are the
  processor and the memory it was created with, as the main program passes them. What the
  server does to the outside, the writes to the connection, its shutdown and the operations
  on the mutex, is kept as a list of calls. \<open>debug\<close> messages are left out.
\<close>

section \<open>State\<close>

datatype io = Rio_writen "u8 list" | Shutdown | Mutex_lock | Mutex_unlock | Fwrite "u8 list"

record gdb = machine +
  target_exception :: int
  gdb_packet :: "u8 list"
  gdb_len :: int
  calls :: "io list"

type_synonym ('z, 'a) server = "('z gdb_scheme, 'a) prog"

definition MAX_PACKET_SIZE :: nat where
  "MAX_PACKET_SIZE = 1024"

text \<open>\<open>block\<close> is what the allocated packet holds; \<open>gdb->buffer\<close> is \<open>gdb->packet+1\<close>.\<close>

definition gdb_init_data :: "u8 list \<Rightarrow> machine \<Rightarrow> gdb" where
  "gdb_init_data block m = machine.extend m
     (gdb.fields 0 (take MAX_PACKET_SIZE block) 0 [])"

abbreviation (input) buffer :: nat where "buffer \<equiv> 1"

definition call :: "io \<Rightarrow> ('z, unit) server" where
  "call c = modify (\<lambda>g. g\<lparr>calls := calls g @ [c]\<rparr>)"

text \<open>Storing a character, and a string with its terminator, in the packet.\<close>

definition put_char :: "nat \<Rightarrow> u8 \<Rightarrow> ('z, unit) server" where
  "put_char i c = update_o (\<lambda>g. if i < length (gdb_packet g)
     then Ret (g\<lparr>gdb_packet := (gdb_packet g)[i := c]\<rparr>) else Undefined Out_of_bounds)"

definition put_string :: "nat \<Rightarrow> u8 list \<Rightarrow> ('z, unit) server" where
  "put_string i s = update_o (\<lambda>g. if i + length s < length (gdb_packet g)
     then Ret (g\<lparr>gdb_packet := take i (gdb_packet g) @ s @ [0] @
       drop (i + length s + 1) (gdb_packet g)\<rparr>)
     else Undefined Out_of_bounds)"

section \<open>Sending\<close>

definition gdb_transmit_packet :: "('z, unit) server" where
  "gdb_transmit_packet =
     mbind (gets (\<lambda>g. take (nat (gdb_len g)) (gdb_packet g))) (\<lambda>s. call (Rio_writen s))"

definition gdb_send_ack :: "('z, unit) server" where
  "gdb_send_ack = call (Rio_writen (bytes ''+''))"

definition gdb_require_retransmission :: "('z, unit) server" where
  "gdb_require_retransmission = call (Rio_writen (bytes ''-''))"

text \<open>The loop over the characters up to the terminator: their sum and its position.\<close>

fun sum_string :: "u8 list \<Rightarrow> u8 \<Rightarrow> nat \<Rightarrow> (u8 \<times> nat) outcome" where
  "sum_string [] check i = Undefined Out_of_bounds"
| "sum_string (c # cs) check i =
     (if c \<noteq> 0 then sum_string cs (check + c) (i + 1) else Ret (check, i))"

definition gdb_send_buffer :: "('z, unit) server" where
  "gdb_send_buffer =
     mseq (put_char 0 (of_char CHR ''$''))
     (mbind (gets gdb_packet) (\<lambda>p.
     mbind (lift_o (sum_string (drop 1 p) 0 1)) (\<lambda>(check, i).
     mseq (put_char i (of_char CHR ''#''))
     (mseq (put_string (i + 1) (hex2 check))
     (mseq (put_char (i + 3) 0)
     (mseq (modify (\<lambda>g. g\<lparr>gdb_len := int (i + 3)\<rparr>))
     gdb_transmit_packet))))))"

definition gdb_send_data :: "string \<Rightarrow> ('z, unit) server" where
  "gdb_send_data data = mseq (put_string buffer (bytes data)) gdb_send_buffer"

section \<open>Words in hexadecimal\<close>

definition target_big_endian :: "('s, int) prog" where
  "target_big_endian = (\<lambda>h. ret (if big_endian_simulator h then 1 else 0) h)"

text \<open>The union of four bytes and an integer, on a host of the given byte order.\<close>

definition union_integer :: "int \<Rightarrow> u8 list \<Rightarrow> u32" where
  "union_integer host bs =
     (let b = (\<lambda>i. ucast (bs ! i) :: u32) in
      if host \<noteq> 0 then push_bit 24 (b 0) OR push_bit 16 (b 1) OR push_bit 8 (b 2) OR b 3
      else push_bit 24 (b 3) OR push_bit 16 (b 2) OR push_bit 8 (b 1) OR b 0)"

text \<open>The values of the loop variable, which starts at 0 or 3 and steps by 1 or -1.\<close>

definition byte_sequence :: "int \<Rightarrow> int \<Rightarrow> nat list" where
  "byte_sequence host target = (if host = target then [0, 1, 2, 3] else [3, 2, 1, 0])"

fun scan_bytes :: "nat list \<Rightarrow> u8 list \<Rightarrow> u32 option \<Rightarrow> u8 list \<Rightarrow> ('s, u8 list) prog" where
  "scan_bytes [] data value bs = ret bs"
| "scan_bytes (i # is) data value bs =
     mbind (lift_o (scan_x (Some 2) data value)) (\<lambda>value.
     mbind (read_local value) (\<lambda>v.
     scan_bytes is (drop 2 data) value (bs[i := ucast v])))"

definition read_uint32 :: "u8 list \<Rightarrow> ('s, u32) prog" where
  "read_uint32 data =
     mbind is_big_endian (\<lambda>host.
     mbind target_big_endian (\<lambda>target.
     mbind (scan_bytes (byte_sequence host target) data None [0, 0, 0, 0]) (\<lambda>bs.
     ret (union_integer host bs))))"

fun print_bytes :: "nat list \<Rightarrow> nat \<Rightarrow> u8 list \<Rightarrow> ('z, nat) server" where
  "print_bytes [] pos bs = ret pos"
| "print_bytes (i # is) pos bs =
     mseq (put_string pos (hex2 (bs ! i))) (print_bytes is (pos + 2) bs)"

definition write_uint32 :: "nat \<Rightarrow> u32 \<Rightarrow> ('z, unit) server" where
  "write_uint32 pos value =
     mbind is_big_endian (\<lambda>host.
     mbind target_big_endian (\<lambda>target.
     mbind (print_bytes (byte_sequence host target) pos (word_octets host value)) (\<lambda>pos.
     put_char pos 0)))"

section \<open>Running the target\<close>

definition gdb_send_stop_reason :: "('z, unit) server" where
  "gdb_send_stop_reason =
     mbind (gets target_exception) (\<lambda>e.
     if e = 2 then gdb_send_data ''S04''
     else if e = 4 \<or> e = 5 then gdb_send_data ''S10''
     else gdb_send_data ''S05'')"

definition step_target :: "('z, unit) server" where
  "step_target =
     mbind arm_step (\<lambda>result.
     mseq (modify (\<lambda>g. g\<lparr>target_exception := result\<rparr>)) trace_arm_state)"

definition still_running :: "('s, 'a) prog" where
  "still_running = (\<lambda>h s. Pending)"

text \<open>
  The loop of \<open>cont\<close>, at most \<open>fuel\<close> times; \<open>instruction\<close> is what the local variable
  holds before the iteration.
\<close>

fun cont_loop :: "nat \<Rightarrow> u32 option \<Rightarrow> ('z, unit) server" where
  "cont_loop 0 instruction = still_running"
| "cont_loop (Suc fuel) instruction =
     mseq (set_trace trace_disable)
     (mbind (arm_read_register 15) (\<lambda>pc.
     let r15 = pc - 4 in
     mbind (arm_read_word r15 instruction) (\<lambda>(_, instruction).
     mseq (set_trace trace_enable)
     (if instruction AND 0xFFF000F0 = 0xE7F000F0 then ret ()
      else mseq step_target (cont_loop fuel (Some instruction))))))"

definition cont :: "nat \<Rightarrow> u8 list \<Rightarrow> ('z, unit) server" where
  "cont fuel data = mseq (cont_loop fuel None) gdb_send_stop_reason"

definition step :: "u8 list \<Rightarrow> ('z, unit) server" where
  "step data = mseq step_target gdb_send_stop_reason"

definition reason :: "u8 list \<Rightarrow> ('z, unit) server" where
  "reason data = gdb_send_stop_reason"

section \<open>The other requests\<close>

definition kill_request :: "u8 list \<Rightarrow> ('z, unit) server" where
  "kill_request data = call Shutdown"

definition query :: "u8 list \<Rightarrow> ('z, unit) server" where
  "query data =
     mbind (lift_o (cstring data)) (\<lambda>s.
     if s = bytes ''Offsets'' then gdb_send_data ''Text=0;Data=0;Bss=0''
     else if take 9 s = bytes ''Supported'' then gdb_send_data ''PacketSize=400''
     else if s = bytes ''TStatus'' then gdb_send_data ''T0;tnotrun:0''
     else if s = bytes ''Symbol::'' then gdb_send_data ''''
     else gdb_send_data '''')"

text \<open>Registers are written one after the other; the result is the position behind them.\<close>

fun print_general :: "nat list \<Rightarrow> nat \<Rightarrow> ('z, nat) server" where
  "print_general [] pos = ret pos"
| "print_general (i # is) pos =
     mbind (arm_read_register (of_nat i)) (\<lambda>v.
     mseq (write_uint32 pos v) (print_general is (pos + 8)))"

fun print_unavailable :: "nat \<Rightarrow> nat \<Rightarrow> ('z, nat) server" where
  "print_unavailable 0 pos = ret pos"
| "print_unavailable (Suc n) pos =
     mseq (put_string pos (bytes ''xxxxxxxx'')) (print_unavailable n (pos + 8))"

definition read_general_registers :: "u8 list \<Rightarrow> ('z, unit) server" where
  "read_general_registers data =
     mseq (set_trace trace_disable)
     (mbind (print_general [0..<15] buffer) (\<lambda>pos.
     mbind (arm_read_register 15) (\<lambda>pc.
     mseq (write_uint32 pos (pc - 4))
     (mbind (print_unavailable (8 * 3) (pos + 8)) (\<lambda>pos.
     mbind (print_unavailable 1 pos) (\<lambda>pos.
     mbind arm_read_cpsr (\<lambda>v.
     mseq (write_uint32 pos v)
     (mseq (set_trace trace_enable)
     gdb_send_buffer))))))))"

text \<open>The first argument counts \<open>size\<close> down; \<open>value\<close> is what the local variable holds.\<close>

fun print_memory :: "nat \<Rightarrow> u32 \<Rightarrow> u8 option \<Rightarrow> nat \<Rightarrow> ('z, unit) server" where
  "print_memory 0 address value pos = ret ()"
| "print_memory (Suc n) address value pos =
     mbind (gets mem) (\<lambda>m.
     mbind (lift_o (memory_read_byte m address value)) (\<lambda>(result, value).
     if result \<noteq> -1 then
       mbind (read_local value) (\<lambda>v.
       mseq (put_string pos (hex2 v)) (print_memory n (address + 1) value (pos + 2)))
     else ret ()))"

definition read_memory :: "u8 list \<Rightarrow> ('z, unit) server" where
  "read_memory data =
     mbind (lift_o (scan_x_x data None None)) (\<lambda>(address, size).
     mseq (put_char buffer 0)
     (mbind (read_local size) (\<lambda>sz.
     mseq (if sz = 0 then ret ()
       else mbind (read_local address) (\<lambda>a. print_memory (unat sz) a None buffer))
     gdb_send_buffer)))"

definition gdb_read_register :: "u8 list \<Rightarrow> ('z, unit) server" where
  "gdb_read_register data =
     mbind (lift_o (atoi data)) (\<lambda>n.
     let rg = word_of_int n :: u32 in
     mseq (c_assert (rg < 16))
     (mseq (set_trace trace_disable)
     (mbind (arm_read_register (ucast rg)) (\<lambda>v.
     mseq (write_uint32 buffer (v - (if rg = 15 then 4 else 0)))
     (mseq (set_trace trace_enable)
     gdb_send_buffer)))))"

definition set_thread :: "u8 list \<Rightarrow> ('z, unit) server" where
  "set_thread data =
     mbind (lift_o (byte_at data 0)) (\<lambda>type.
     mbind (lift_o (atoi (drop 1 data))) (\<lambda>value.
     if (type = of_char CHR ''c'' \<or> type = of_char CHR ''g'') \<and> value < 1 \<and> value > -2
     then gdb_send_data ''OK'' else gdb_send_data ''E01''))"

fun scan_general :: "nat list \<Rightarrow> u8 list \<Rightarrow> ('z, u8 list) server" where
  "scan_general [] position = ret position"
| "scan_general (i # is) position =
     mbind (read_uint32 position) (\<lambda>value.
     mseq (arm_write_register (of_nat i) value) (scan_general is (drop 8 position)))"

fun scan_ignored :: "nat \<Rightarrow> u8 list \<Rightarrow> ('z, u8 list) server" where
  "scan_ignored 0 position = ret position"
| "scan_ignored (Suc n) position =
     mbind (read_uint32 position) (\<lambda>value. scan_ignored n (drop 8 position))"

definition write_general_registers :: "u8 list \<Rightarrow> ('z, unit) server" where
  "write_general_registers data =
     mseq (set_trace trace_disable)
     (mbind (scan_general [0..<16] data) (\<lambda>position.
     mbind (scan_ignored (8 * 3) position) (\<lambda>position.
     mbind (scan_ignored 1 position) (\<lambda>position.
     mbind (read_uint32 position) (\<lambda>value.
     mseq (arm_write_cpsr value)
     (mseq (set_trace trace_enable)
     (gdb_send_data ''OK'')))))))"

text \<open>One byte of binary content, with its escape, and the content behind it.\<close>

definition decode_byte :: "u8 list \<Rightarrow> (u8 \<times> u8 list) outcome" where
  "decode_byte content = obind (byte_at content 0) (\<lambda>c.
     if c = 0x7d then obind (byte_at content 1) (\<lambda>d. Ret (d XOR 0x20, drop 2 content))
     else Ret (c, drop 1 content))"

fun store_bytes :: "nat \<Rightarrow> u8 list \<Rightarrow> u32 \<Rightarrow> ('z, bool) server" where
  "store_bytes 0 content address = ret True"
| "store_bytes (Suc n) content address =
     mbind (lift_o (decode_byte content)) (\<lambda>(value, content).
     mbind (gets mem) (\<lambda>m.
     mbind (lift_o (memory_write_byte m address value)) (\<lambda>(result, m).
     mseq (modify (\<lambda>g. g\<lparr>mem := m\<rparr>))
     (if result = 0 then store_bytes n content (address + 1) else ret False))))"

text \<open>Without a colon \<open>content\<close> points nowhere, so that nothing can be read from it.\<close>

definition write_memory_binary :: "u8 list \<Rightarrow> ('z, unit) server" where
  "write_memory_binary data =
     mbind (lift_o (scan_x_x data None None)) (\<lambda>(address, size).
     mbind (lift_o (c_index (of_char CHR '':'') data)) (\<lambda>colon.
     let content = (case colon of None \<Rightarrow> [] | Some s \<Rightarrow> drop 1 s) in
     mbind (read_local address) (\<lambda>a.
     mbind (gets (\<lambda>g. memory_get_size (mem g))) (\<lambda>msize.
     mbind (read_local size) (\<lambda>sz.
     mbind (if ucast a < msize then store_bytes (unat sz) content a else ret False) (\<lambda>write_ok.
     if write_ok then gdb_send_data ''OK'' else gdb_send_data ''E02''))))))"

definition gdb_write_register :: "u8 list \<Rightarrow> ('z, unit) server" where
  "gdb_write_register data =
     mbind (lift_o (scan_x None data None)) (\<lambda>rg.
     mbind (lift_o (c_index (of_char CHR ''='') data)) (\<lambda>equals.
     mbind (read_uint32 (case equals of None \<Rightarrow> [] | Some s \<Rightarrow> drop 1 s)) (\<lambda>value.
     mbind (read_local rg) (\<lambda>rg.
     mseq (c_assert (rg < 16))
     (mseq (set_trace trace_disable)
     (mseq (arm_write_register (ucast rg) value)
     (mseq (set_trace trace_enable)
     (gdb_send_data ''OK''))))))))"

section \<open>Dispatch\<close>

type_synonym 'z gdb_handler_t = "u8 list \<Rightarrow> ('z, unit) server"

definition gdb_init :: "nat \<Rightarrow> u8 \<Rightarrow> 'z gdb_handler_t option" where
  "gdb_init fuel = (\<lambda>i. None)
     (of_char CHR ''c'' := Some (cont fuel),
      of_char CHR ''k'' := Some kill_request,
      of_char CHR ''q'' := Some query,
      of_char CHR ''g'' := Some read_general_registers,
      of_char CHR ''m'' := Some read_memory,
      of_char CHR ''p'' := Some gdb_read_register,
      of_char CHR ''?'' := Some reason,
      of_char CHR ''H'' := Some set_thread,
      of_char CHR ''s'' := Some step,
      of_char CHR ''G'' := Some write_general_registers,
      of_char CHR ''X'' := Some write_memory_binary,
      of_char CHR ''P'' := Some gdb_write_register)"

text \<open>The sum of the characters at the given positions.\<close>

fun sum_at :: "nat list \<Rightarrow> u8 list \<Rightarrow> u8 \<Rightarrow> u8 outcome" where
  "sum_at [] p check = Ret check"
| "sum_at (i # is) p check = obind (byte_at p i) (\<lambda>c. sum_at is p (check + c))"

text \<open>
  \<open>packet\<close> is the array behind the pointer, \<open>len\<close> the parameter, \<open>handler\<close> the static
  table. The loop ends with \<open>i\<close> equal to \<open>len - 3\<close>, or 1 if that is less.
\<close>

definition gdb_packet_analysis ::
  "(u8 \<Rightarrow> 'z gdb_handler_t option) \<Rightarrow> u8 list \<Rightarrow> int \<Rightarrow> ('z, unit) server" where
  "gdb_packet_analysis handler packet len =
     (let i = max 1 (nat (len - 3)) in
      mbind (lift_o (sum_at [1..<i] packet 0)) (\<lambda>check.
      mbind (lift_o (scan_x None (drop (i + 1) packet) None)) (\<lambda>given.
      mbind (read_local given) (\<lambda>given.
      if ucast check = given then
        mseq gdb_send_ack
        (let packet = packet[i := 0] in
         mbind (lift_o (byte_at packet 1)) (\<lambda>index.
         case handler index of
           Some f \<Rightarrow>
             mseq (call Mutex_lock) (mseq (f (drop 2 packet)) (call Mutex_unlock))
         | None \<Rightarrow> gdb_send_data ''''))
      else gdb_require_retransmission))))"

end
