(* ===== verification/Gdb_Requests.thy ===== *)
theory Gdb_Requests
  imports Gdb_Protocol
begin

unbundle bit_operations_syntax

text \<open>
  What the requests of the debugger do: the frames the server sends, the words it reads and
  writes in hexadecimal, and the effect of each handler on the target.
\<close>

section \<open>The fields of the server and the target\<close>

lemma same_core_server:
  assumes "same_core s (t :: 'z gdb_scheme)"
  shows "gdb_packet s = gdb_packet t" "gdb_len s = gdb_len t" "calls s = calls t"
    "target_exception s = target_exception t"
  using assms by (cases s; cases t; simp add: same_core_def)+

lemma same_core_server_upd:
  assumes "same_core s (t :: 'z gdb_scheme)"
  shows "same_core (s\<lparr>gdb_packet := p\<rparr>) (t\<lparr>gdb_packet := p\<rparr>)"
    "same_core (s\<lparr>gdb_len := n\<rparr>) (t\<lparr>gdb_len := n\<rparr>)"
    "same_core (s\<lparr>calls := c\<rparr>) (t\<lparr>calls := c\<rparr>)"
    "same_core (s\<lparr>target_exception := e\<rparr>) (t\<lparr>target_exception := e\<rparr>)"
  using assms by (cases s; cases t; auto simp: same_core_def user_state_def)+

lemma server_upd [simp]:
  fixes g :: "'z gdb_scheme"
  shows "user_state (g\<lparr>gdb_packet := p\<rparr>) = user_state g" "user_state (g\<lparr>gdb_len := n\<rparr>) = user_state g"
    "user_state (g\<lparr>calls := c\<rparr>) = user_state g" "user_state (g\<lparr>target_exception := e\<rparr>) = user_state g"
    "quiet_user (g\<lparr>gdb_packet := p\<rparr>) = quiet_user g" "quiet_user (g\<lparr>gdb_len := n\<rparr>) = quiet_user g"
    "quiet_user (g\<lparr>calls := c\<rparr>) = quiet_user g" "quiet_user (g\<lparr>target_exception := e\<rparr>) = quiet_user g"
    "sim_inv m b (g\<lparr>gdb_packet := p\<rparr>) = sim_inv m b g" "sim_inv m b (g\<lparr>gdb_len := n\<rparr>) = sim_inv m b g"
    "sim_inv m b (g\<lparr>calls := c\<rparr>) = sim_inv m b g"
    "sim_inv m b (g\<lparr>target_exception := e\<rparr>) = sim_inv m b g"
    "usr_reg (g\<lparr>gdb_packet := p\<rparr>) r = usr_reg g r" "usr_reg (g\<lparr>calls := c\<rparr>) r = usr_reg g r"
    "usr_reg (g\<lparr>target_exception := e\<rparr>) r = usr_reg g r"
    "cpsr (g\<lparr>gdb_packet := p\<rparr>) = cpsr g" "cpsr (g\<lparr>calls := c\<rparr>) = cpsr g"
    "cpsr (g\<lparr>target_exception := e\<rparr>) = cpsr g"
  by (simp_all add: user_state_def quiet_user_def sim_inv_def usr_reg_def cpsr_def)

lemma set_reg_server [simp]:
  "gdb_packet (set_reg i v g) = gdb_packet g" "calls (set_reg i v g) = calls g"
  "gdb_len (set_reg i v g) = gdb_len g" "target_exception (set_reg i v g) = target_exception g"
  by (simp_all add: set_reg_def)

lemma quiet_server [simp]:
  "gdb_packet (quiet g) = gdb_packet g" "calls (quiet g) = calls g"
  "gdb_len (quiet g) = gdb_len g" "target_exception (quiet g) = target_exception g"
  by (simp_all add: quiet_def)

section \<open>Rules for the primitives\<close>

lemma wp_server [wp_simps]:
  "wp (call c) h Q g \<longleftrightarrow> Q () (g\<lparr>calls := calls g @ [c]\<rparr>)"
  "wp (put_char i x) h Q g \<longleftrightarrow> i < length (gdb_packet g) \<and>
     Q () (g\<lparr>gdb_packet := (gdb_packet g)[i := x]\<rparr>)"
  "wp (put_string i s) h Q g \<longleftrightarrow> i + length s < length (gdb_packet g) \<and>
     Q () (g\<lparr>gdb_packet := take i (gdb_packet g) @ s @ [0] @
       drop (i + length s + 1) (gdb_packet g)\<rparr>)"
  by (auto simp: call_def put_char_def put_string_def wp_modify wp_update_o)

lemma wp_set_trace [wp_simps]: "wp (set_trace f) h Q s \<longleftrightarrow> Q () (s\<lparr>trc := f (trc s)\<rparr>)"
  by (simp add: set_trace_def wp_modify)

lemma wp_endianness [wp_simps]:
  "wp is_big_endian h Q s \<longleftrightarrow> Q (if host_big_endian h then 1 else 0) s"
  "wp target_big_endian h Q s \<longleftrightarrow> Q (if big_endian_simulator h then 1 else 0) s"
  by (simp_all add: is_big_endian_def target_big_endian_def wp_def ret_def)

lemma respecting_gets_server [resp]:
  "respecting same_core (gets (gdb_packet :: 'z gdb_scheme \<Rightarrow> _))"
  "respecting same_core (gets (target_exception :: 'z gdb_scheme \<Rightarrow> _))"
  "respecting same_core (gets (\<lambda>g :: 'z gdb_scheme. take (nat (gdb_len g)) (gdb_packet g)))"
  "respecting same_core (gets (\<lambda>g :: 'z gdb_scheme. memory_get_size (mem g)))"
  by (rule respecting_gets; simp add: same_core_server same_core_gets)+

lemma respecting_server [resp]:
  "respecting same_core (call c :: ('z, unit) server)"
  "respecting same_core (put_char i b :: ('z, unit) server)"
  "respecting same_core (put_string i s :: ('z, unit) server)"
  "respecting same_core (modify (\<lambda>g :: 'z gdb_scheme. g\<lparr>gdb_len := n\<rparr>))"
  "respecting same_core (modify (\<lambda>g :: 'z gdb_scheme. g\<lparr>target_exception := e\<rparr>))"
  by (auto simp: respecting_def call_def modify_def put_char_def put_string_def update_o_def
      same_core_server same_core_server_upd)

lemma respecting_endianness [resp]:
  "respecting R is_big_endian" "respecting R target_big_endian" "respecting R still_running"
  by (auto simp: respecting_def is_big_endian_def target_big_endian_def ret_def still_running_def)

lemma preserves_endianness [pres]:
  "preserves I is_big_endian" "preserves I target_big_endian" "preserves I still_running"
  by (auto simp: preserves_def is_big_endian_def target_big_endian_def ret_def still_running_def)

section \<open>Invariants, whatever the debugger sends\<close>

text \<open>
  An invariant of the machine that depends on the fields of the server only through the size of
  the packet is kept by every request.
\<close>

locale server_invariant = clock_free_invariant I for I :: "'z gdb_scheme \<Rightarrow> bool" +
  assumes inv_packet: "I g \<Longrightarrow> length p = length (gdb_packet g) \<Longrightarrow> I (g\<lparr>gdb_packet := p\<rparr>)"
    and inv_server: "I g \<Longrightarrow> I (g\<lparr>gdb_len := k\<rparr>)" "I g \<Longrightarrow> I (g\<lparr>calls := c\<rparr>)"
      "I g \<Longrightarrow> I (g\<lparr>target_exception := e\<rparr>)"
begin

lemma preserves_server [pres]:
  "preserves I (call c)" "preserves I (put_char i x)" "preserves I (put_string i s)"
  "preserves I (modify (\<lambda>g. g\<lparr>gdb_len := k\<rparr>))" "preserves I (modify (\<lambda>g. g\<lparr>target_exception := e\<rparr>))"
  unfolding call_def put_char_def put_string_def
  by (rule preserves_modify preserves_update_o, auto intro!: inv_server inv_packet split: if_splits)+

lemma preserves_send [pres]:
  "preserves I gdb_transmit_packet" "preserves I gdb_send_ack"
  "preserves I gdb_require_retransmission" "preserves I gdb_send_buffer"
  "preserves I (gdb_send_data d)" "preserves I gdb_send_stop_reason"
  unfolding gdb_send_stop_reason_def gdb_send_data_def gdb_send_buffer_def gdb_send_ack_def
    gdb_require_retransmission_def gdb_transmit_packet_def
  by (intro pres)+

lemma preserves_hex [pres]:
  "preserves I (scan_bytes is d v bs)" "preserves I (read_uint32 d)"
  "preserves I (print_bytes is pos bs)" "preserves I (write_uint32 pos w)"
proof -
  show s: "preserves I (scan_bytes is d v bs)" for "is" d v bs
    by (induction "is" d v bs rule: scan_bytes.induct) (auto intro: pres)
  show "preserves I (read_uint32 d)" unfolding read_uint32_def by (intro pres s)
  show p: "preserves I (print_bytes is pos bs)" for "is" pos bs
    by (induction "is" pos bs rule: print_bytes.induct) (auto intro: pres)
  show "preserves I (write_uint32 pos w)" unfolding write_uint32_def by (intro pres p)
qed

lemma preserves_step_target [pres]: "preserves I step_target"
  unfolding step_target_def by (intro pres)

lemma preserves_loops [pres]:
  "preserves I (cont_loop fuel x)" "preserves I (print_general is pos)"
  "preserves I (print_unavailable k pos)" "preserves I (print_memory k a v pos)"
  "preserves I (scan_general is d)" "preserves I (scan_ignored k d)"
proof -
  show "preserves I (cont_loop fuel x)"
    by (induction fuel arbitrary: x) (auto intro!: pres simp: Let_def)
  show "preserves I (print_general is pos)"
    by (induction "is" arbitrary: pos) (auto intro!: pres)
  show "preserves I (print_unavailable k pos)"
    by (induction k arbitrary: pos) (auto intro!: pres)
  show "preserves I (print_memory k a v pos)"
    by (induction k arbitrary: a v pos) (auto intro!: pres)
  show "preserves I (scan_general is d)"
    by (induction "is" arbitrary: d) (auto intro!: pres)
  show "preserves I (scan_ignored k d)"
    by (induction k arbitrary: d) (auto intro!: pres)
qed

lemma preserves_store_bytes [pres]: "preserves I (store_bytes k c a)"
proof (induction k arbitrary: c a)
  case (Suc k)
  have "preserves I (mbind (gets mem) (\<lambda>m.
      mbind (lift_o (memory_write_byte m a x)) (\<lambda>(result, m).
      mseq (modify (\<lambda>g. g\<lparr>mem := m\<rparr>))
      (if result = 0 then store_bytes k c' (a + 1) else ret False))))" for c' x
    by (rule preserves_set_mem, erule memory_write_keeps) (auto intro: pres Suc)
  then show ?case by (auto intro: pres)
qed (simp add: preserves_ret)

lemma preserves_handlers: "gdb_init fuel i = Some f \<Longrightarrow> preserves I (f d)"
  by (auto simp: gdb_init_def cont_def kill_request_def query_def read_general_registers_def
      read_memory_def gdb_read_register_def reason_def set_thread_def step_def
      write_general_registers_def write_memory_binary_def gdb_write_register_def Let_def
      intro!: pres split: if_splits)

lemma preserves_analysis [pres]: "preserves I (gdb_packet_analysis (gdb_init fuel) p k)"
proof -
  have "preserves I (case gdb_init fuel x of
      Some f \<Rightarrow> mseq (call Mutex_lock) (mseq (f d) (call Mutex_unlock))
    | None \<Rightarrow> gdb_send_data '''')" for x d
    by (cases "gdb_init fuel x :: 'z gdb_handler_t option") (auto intro: pres preserves_handlers)
  then show ?thesis
    unfolding gdb_packet_analysis_def Let_def by (intro pres)
qed

end

text \<open>
  The invariant of the machine with the size of the packet, and the fields of any extension.
\<close>

definition server_inv :: "u64 \<Rightarrow> int \<Rightarrow> 'z gdb_scheme \<Rightarrow> bool" where
  "server_inv n b g \<longleftrightarrow> sim_inv n b g \<and> length (gdb_packet g) = MAX_PACKET_SIZE"

interpretation server: server_invariant "server_inv n b"
  by unfold_locales
    (auto simp: server_inv_def sim_inv_def user_state_def wf_registers_def wf_memory_def)

interpretation outside: server_invariant "\<lambda>g. gdb.more g = z"
  by unfold_locales auto

end
