(* ===== verification/Gdb_Framing.thy ===== *)
theory Gdb_Framing
  imports Gdb_Requests
begin

unbundle bit_operations_syntax

text \<open>
  The frames of the protocol and the words in hexadecimal inside them: what the server builds
  in its packet and sends, and that reading gives back what was written.
\<close>

section \<open>Frames\<close>

definition frame :: "u8 list \<Rightarrow> u8 list" where
  "frame s = bytes ''$'' @ s @ bytes ''#'' @ hex2 (sum_list s)"

lemma length_frame [simp]: "length (frame s) = length s + 4"
  by (simp add: frame_def bytes_def)

lemma length_bytes [simp]: "length (bytes d) = length d"
  by (simp add: bytes_def)

lemma bytes_simps [simp]: "bytes [] = []" "bytes (c # d) = of_char c # bytes d"
  by (simp_all add: bytes_def)

text \<open>The string \<open>s\<close> in the buffer, and the state after it has been sent.\<close>

definition buffered :: "u8 list \<Rightarrow> 'z gdb_scheme \<Rightarrow> 'z gdb_scheme" where
  "buffered s g = g\<lparr>gdb_packet := take 1 (gdb_packet g) @ s @ 0 # drop (length s + 2) (gdb_packet g)\<rparr>"

definition reply :: "u8 list \<Rightarrow> 'z gdb_scheme \<Rightarrow> 'z gdb_scheme" where
  "reply s g = g\<lparr>gdb_packet := frame s @ 0 # drop (length s + 5) (gdb_packet g),
     gdb_len := int (length s + 4), calls := calls g @ [Rio_writen (frame s)]\<rparr>"

text \<open>The number of characters the packet has room for.\<close>

definition fits :: "u8 list \<Rightarrow> 'z gdb_scheme \<Rightarrow> bool" where
  "fits s g \<longleftrightarrow> length s + 4 < length (gdb_packet g)"

lemma length_buffered: "length s + 1 < length (gdb_packet g) \<Longrightarrow>
    length (gdb_packet (buffered s g)) = length (gdb_packet g)"
  by (auto simp: buffered_def)

lemma wp_put_buffer:
  "wp (put_string 1 s) h Q g \<longleftrightarrow> length s + 1 < length (gdb_packet g) \<and> Q () (buffered s g)"
  by (auto simp: wp_server buffered_def)

lemma wp_put_append:
  assumes "length s + 1 < length (gdb_packet g)" "i = length s + 1"
  shows "wp (put_string i t) h Q (buffered s g) \<longleftrightarrow>
    length (s @ t) + 1 < length (gdb_packet g) \<and> Q () (buffered (s @ t) g)"
proof -
  obtain c p where g: "gdb_packet g = c # p" using assms by (cases "gdb_packet g") auto
  have "take (length s + 1) (gdb_packet (buffered s g)) = c # s"
    "drop (length s + 1 + length t + 1) (gdb_packet (buffered s g)) = drop (length (s @ t) + 2) (gdb_packet g)"
    by (simp_all add: buffered_def g drop_Cons' add.commute)
  then show ?thesis
    using assms length_buffered [OF assms(1)] by (auto simp: wp_server) (auto simp: buffered_def g)
qed

lemma sum_string_terminated:
  "0 \<notin> set s \<Longrightarrow> sum_string (s @ 0 # t) c i = Ret (c + sum_list s, i + length s)"
  by (induction s arbitrary: c i) (auto simp: ac_simps)

lemma wp_transmit: "wp gdb_transmit_packet h Q g \<longleftrightarrow>
    Q () (g\<lparr>calls := calls g @ [Rio_writen (take (nat (gdb_len g)) (gdb_packet g))]\<rparr>)"
  by (simp add: gdb_transmit_packet_def wp_simps)

lemma wp_send_buffer:
  assumes s: "0 \<notin> set s" and room: "fits s g"
  shows "wp gdb_send_buffer h Q (buffered s g) \<longleftrightarrow> Q () (reply s g)"
proof -
  obtain c p where g: "gdb_packet g = c # p"
    using room by (cases "gdb_packet g") (auto simp: fits_def)
  have "4 \<le> length (drop (length s) p)" using room g by (simp add: fits_def)
  then obtain w x y z q where p: "drop (length s) p = w # x # y # z # q"
    by (auto simp: numeral_eq_Suc Suc_le_length_iff simp del: length_drop)
  have "drop 1 (drop (length s) p) = x # y # z # q" "drop 4 (drop (length s) p) = q"
    unfolding p by simp_all
  then have d: "drop (Suc (length s)) p = x # y # z # q" "drop (length s + 4) p = q"
    by (simp_all add: add.commute)
  from d(2) have d5: "drop (length s + 5) (c # p) = q" by (simp add: drop_Cons' add.commute)
  obtain a b where ab: "hex2 (sum_list s) = [a, b]" by (simp add: hex2_def)
  have b: "gdb_packet (buffered s g) = c # s @ 0 # x # y # z # q"
    by (simp add: buffered_def g d)
  have r: "reply s g = (buffered s g)\<lparr>gdb_packet := of_char CHR ''$'' # s @ of_char CHR ''#'' # a # b # 0 # q,
      gdb_len := int (length s + 4),
      calls := calls g @ [Rio_writen (of_char CHR ''$'' # s @ of_char CHR ''#'' # a # b # [])]\<rparr>"
    using d5 by (simp add: reply_def buffered_def frame_def ab g)
  show ?thesis
    unfolding gdb_send_buffer_def r
    using sum_string_terminated [OF s, of "x # y # z # q" 0 1]
    by (simp add: wp_bind wp_server wp_gets wp_lift_o wp_modify wp_transmit b ab)
      (simp add: buffered_def list_update_append add.commute)
qed

text \<open>A frame that does not fit is written behind the packet.\<close>

lemma ends_server [end_simps]:
  "\<not> ends (call c) h g e" "\<not> ends (set_trace f) h g' e"
  "ends (put_char i x) h g e \<longleftrightarrow> length (gdb_packet g) \<le> i \<and> e = Undefined Out_of_bounds"
  "ends (put_string i s) h g e \<longleftrightarrow> length (gdb_packet g) \<le> i + length s \<and> e = Undefined Out_of_bounds"
  by (auto simp: call_def set_trace_def put_char_def put_string_def end_simps)

lemma send_buffer_overflow:
  assumes s: "0 \<notin> set s" and room: "length s + 1 < length (gdb_packet g)" "\<not> fits s g"
  shows "ends gdb_send_buffer h (buffered s g) (Undefined Out_of_bounds)"
proof -
  obtain c p where g: "gdb_packet g = c # p"
    using room by (cases "gdb_packet g") auto
  have b: "gdb_packet (buffered s g) = c # s @ 0 # drop (length s + 1) p"
    by (simp add: buffered_def g)
  show ?thesis
    unfolding gdb_send_buffer_def
    using sum_string_terminated [OF s, of "drop (length s + 1) p" 0 1] room
    by (simp add: end_simps wp_server wp_gets wp_lift_o b fits_def g) linarith
qed

lemma wp_send_data:
  assumes "0 \<notin> set (bytes d)" "fits (bytes d) g"
  shows "wp (gdb_send_data d) h Q g \<longleftrightarrow> Q () (reply (bytes d) g)"
  using assms wp_send_buffer [OF assms, of h Q]
  by (simp add: gdb_send_data_def wp_bind wp_put_buffer del: One_nat_def) (simp add: fits_def)

section \<open>Words in hexadecimal\<close>

definition hex_octets :: "u8 list \<Rightarrow> u8 list" where
  "hex_octets bs = concat (map hex2 bs)"

definition hex_word :: "host \<Rightarrow> u32 \<Rightarrow> u8 list" where
  "hex_word h v = hex_octets (word_octets (if big_endian_simulator h then 1 else 0) v)"

lemma hex_octets_simps [simp]:
  "hex_octets [] = []" "hex_octets (b # bs) = hex2 b @ hex_octets bs"
  "hex_octets (bs @ cs) = hex_octets bs @ hex_octets cs" "length (hex_octets bs) = 2 * length bs"
  "0 \<notin> set (hex_octets bs)"
  by (simp_all add: hex_octets_def) (induction bs; simp)+

lemma length_hex_word [simp]: "length (hex_word h v) = 8"
  by (simp add: hex_word_def word_octets_def)

lemma hex_word_no_zero [simp]: "0 \<notin> set (hex_word h v)"
  by (simp only: hex_word_def hex_octets_simps not_False_eq_True)

lemma wp_print_bytes:
  assumes "length s + 1 < length (gdb_packet g)" "i = length s + 1"
  shows "wp (print_bytes is i bs) h Q (buffered s g) \<longleftrightarrow>
    length s + 2 * length is + 1 < length (gdb_packet g) \<and>
    Q (i + 2 * length is) (buffered (s @ hex_octets (map (nth bs) is)) g)"
  using assms
proof (induction "is" arbitrary: i s)
  case (Cons k ks)
  have "wp (print_bytes ks (i + 2) bs) h Q (buffered (s @ hex2 (bs ! k)) g) \<longleftrightarrow>
      length s + 2 * length ks + 3 < length (gdb_packet g) \<and>
      Q (i + 2 + 2 * length ks) (buffered (s @ hex_octets (map (nth bs) (k # ks))) g)"
    if "length s + 3 < length (gdb_packet g)"
    using Cons.IH [of "s @ hex2 (bs ! k)" "i + 2"] Cons.prems that
    by (simp add: numeral_3_eq_3)
  then show ?case
    using Cons.prems by (auto simp: wp_bind wp_put_append)
qed (simp_all add: wp_ret)

lemma byte_sequence_octets:
  "map (nth (word_octets host v)) (byte_sequence host target) = word_octets target v"
  if "host \<in> {0, 1}" "target \<in> {0, 1}"
  using that by (auto simp: byte_sequence_def word_octets_def)

lemma length_byte_sequence [simp]: "length (byte_sequence host target) = 4"
  by (simp add: byte_sequence_def)

lemma buffered_terminator:
  "length s + 1 < length (gdb_packet g) \<Longrightarrow>
     (buffered s g)\<lparr>gdb_packet := (gdb_packet (buffered s g))[length s + 1 := 0]\<rparr> = buffered s g"
  by (cases "gdb_packet g") (simp_all add: buffered_def)

lemma wp_write_uint32:
  assumes "length s + 1 < length (gdb_packet g)" "i = length s + 1"
  shows "wp (write_uint32 i v) h Q (buffered s g) \<longleftrightarrow>
    length s + 9 < length (gdb_packet g) \<and> Q () (buffered (s @ hex_word h v) g)"
proof -
  let ?s = "s @ hex_word h v"
  have "wp (put_char (i + 8) 0) h Q (buffered ?s g) \<longleftrightarrow> Q () (buffered ?s g)"
    if "length s + 9 < length (gdb_packet g)"
    using that assms(2) buffered_terminator [of ?s g] length_buffered [of ?s g]
    by (simp add: wp_server del: One_nat_def)
  then show ?thesis
    using assms
    by (auto simp: write_uint32_def wp_bind wp_endianness wp_print_bytes byte_sequence_octets hex_word_def)
qed

lemma union_octets: "union_integer host [a, b, c, d] = (if host \<noteq> 0
    then push_bit 24 (ucast a) OR push_bit 16 (ucast b) OR push_bit 8 (ucast c) OR ucast d
    else push_bit 24 (ucast d) OR push_bit 16 (ucast c) OR push_bit 8 (ucast b) OR ucast a)"
  by (simp add: union_integer_def Let_def numeral_eq_Suc)

lemma ucast_u8_u32 [simp]: "ucast (ucast x :: u32) = x" for x :: u8
  by (rule bit_word_eqI) (auto simp: bit_simps)

lemma drop_hex2 [simp]: "drop 2 (hex2 x @ t) = t"
  by simp

lemma scan_bytes_hex2:
  "0 \<in> set t \<Longrightarrow> scan_bytes (i # is) (hex2 x @ t) v bs = scan_bytes is t (Some (ucast x)) (bs[i := x])"
  by (simp add: scan_x_hex2)

lemma read_uint32_hex_word:
  assumes "0 \<in> set t"
  shows "read_uint32 (hex_word h v @ t) h s = Ret (v, s)"
proof -
  have "wp (read_uint32 (hex_word h v @ t)) h (\<lambda>w s'. w = v \<and> s' = s) s"
    using assms
    by (simp add: read_uint32_def wp_bind wp_endianness hex_word_def word_octets_def byte_sequence_def
        scan_bytes_hex2 wp_ret union_octets join_word del: scan_bytes.simps(2))
  then show ?thesis by (auto simp: wp_iff)
qed

end
