(* ===== verification/Gdb_Running.thy ===== *)
theory Gdb_Running
  imports Gdb_Framing
begin

unbundle bit_operations_syntax

text \<open>
  Stepping and continuing: the server runs the target and reports why it stopped.
\<close>

section \<open>States of a server\<close>

definition wf_server :: "'z gdb_scheme \<Rightarrow> bool" where
  "wf_server g \<longleftrightarrow> user_state g \<and> length (gdb_packet g) = MAX_PACKET_SIZE"

lemma wf_server_user [simp]: "wf_server g \<Longrightarrow> user_state g"
  by (simp add: wf_server_def)

lemma quiet_reply [simp]:
  "quiet (reply s g) = reply s (quiet g)" "quiet (buffered s g) = buffered s (quiet g)"
  "quiet (g\<lparr>target_exception := e\<rparr>) = (quiet g)\<lparr>target_exception := e\<rparr>"
  by (simp_all add: quiet_def reply_def buffered_def)

lemma user_reply [simp]:
  "user_state (reply s g) = user_state g" "user_state (buffered s g) = user_state g"
  "quiet_user (reply s g) = quiet_user g" "quiet_user (buffered s g) = quiet_user g"
  by (simp_all add: reply_def buffered_def user_state_def quiet_user_def)

lemma fits_upd [simp]:
  "fits s (g\<lparr>target_exception := e\<rparr>) = fits s g" "fits s (quiet g) = fits s g"
  "fits s (g\<lparr>mem := m\<rparr>) = fits s g" "fits s (set_reg i v g) = fits s g"
  "fits s (g\<lparr>calls := c\<rparr>) = fits s g" "fits s (g\<lparr>trc := t\<rparr>) = fits s g"
  by (simp_all add: fits_def)

lemma wf_server_fits: "wf_server g \<Longrightarrow> length s < 1020 \<Longrightarrow> fits s g"
  by (simp add: wf_server_def fits_def MAX_PACKET_SIZE_def)

text \<open>The other fields of the server are those of the state before, after a run of the target.\<close>

lemma runs_fields:
  assumes "runs m h g r g'" "\<And>z. preserves (\<lambda>s. machine.more s = z) m"
  shows "gdb_packet g' = gdb_packet (g :: 'z gdb_scheme)" "calls g' = calls g" "gdb_len g' = gdb_len g"
proof -
  from assms(1) obtain t where t: "m h g = Ret (r, t)" "same_core t g'" by (auto simp: runs_def)
  have m: "machine.more g' = machine.more g"
    using preservesD [OF assms(2) [of "machine.more g"] t(1)] t(2) by (simp add: same_core_def)
  have "gdb_packet g' = gdb_packet g \<and> calls g' = calls g \<and> gdb_len g' = gdb_len g"
    using m by (cases g; cases g'; simp)
  then show "gdb_packet g' = gdb_packet g" "calls g' = calls g" "gdb_len g' = gdb_len g" by simp_all
qed

lemma runs_user: "runs m h s v s' \<Longrightarrow> user_state s'"
  by (auto simp: runs_def same_core_def)

lemmas step_fields = runs_fields [OF _ more.pres_decode(3)]

lemma wf_server_step: "runs arm_step h g r g' \<Longrightarrow> wf_server g \<Longrightarrow> wf_server (g'\<lparr>target_exception := r\<rparr>)"
  by (simp add: wf_server_def step_fields runs_user)

section \<open>Reports\<close>

definition stop_text :: "int \<Rightarrow> string" where
  "stop_text e = (if e = 2 then ''S04'' else if e = 4 \<or> e = 5 then ''S10'' else ''S05'')"

lemma stop_text_fits [simp]: "0 \<notin> set (bytes (stop_text e))" "length (stop_text e) = 3"
  by (simp_all add: stop_text_def)

lemma respecting_send [resp]:
  "respecting same_core (gdb_send_buffer :: ('z, unit) server)"
  "respecting same_core (gdb_send_data d :: ('z, unit) server)"
  "respecting same_core (gdb_send_stop_reason :: ('z, unit) server)"
  "respecting same_core (gdb_transmit_packet :: ('z, unit) server)"
proof -
  show t: "respecting same_core (gdb_transmit_packet :: ('z, unit) server)"
    unfolding gdb_transmit_packet_def by (intro resp)
  show s: "respecting same_core (gdb_send_buffer :: ('z, unit) server)"
    unfolding gdb_send_buffer_def by (intro resp t)
  show d: "respecting same_core (gdb_send_data d :: ('z, unit) server)" for d
    unfolding gdb_send_data_def by (intro resp s)
  show "respecting same_core (gdb_send_stop_reason :: ('z, unit) server)"
    unfolding gdb_send_stop_reason_def by (intro resp d)
qed

lemma stop_reason_text:
  "gdb_send_stop_reason = mbind (gets target_exception) (\<lambda>e. gdb_send_data (stop_text e))"
  by (auto simp: gdb_send_stop_reason_def stop_text_def intro!: arg_cong [where f = "mbind _"])

lemma runs_stop_reason:
  assumes "wf_server g"
  shows "runs gdb_send_stop_reason h g () (reply (bytes (stop_text (target_exception g))) g)"
proof -
  have "fits (bytes (stop_text e)) (quiet g)" for e
    using assms by (simp add: wf_server_fits)
  then show ?thesis
    using assms by (intro runsI resp) (simp_all add: stop_reason_text wp_bind wp_gets wp_send_data)
qed

section \<open>One step\<close>

lemma respecting_step_target [resp]: "respecting same_core (step_target :: ('z, unit) server)"
  unfolding step_target_def by (intro resp)

lemma runs_step_target:
  assumes "runs arm_step h g r g'"
  shows "runs step_target h g () (g'\<lparr>target_exception := r\<rparr>)"
proof -
  have u: "user_state (g'\<lparr>target_exception := r\<rparr>)" using runs_user [OF assms] by simp
  have "runs (modify (\<lambda>g. g\<lparr>target_exception := r\<rparr>)) h g' () (g'\<lparr>target_exception := r\<rparr>)"
    using u by (intro runsI resp) (simp_all add: wp_modify runs_user [OF assms])
  from runs_bind [OF this _ runs_trace(1) [OF u]] show ?thesis
    unfolding step_target_def by (intro runs_bind [OF assms]) (auto intro: resp)
qed

lemma runs_step_request:
  assumes "runs arm_step h g r g'" "wf_server g"
  shows "runs (step d) h g () (reply (bytes (stop_text r)) (g'\<lparr>target_exception := r\<rparr>))"
  unfolding step_def
  using runs_bind [OF runs_step_target [OF assms(1)] _ runs_stop_reason [OF wf_server_step [OF assms]]]
  by (auto intro: resp)

section \<open>Continuing\<close>

text \<open>
  \<open>goes_on h n g g'\<close>: the target takes \<open>n\<close> steps from \<open>g\<close> to \<open>g'\<close> and is at no
  breakpoint before any of them.
\<close>

definition next_word :: "'z machine_scheme \<Rightarrow> u32 outcome" where
  "next_word s = load_word (mem s) (fetch_address s)"

definition is_breakpoint :: "u32 \<Rightarrow> bool" where
  "is_breakpoint w \<longleftrightarrow> w AND 0xFFF000F0 = 0xE7F000F0"

inductive goes_on :: "host \<Rightarrow> nat \<Rightarrow> 'z gdb_scheme \<Rightarrow> 'z gdb_scheme \<Rightarrow> bool" where
  goes_on_0: "goes_on h 0 g g"
| goes_on_Suc: "next_word g = Ret w \<Longrightarrow> \<not> is_breakpoint w \<Longrightarrow> runs arm_step h g r g' \<Longrightarrow>
    goes_on h n (g'\<lparr>target_exception := r\<rparr>) g'' \<Longrightarrow> goes_on h (Suc n) g g''"

inductive_simps goes_on_0_iff [simp]: "goes_on h 0 g g'"
inductive_cases goes_on_SucE: "goes_on h (Suc n) g g'"

text \<open>The read in anticipation, which leaves everything as it is.\<close>

definition peek :: "u32 option \<Rightarrow> ('z, u32) server" where
  "peek v = mseq (set_trace trace_disable)
     (mbind (arm_read_register 15) (\<lambda>pc.
     mbind (arm_read_word (pc - 4) v) (\<lambda>(_, instruction).
     mseq (set_trace trace_enable) (ret instruction))))"

lemma case_prod_bind: "mbind (case p of (a, b) \<Rightarrow> f a b) k = (case p of (a, b) \<Rightarrow> mbind (f a b) k)"
  by (cases p) simp

lemma cont_loop_peek:
  "cont_loop (Suc fuel) v = mbind (peek v) (\<lambda>w.
     if is_breakpoint w then ret () else mseq step_target (cont_loop fuel (Some w)))"
  by (simp add: peek_def is_breakpoint_def mbind_assoc case_prod_bind)

lemma runs_peek:
  assumes "user_state g" "next_word g = Ret w"
  shows "runs (peek v) h g w g"
proof -
  have r: "runs (arm_read_register 15) h g (usr_reg g 15) g"
    using assms(1) by (intro runsI resp) (simp_all add: wp_arm_registers)
  have m: "runs (arm_read_word (usr_reg g 15 - 4) v) h g (0, w) g"
    using assms by (intro runsI resp) (simp_all add: wp_arm_memory next_word_def fetch_address_def)
  have t: "runs (ret w) h g w g" using assms(1) by (intro runsI resp) (simp_all add: wp_ret)
  show ?thesis
    unfolding peek_def
    by (intro runs_bind [OF runs_trace(2)] runs_bind [OF r] runs_bind [OF m] resp assms(1))
      (auto intro!: resp runs_bind [OF runs_trace(3)] t assms(1))
qed

lemma respecting_cont_loop [resp]: "respecting same_core (cont_loop fuel v :: ('z, unit) server)"
  by (induction fuel arbitrary: v) (auto intro!: resp simp: Let_def)

lemma cont_loop_stops:
  assumes "goes_on h n g g'" "user_state g" "next_word g' = Ret w" "is_breakpoint w" "n < fuel"
  shows "runs (cont_loop fuel v) h g () g'"
  using assms
proof (induction arbitrary: fuel v rule: goes_on.induct)
  case (goes_on_0 h g)
  then obtain f where f: "fuel = Suc f" by (cases fuel) auto
  have "runs (ret ()) h g () g"
    using goes_on_0.prems by (intro runsI resp) (simp_all add: wp_ret)
  then show ?case
    using goes_on_0.prems unfolding f cont_loop_peek
    by (intro runs_bind [OF runs_peek]) (auto intro: resp)
next
  case (goes_on_Suc g x h r g1 n g2)
  then obtain f where f: "fuel = Suc f" "n < f" by (cases fuel) auto
  note s = runs_step_target [OF goes_on_Suc.hyps(3)]
  have "runs (cont_loop f (Some x)) h (g1\<lparr>target_exception := r\<rparr>) () g2"
    using goes_on_Suc f runs_user [OF s] by simp
  from runs_bind [OF s _ this] goes_on_Suc show ?case
    unfolding f cont_loop_peek
    by (intro runs_bind [OF runs_peek]) (auto intro: resp)
qed

text \<open>A program that is still running after a run is still running from the start.\<close>

lemma pending_bind:
  assumes "runs m h g v g'" "respecting same_core (f v)" "f v h g' = Pending"
  shows "mbind m f h g = Pending"
proof -
  from assms(1) obtain t where t: "m h g = Ret (v, t)" "same_core t g'" by (auto simp: runs_def)
  with assms(2,3) have "f v h t = Pending"
    unfolding respecting_def
    by (metis outcome_rel_simps(5) same_core_sym)
  with t show ?thesis by (simp add: mbind_def)
qed

lemma cont_loop_pending:
  assumes "goes_on h n g g'" "user_state g"
  shows "cont_loop n v h g = Pending"
  using assms
proof (induction arbitrary: v rule: goes_on.induct)
  case (goes_on_Suc g x h r g1 n g2)
  note s = runs_step_target [OF goes_on_Suc.hyps(3)]
  have "cont_loop n (Some x) h (g1\<lparr>target_exception := r\<rparr>) = Pending"
    using goes_on_Suc runs_user [OF s] by simp
  then have "mseq step_target (cont_loop n (Some x)) h g = Pending"
    by (intro pending_bind [OF s]) (auto intro: resp)
  with goes_on_Suc show ?case
    unfolding cont_loop_peek
    by (intro pending_bind [OF runs_peek]) (auto intro: resp)
qed (simp add: still_running_def)

lemma goes_on_wf: "goes_on h n g g' \<Longrightarrow> wf_server g \<Longrightarrow> wf_server g'"
  by (induction rule: goes_on.induct) (auto dest: wf_server_step)

lemma runs_cont:
  assumes "goes_on h n g g'" "wf_server g" "next_word g' = Ret w" "is_breakpoint w" "n < fuel"
  shows "runs (cont fuel d) h g () (reply (bytes (stop_text (target_exception g'))) g')"
  unfolding cont_def
  using assms runs_stop_reason [OF goes_on_wf [OF assms(1,2)]]
  by (intro runs_bind [OF cont_loop_stops]) (auto intro: resp)

section \<open>A branch to itself\<close>

lemma branch_to_itself:
  assumes "user_state s" "next_word s = Ret 0xEAFFFFFE"
  shows "runs arm_step h s 0 (set_reg 15 (fetch_address s) (fetched s))"
proof -
  have o: "branch_offset 0xEAFFFFFE = -8" by code_simp
  show ?thesis
    using assms usr_reg_fetched(1) [OF assms(1)]
    by (intro runsI resp_decode) (simp_all add: wp_arm_step next_word_def decode_class_cases
      get_bits_eval wp_arm_branch o flip: fetch_address_def)
qed

lemma usr_reg_masked: "usr_reg s 15 AND 0xFFFFFFFD = usr_reg s 15"
  by (rule mask_bit_1) (simp add: usr_reg_def bit_simps)

lemma fetch_address_branch: "user_state s \<Longrightarrow> fetch_address (set_reg 15 (fetch_address s) (fetched s)) = fetch_address s"
  using usr_reg_masked [of s]
  by (simp add: fetch_address_def usr_reg_def [of "set_reg 15 v t" for v t] fetched_def
      user_state_def wf_registers_def)

lemma endless_loop:
  assumes "user_state g" "next_word g = Ret 0xEAFFFFFE"
  shows "\<exists>g'. goes_on h n g g'"
  using assms
proof (induction n arbitrary: g)
  case (Suc n)
  let ?g = "(set_reg 15 (fetch_address g) (fetched g))\<lparr>target_exception := 0\<rparr>"
  have "next_word ?g = Ret 0xEAFFFFFE" "user_state ?g"
    using Suc.prems fetch_address_branch [OF Suc.prems(1)]
    by (simp_all add: next_word_def fetch_address_def)
  from Suc.IH [OF this(2,1)] obtain g' where g': "goes_on h n ?g g'" by blast
  have "\<not> is_breakpoint 0xEAFFFFFE" by (simp add: is_breakpoint_def)
  from goes_on_Suc [OF Suc.prems(2) this branch_to_itself [OF Suc.prems] g'] show ?case by blast
qed auto

section \<open>A sample server\<close>

text \<open>A server on the machine with a program at address 0, for examples.\<close>

definition sample_server :: "u8 list \<Rightarrow> gdb" where
  "sample_server bs = gdb_init_data (replicate 1024 0) (loaded bs [])"

lemma sample_server_simps [simp]:
  "length (gdb_packet (sample_server bs)) = 1024" "calls (sample_server bs) = []"
  "mem (sample_server bs) = memory_create (bs @ replicate (64 - length bs) 0) 64 1"
  "regs (reg (sample_server bs)) = replicate 37 0" "wf_server (sample_server bs)"
proof -
  show "length (gdb_packet (sample_server bs)) = 1024" "calls (sample_server bs) = []"
    "mem (sample_server bs) = memory_create (bs @ replicate (64 - length bs) 0) 64 1"
    and r: "regs (reg (sample_server bs)) = replicate 37 0"
    by (simp_all add: sample_server_def gdb_init_data_def machine.defs gdb.defs MAX_PACKET_SIZE_def
      loaded_def sample_def registers_create_def)
  show "wf_server (sample_server bs)"
    using loaded_simps(1) [of "[]" bs]
    by (simp add: wf_server_def sample_server_def gdb_init_data_def machine.defs gdb.defs
      MAX_PACKET_SIZE_def user_state_def)
qed

lemma sample_fetch: "fetch_address (sample_server bs) = 0"
  by (simp add: fetch_address_def usr_reg_def)

lemma sample_loops: "next_word (sample_server [0xEA, 0xFF, 0xFF, 0xFE]) = Ret 0xEAFFFFFE"
  by (simp add: next_word_def sample_fetch)

section \<open>Properties\<close>

text \<open>
  The request to step executes one instruction and reports signal 4 if the simulator
  does not implement it, signal 5 otherwise; the aborts, which are the other answer the server
  knows, never happen.
\<close>

theorem step_request:
  assumes "wf_server g" "runs arm_step h g r g'"
  shows "runs (step d) h g () (reply (bytes (if r = 2 then ''S04'' else ''S05''))
    (g'\<lparr>target_exception := r\<rparr>))"
proof -
  have "yields (\<lambda>r. r \<in> {0, 2, 3}) arm_step"
    using yields_execute by (simp add: arm_step_decode arm_execute_instruction_def)
  with assms(2) have "r \<in> {0, 2, 3}" by (auto simp: runs_def yields_def)
  then have "stop_text r = (if r = 2 then ''S04'' else ''S05'')" by (auto simp: stop_text_def)
  with runs_step_request [OF assms(2,1), of d] show ?thesis by simp
qed

theorem step_request_witness:
  "\<exists>g'. runs (step []) x86_host (sample_server [0xEA, 0xFF, 0xFF, 0xFE]) () (reply (bytes ''S05'') g')"
  using step_request [OF _ branch_to_itself [OF _ sample_loops], of "[]" x86_host] by auto

text \<open>
  C23: The request to continue executes instructions until the next one is the breakpoint
  instruction, and stops at that instruction without executing it; what the executed
  instructions report does not stop it. The last of these reports is sent.
\<close>

theorem continue_stops:
  assumes "goes_on h n g g'" "wf_server g" "next_word g' = Ret w" "is_breakpoint w" "n < fuel"
  shows "runs (cont fuel d) h g () (reply (bytes (stop_text (target_exception g'))) g')"
  using assms by (rule runs_cont)

theorem continue_stops_witness:
  "\<exists>g'. runs (cont 2 []) x86_host (sample_server [0xEA, 0xFF, 0xFF, 0xFF, 0xE7, 0xF0, 0, 0xF0]) ()
     (reply (bytes ''S05'') g')"
proof -
  let ?g = "sample_server [0xEA, 0xFF, 0xFF, 0xFF, 0xE7, 0xF0, 0, 0xF0]"
  let ?t = "(set_reg 15 4 (fetched ?g))\<lparr>target_exception := 0\<rparr>"
  have o: "branch_offset 0xEAFFFFFF = -4" by code_simp
  have w: "next_word ?g = Ret 0xEAFFFFFF" by (simp add: next_word_def sample_fetch)
  have s: "runs arm_step x86_host ?g 0 (set_reg 15 4 (fetched ?g))"
    by (rule runs_step [where ins = "0xEAFFFFFF"]; (intro runsI resp_decode)?)
      (simp_all add: sample_fetch decode_class_cases get_bits_eval wp_arm_branch o usr_reg_fetched)
  have "usr_reg ?t 15 = 8" by (simp add: usr_reg_def fetched_def)
  then have t: "next_word ?t = Ret 0xE7F000F0"
    by (simp add: next_word_def fetch_address_def fetched_def load_word_def memory_read_word_def
        octet_def memory_create_def)
  have "goes_on x86_host 1 ?g ?t"
    using goes_on_Suc [OF w _ s goes_on_0] by (simp add: is_breakpoint_def)
  from continue_stops [OF this _ t, of 2 "[]"] show ?thesis
    by (auto simp: is_breakpoint_def stop_text_def)
qed

end
