(* ===== verification/Gdb_Packets.thy ===== *)
theory Gdb_Packets
  imports Gdb_Running
begin

unbundle bit_operations_syntax

text \<open>
  Packets: which ones the server accepts, and what it does with an accepted one.
\<close>

section \<open>The check of a packet\<close>

text \<open>A packet with the payload \<open>s\<close> and the two digits of \<open>x\<close>, terminated as the scanner does.\<close>

definition packet_with :: "u8 list \<Rightarrow> u8 \<Rightarrow> u8 list" where
  "packet_with s x = bytes ''$'' @ s @ bytes ''#'' @ hex2 x @ [0]"

lemma frame_packet: "frame s @ [0] = packet_with s (sum_list s)"
  by (simp add: frame_def packet_with_def)

lemma sum_at_range:
  "j + length s \<le> length p \<Longrightarrow> take (length s) (drop j p) = s \<Longrightarrow>
     sum_at [j..<j + length s] p c = Ret (c + sum_list s)"
proof (induction s arbitrary: j c)
  case (Cons x s)
  then have p: "p ! j = x" "take (length s) (drop (Suc j) p) = s"
    by (auto simp: take_Suc_conv_app_nth Cons_nth_drop_Suc [symmetric])
  have "[j..<j + length (x # s)] = j # [Suc j..<Suc j + length s]"
    by (simp add: upt_conv_Cons del: upt_Suc)
  with p Cons.IH [of "Suc j" "c + x"] Cons.prems show ?case
    by (simp add: byte_at_def ac_simps del: upt_Suc)
qed simp

text \<open>What the server does with an accepted packet.\<close>

definition handle ::
  "(u8 \<Rightarrow> 'z gdb_handler_t option) \<Rightarrow> u8 \<Rightarrow> u8 list \<Rightarrow> ('z, unit) server" where
  "handle handler c t = (case handler c of None \<Rightarrow> gdb_send_data ''''
     | Some f \<Rightarrow> mseq (call Mutex_lock) (mseq (f t) (call Mutex_unlock)))"

lemma analysis_packet:
  "gdb_packet_analysis handler (packet_with s x) (int (length s) + 4) =
     (if x = sum_list s then mseq gdb_send_ack
        (handle handler (hd (s @ [0])) (tl (s @ [0]) @ hex2 x @ [0]))
      else gdb_require_retransmission)"
proof -
  let ?p = "packet_with s x"
  have i: "max 1 (nat (int (length s) + 4 - 3)) = Suc (length s)" by simp
  have "sum_at [1..<1 + length s] ?p 0 = Ret (0 + sum_list s)"
    by (rule sum_at_range) (simp_all add: packet_with_def)
  then have sum: "sum_at [1..<Suc (length s)] ?p 0 = Ret (sum_list s)" by simp
  have given: "scan_x None (drop (Suc (length s) + 1) ?p) None = Ret (Some (ucast x))"
    using scan_x_hex2_end [of x] by (simp add: packet_with_def)
  have eq: "(ucast (sum_list s) :: u32) = ucast x \<longleftrightarrow> x = sum_list s"
    by (metis ucast_u8_u32)
  have cut: "?p[Suc (length s) := 0] = of_char CHR ''$'' # s @ 0 # hex2 x @ [0]"
    by (simp add: packet_with_def)
  show ?thesis
    unfolding gdb_packet_analysis_def Let_def i sum given lift_o_Ret mbind_ret read_local_Some eq cut
    by (cases s) (auto simp: byte_at_def handle_def intro!: arg_cong [where f = "mbind _"]
        split: option.splits)
qed

section \<open>The table of handlers\<close>

lemma gdb_init_simps [simp]:
  "gdb_init fuel 99 = Some (cont fuel)" "gdb_init fuel 107 = Some kill_request"
  "gdb_init fuel 113 = Some query" "gdb_init fuel 103 = Some read_general_registers"
  "gdb_init fuel 109 = Some read_memory" "gdb_init fuel 112 = Some gdb_read_register"
  "gdb_init fuel 63 = Some reason" "gdb_init fuel 72 = Some set_thread"
  "gdb_init fuel 115 = Some step" "gdb_init fuel 71 = Some write_general_registers"
  "gdb_init fuel 88 = Some write_memory_binary" "gdb_init fuel 80 = Some gdb_write_register"
  by (simp_all add: gdb_init_def)

lemma gdb_init_None_iff:
  "gdb_init fuel c = None \<longleftrightarrow> c \<notin> set (bytes ''ckqgmp?HsGXP'')"
  by (auto simp: gdb_init_def)

section \<open>Accepted packets\<close>

abbreviation after_call :: "io \<Rightarrow> 'z gdb_scheme \<Rightarrow> 'z gdb_scheme" where
  "after_call c g \<equiv> g\<lparr>calls := calls g @ [c]\<rparr>"

lemma call_bind: "mbind (call c) f h g = f () h (after_call c g)"
  by (simp add: call_def mbind_def modify_def)

lemma call_run: "call c h g = Ret ((), after_call c g)"
  by (simp add: call_def modify_def)

lemma wf_server_call [simp]: "wf_server (after_call c g) = wf_server g"
  by (simp add: wf_server_def)

text \<open>A packet whose digits are the sum of its payload \<open>c # d\<close>, and what then happens.\<close>

definition request :: "nat \<Rightarrow> u8 \<Rightarrow> u8 list \<Rightarrow> ('z, unit) server" where
  "request fuel c d = gdb_packet_analysis (gdb_init fuel) (frame (c # d) @ [0]) (int (length d) + 5)"

lemma request_handle:
  "request fuel c d = mseq gdb_send_ack
     (handle (gdb_init fuel) c (d @ 0 # hex2 (sum_list (c # d)) @ [0]))"
  using analysis_packet [of "gdb_init fuel" "c # d" "sum_list (c # d)"]
  by (simp add: request_def frame_packet add.commute)

abbreviation ack :: io where "ack \<equiv> Rio_writen (bytes ''+'')"

text \<open>The state in which the handler runs, and the one after it.\<close>

definition locked :: "'z gdb_scheme \<Rightarrow> 'z gdb_scheme" where
  "locked g = g\<lparr>calls := calls g @ [ack, Mutex_lock]\<rparr>"

lemma locked_simps [simp]:
  "wf_server (locked g) = wf_server g" "user_state (locked g) = user_state g" "mem (locked g) = mem g"
  "next_word (locked g) = next_word g" "usr_reg (locked g) r = usr_reg g r" "cpsr (locked g) = cpsr g"
  "gdb_packet (locked g) = gdb_packet g" "calls (locked g) = calls g @ [ack, Mutex_lock]"
  by (simp_all add: locked_def next_word_def fetch_address_def wf_server_def)

lemma request_run:
  "gdb_init fuel c = Some f \<Longrightarrow>
     request fuel c d h g = mseq (f (d @ 0 # hex2 (sum_list (c # d)) @ [0])) (call Mutex_unlock) h (locked g)"
  by (simp add: request_handle handle_def gdb_send_ack_def call_bind locked_def)

lemma runs_request:
  assumes f: "gdb_init fuel c = Some f"
    and r: "runs (f (d @ 0 # hex2 (sum_list (c # d)) @ [0])) h (locked g) () g'"
  shows "runs (request fuel c d) h g () (after_call Mutex_unlock g')"
proof -
  from r obtain t where t: "f (d @ 0 # hex2 (sum_list (c # d)) @ [0]) h (locked g) = Ret ((), t)"
    "same_core t g'" by (auto simp: runs_def)
  then have "same_core (after_call Mutex_unlock t) (after_call Mutex_unlock g')"
    by (simp add: same_core_server same_core_server_upd)
  with t show ?thesis
    unfolding runs_def request_run [OF f] by (simp add: mbind_def call_run)
qed

lemma request_pending:
  assumes "gdb_init fuel c = Some f"
    and "f (d @ 0 # hex2 (sum_list (c # d)) @ [0]) h (locked g) = Pending"
  shows "request fuel c d h g = Pending"
  using assms(2) by (simp add: request_run [OF assms(1)] mbind_def)

section \<open>Properties\<close>

text \<open>
  C14: A packet is accepted exactly if its two digits are the sum of its payload modulo 256. An
  accepted packet is acknowledged and handled with the handler of its first character (0
  for an empty payload); for any other only a retransmission is asked for.
\<close>

theorem packet_check:
  "gdb_packet_analysis handler (packet_with s x) (int (length s) + 4) =
     (if x = sum_list s
      then mseq gdb_send_ack (handle handler (hd (s @ [0])) (tl (s @ [0]) @ hex2 x @ [0]))
      else gdb_require_retransmission)"
  by (rule analysis_packet)

text \<open>
  The server sends in frames of the form it accepts: what it writes for a reply is, with a
  terminator, a packet with the digits its own check expects.
\<close>

theorem reply_is_packet:
  assumes "0 \<notin> set s" "fits s g"
  shows "\<exists>p. wp gdb_send_buffer h (\<lambda>_ g'. calls g' = calls g @ [Rio_writen p] \<and>
    p @ [0] = packet_with s (sum_list s)) (buffered s g)"
  using assms
  by (intro exI [of _ "frame s"]) (simp add: wp_send_buffer frame_packet reply_def)

theorem reply_is_packet_witness:
  "\<exists>p. wp gdb_send_buffer x86_host (\<lambda>_ g'. calls g' = [Rio_writen p] \<and>
     p @ [0] = packet_with (bytes ''OK'') (sum_list (bytes ''OK''))) (buffered (bytes ''OK'') (sample_server []))"
  using reply_is_packet [of "bytes ''OK''" "sample_server []" x86_host] by (simp add: fits_def)

text \<open>
  A request the server has no handler for is acknowledged and answered with an empty reply,
  without taking the lock.
\<close>

theorem unsupported_request:
  assumes "wf_server g" "c \<notin> set (bytes ''ckqgmp?HsGXP'')"
  shows "request fuel c d h g = Ret ((), reply [] (after_call ack g))"
proof -
  have "gdb_init fuel c = (None :: 'a gdb_handler_t option)"
    using assms(2) by (simp only: gdb_init_None_iff not_False_eq_True)
  moreover have "wp (gdb_send_data '''') h (\<lambda>_ g'. g' = reply [] (after_call ack g)) (after_call ack g)"
    using assms(1) by (subst wp_send_data) (simp_all add: wf_server_fits)
  ultimately show ?thesis
    by (auto simp: request_handle handle_def gdb_send_ack_def call_bind wp_iff)
qed

theorem unsupported_request_witness:
  "request 0 (of_char CHR ''Z'') [] x86_host (sample_server []) =
     Ret ((), reply [] (after_call ack (sample_server [])))"
  using unsupported_request [of "sample_server []" "of_char CHR ''Z''" 0 "[]" x86_host] by simp

text \<open>
  C37: A request to continue a program that branches to itself never ends: however often the loop
  runs it is not over, so that no reply is sent and the lock is not released.
\<close>

theorem continue_forever:
  assumes "user_state g" "next_word g = Ret 0xEAFFFFFE"
  shows "\<forall>fuel. request fuel (of_char CHR ''c'') d h g = Pending"
proof
  fix fuel
  obtain g' where "goes_on h fuel (locked g) g'"
    using endless_loop [of "locked g" h fuel] assms by auto
  then have "cont_loop fuel None h (locked g) = Pending"
    using cont_loop_pending [of h fuel "locked g"] assms(1) by simp
  then show "request fuel (of_char CHR ''c'') d h g = Pending"
    by (intro request_pending [of _ _ "cont fuel"]) (simp_all add: cont_def mbind_def)
qed

theorem continue_forever_witness:
  "\<forall>fuel. request fuel (of_char CHR ''c'') [] x86_host (sample_server [0xEA, 0xFF, 0xFF, 0xFE]) = Pending"
  using continue_forever [OF _ sample_loops, of "[]" x86_host] by simp

end
