(* ===== verification/Gdb_Memory.thy ===== *)
theory Gdb_Memory
  imports Gdb_Packets
begin

unbundle bit_operations_syntax

text \<open>
  The requests to read and to write memory.
\<close>

section \<open>Blocks of octets\<close>

definition addresses :: "u32 \<Rightarrow> nat \<Rightarrow> u32 list" where
  "addresses a n = map (\<lambda>i. a + of_nat i) [0..<n]"

definition block_bytes :: "memory \<Rightarrow> u32 \<Rightarrow> nat \<Rightarrow> u8 list" where
  "block_bytes m a n = map (\<lambda>c. octets m ! unat c) (addresses a n)"

lemma addresses_simps [simp]:
  "addresses a 0 = []" "addresses a (Suc n) = a # addresses (a + 1) n" "length (addresses a n) = n"
proof -
  have "map (\<lambda>i. a + of_nat i) [Suc 0..<Suc n] = map (\<lambda>i. a + 1 + of_nat i) [0..<n]"
    by (simp add: map_Suc_upt [symmetric] ac_simps del: upt_Suc)
  then show "addresses a (Suc n) = a # addresses (a + 1) n"
    by (simp add: addresses_def upt_conv_Cons del: upt_Suc)
qed (simp_all add: addresses_def)

lemma block_bytes_simps [simp]:
  "block_bytes m a 0 = []" "block_bytes m a (Suc n) = octets m ! unat a # block_bytes m (a + 1) n"
  "length (block_bytes m a n) = n"
  by (simp_all add: block_bytes_def)

lemma in_block_addresses: "in_block m a n \<longleftrightarrow> (\<forall>c \<in> set (addresses a n). unat c < length (octets m))"
  by (auto simp: in_block_def addresses_def)

lemma in_block_Suc: "in_block m a (Suc n) \<longleftrightarrow> unat a < length (octets m) \<and> in_block m (a + 1) n"
  by (simp add: in_block_addresses)

lemma distinct_addresses: "n \<le> 2 ^ 32 \<Longrightarrow> distinct (addresses a n)"
  by (auto simp: addresses_def distinct_map inj_on_def of_nat_u32_eq_iff)

section \<open>Reading\<close>

lemma buffered_fields [simp]:
  "mem (buffered s g) = mem g" "calls (buffered s g) = calls g" "trc (buffered s g) = trc g"
  "usr_reg (buffered s g) r = usr_reg g r" "cpsr (buffered s g) = cpsr g"
  by (simp_all add: buffered_def)

lemma wp_print_memory:
  assumes "length s + 1 < length (gdb_packet g)" "i = length s + 1" "in_block (mem g) a n"
  shows "wp (print_memory n a v i) h Q (buffered s g) \<longleftrightarrow>
    length s + 2 * n + 1 < length (gdb_packet g) \<and>
    Q () (buffered (s @ hex_octets (block_bytes (mem g) a n)) g)"
  using assms
proof (induction n arbitrary: a v i s)
  case (Suc n)
  let ?b = "octets (mem g) ! unat a"
  have o: "octet (mem g) a = Ret ?b" "in_block (mem g) (a + 1) n"
    using Suc.prems(3) by (auto simp: in_block_Suc octet_def)
  have "wp (print_memory n (a + 1) (Some ?b) (i + 2)) h Q (buffered (s @ hex2 ?b) g) \<longleftrightarrow>
      length s + 2 * Suc n + 1 < length (gdb_packet g) \<and>
      Q () (buffered (s @ hex_octets (block_bytes (mem g) a (Suc n))) g)"
    if "length s + 3 < length (gdb_packet g)"
    using Suc.IH [of "s @ hex2 ?b" "i + 2" "a + 1"] Suc.prems that o by (simp add: numeral_3_eq_3)
  then show ?case
    using Suc.prems o
    by (auto simp: wp_bind wp_gets wp_lift_o wp_read_local memory_byte_octet wp_put_append)
qed (simp add: wp_ret)

lemma ends_print_memory:
  assumes "length s + 1 < length (gdb_packet g)" "i = length s + 1" "in_block (mem g) a n"
    "length (gdb_packet g) \<le> length s + 2 * n + 1"
  shows "ends (print_memory n a v i) h (buffered s g) (Undefined Out_of_bounds)"
  using assms
proof (induction n arbitrary: a v i s)
  case (Suc n)
  let ?b = "octets (mem g) ! unat a"
  have o: "octet (mem g) a = Ret ?b" "in_block (mem g) (a + 1) n"
    using Suc.prems(3) by (auto simp: in_block_Suc octet_def)
  have "ends (print_memory n (a + 1) (Some ?b) (i + 2)) h (buffered (s @ hex2 ?b) g) (Undefined Out_of_bounds)"
    if "length s + 3 < length (gdb_packet g)"
    using Suc.IH [of "s @ hex2 ?b" "i + 2" "a + 1"] Suc.prems that o by simp
  then show ?case
    using Suc.prems o length_buffered [of s g]
    by (auto simp: end_simps wp_gets wp_lift_o wp_read_local memory_byte_octet wp_put_append)
qed simp

lemma buffered_Nil: "1 < length (gdb_packet g) \<Longrightarrow> g\<lparr>gdb_packet := (gdb_packet g)[1 := 0]\<rparr> = buffered [] g"
  by (cases "gdb_packet g"; cases "tl (gdb_packet g)") (auto simp: buffered_def)

lemma wp_read_memory:
  assumes d: "scan_x_x d None None = Ret (Some a, Some n)"
    and g: "length (gdb_packet g) = MAX_PACKET_SIZE" "in_block (mem g) a (unat n)" "unat n < 510"
  shows "wp (read_memory d) h Q g \<longleftrightarrow> Q () (reply (hex_octets (block_bytes (mem g) a (unat n))) g)"
  using g wp_print_memory [of "[]" g 1 a "unat n" None h]
    wp_send_buffer [of "hex_octets (block_bytes (mem g) a (unat n))" g h Q]
    wp_send_buffer [of "[]" g h Q]
  by (auto simp: read_memory_def d wp_bind wp_server(2) wp_read_local wp_ret buffered_Nil fits_def
      MAX_PACKET_SIZE_def simp del: One_nat_def)

lemma ends_read_memory:
  assumes d: "scan_x_x d None None = Ret (Some a, Some n)"
    and g: "length (gdb_packet g) = MAX_PACKET_SIZE" "in_block (mem g) a (unat n)" "510 \<le> unat n"
  shows "ends (read_memory d) h g (Undefined Out_of_bounds)"
proof -
  have n: "n \<noteq> 0" using g(3) by auto
  consider "length (gdb_packet g) \<le> 2 * unat n + 1" | "2 * unat n + 1 < length (gdb_packet g)"
    by linarith
  then show ?thesis
  proof cases
    case 1
    then show ?thesis
      using g n ends_print_memory [of "[]" g 1 a "unat n" None h]
      by (simp add: read_memory_def d end_simps wp_server(2) wp_read_local buffered_Nil
          MAX_PACKET_SIZE_def del: One_nat_def)
  next
    case 2
    then show ?thesis
      using g n wp_print_memory [of "[]" g 1 a "unat n" None h]
        send_buffer_overflow [of "hex_octets (block_bytes (mem g) a (unat n))" g h]
      by (simp add: read_memory_def d end_simps wp_server(2) wp_read_local wp_bind buffered_Nil fits_def
          MAX_PACKET_SIZE_def del: One_nat_def)
  qed
qed

section \<open>Writing\<close>

text \<open>The escaping of binary data the debugger uses.\<close>

definition escape_byte :: "u8 \<Rightarrow> u8 list" where
  "escape_byte b = (if b \<in> set (bytes ''#$}'') then [0x7d, b XOR 0x20] else [b])"

definition escape :: "u8 list \<Rightarrow> u8 list" where
  "escape bs = concat (map escape_byte bs)"

lemma decode_escape: "decode_byte (escape_byte b @ t) = Ret (b, t)"
  by (simp add: decode_byte_def escape_byte_def byte_at_def xor.assoc)

definition put_bytes :: "memory \<Rightarrow> u32 \<Rightarrow> u8 list \<Rightarrow> memory outcome" where
  "put_bytes m a bs = block.puts m (zip (addresses a (length bs)) bs)"

lemma put_bytes_simps [simp]:
  "put_bytes m a [] = Ret m"
  "put_bytes m a (b # bs) = obind (put_octet m a b) (\<lambda>m. put_bytes m (a + 1) bs)"
  by (simp_all add: put_bytes_def)

lemma wp_store_bytes:
  "wp (store_bytes (length bs) (escape bs @ t) a) h Q g \<longleftrightarrow>
     (\<exists>m. put_bytes (mem g) a bs = Ret m \<and> Q True (g\<lparr>mem := m\<rparr>))"
proof (induction bs arbitrary: a g)
  case (Cons b bs)
  then show ?case
    by (auto simp: escape_def decode_escape memory_byte_octet wp_bind wp_gets wp_lift_o wp_modify
        obind_Ret_iff split: prod.splits)
qed (auto simp: wp_ret)

lemma ends_store_bytes:
  "ends (store_bytes (length bs) (escape bs @ t) a) h g e \<longleftrightarrow>
     obind (put_bytes (mem g) a bs) (\<lambda>_. Ret ()) = e \<and> e \<noteq> Ret ()"
proof (induction bs arbitrary: a g)
  case (Cons b bs)
  then show ?case
    by (cases "put_octet (mem g) a b")
      (auto simp: escape_def decode_escape memory_byte_octet end_simps wp_gets wp_lift_o wp_modify)
qed (auto simp: end_simps)

lemma put_bytes_undefined:
  "\<not> in_block m a (length bs) \<Longrightarrow> put_bytes m a bs = Undefined Out_of_bounds"
proof (induction bs arbitrary: m a)
  case (Cons b bs)
  show ?case
  proof (cases "put_octet m a b")
    case (Ret m')
    then have "length (octets m') = length (octets m)" by (simp add: put_octet_memory)
    with Ret Cons show ?thesis
      by (auto simp: in_block_Suc put_octet_def in_block_addresses split: if_splits)
  qed (auto simp: put_octet_def split: if_splits)
qed (simp add: in_block_addresses)

lemma put_bytes_defined: "in_block m a (length bs) \<Longrightarrow> \<exists>m'. put_bytes m a bs = Ret m'"
  unfolding put_bytes_def
  by (rule block.puts_valid) (auto simp: in_block_addresses dest: set_zip_leftD)

lemma put_bytes_frame:
  "put_bytes m a bs = Ret m' \<Longrightarrow> mem_size m' = mem_size m \<and> mem_big_endian m' = mem_big_endian m
     \<and> length (octets m') = length (octets m)"
  unfolding put_bytes_def by (rule puts_frame)

lemma put_bytes_other:
  "put_bytes m a bs = Ret m' \<Longrightarrow> c \<notin> set (addresses a (length bs)) \<Longrightarrow> octet m' c = octet m c"
  unfolding put_bytes_def by (erule block.get_puts_other) (auto dest: set_zip_leftD)

lemma put_bytes_same:
  assumes "put_bytes m a bs = Ret m'" "length bs \<le> 2 ^ 32"
  shows "block_bytes m' a (length bs) = bs"
proof (rule nth_equalityI)
  fix i assume "i < length (block_bytes m' a (length bs))"
  then have i: "i < length bs" by simp
  then have "(addresses a (length bs) ! i, bs ! i) \<in> set (zip (addresses a (length bs)) bs)"
    by (auto simp: in_set_zip)
  then have "octet m' (addresses a (length bs) ! i) = Ret (bs ! i)"
    using block.get_puts_same [OF assms(1) [unfolded put_bytes_def]] distinct_addresses [OF assms(2)]
    by simp
  with i show "block_bytes m' a (length bs) ! i = bs ! i"
    by (auto simp: block_bytes_def octet_def split: if_splits)
qed simp

lemma address_test: "wf_memory m \<Longrightarrow> ucast a < memory_get_size m \<longleftrightarrow> unat (a :: u32) < length (octets m)"
proof -
  have "take_bit 64 (unat a) = unat a"
    by (rule take_bit_nat_eq_self) (rule less_trans [OF unsigned_less], simp)
  then have "unat (ucast a :: u64) = unat a" by (simp add: unsigned_ucast_eq)
  then show "wf_memory m \<Longrightarrow> ?thesis" by (simp add: wf_memory_def memory_get_size_def word_less_nat_alt)
qed

text \<open>
  \<open>writes d a bs\<close>: the text \<open>d\<close> behind the letter X asks to write the bytes \<open>bs\<close> at \<open>a\<close>.
\<close>

definition writes :: "u8 list \<Rightarrow> u32 \<Rightarrow> u8 list \<Rightarrow> bool" where
  "writes d a bs \<longleftrightarrow> length bs < 2 ^ 32 \<and>
     scan_x_x d None None = Ret (Some a, Some (of_nat (length bs))) \<and>
     (\<exists>t. c_index (of_char CHR '':'') d = Ret (Some (of_char CHR '':'' # escape bs @ t)))"

lemma wp_write_memory:
  assumes d: "writes d a bs" and g: "wf_memory (mem g)" "unat a < length (octets (mem g))" "fits (bytes ''OK'') g"
  shows "wp (write_memory_binary d) h Q g \<longleftrightarrow>
    (\<exists>m. put_bytes (mem g) a bs = Ret m \<and> Q () (reply (bytes ''OK'') (g\<lparr>mem := m\<rparr>)))"
proof -
  from d obtain t where t: "c_index (of_char CHR '':'') d = Ret (Some (of_char CHR '':'' # escape bs @ t))"
    "scan_x_x d None None = Ret (Some a, Some (of_nat (length bs)))" "unat (of_nat (length bs) :: u32) = length bs"
    by (auto simp: writes_def unat_of_nat)
  show ?thesis
    using g t by (auto simp: write_memory_binary_def wp_bind wp_gets wp_lift_o wp_read_local wp_store_bytes
        address_test wp_send_data)
qed

lemma ends_write_memory:
  assumes d: "writes d a bs" and g: "wf_memory (mem g)" "unat a < length (octets (mem g))" "\<not> in_block (mem g) a (length bs)"
  shows "ends (write_memory_binary d) h g (Undefined Out_of_bounds)"
proof -
  from d obtain t where t: "c_index (of_char CHR '':'') d = Ret (Some (of_char CHR '':'' # escape bs @ t))"
    "scan_x_x d None None = Ret (Some a, Some (of_nat (length bs)))" "unat (of_nat (length bs) :: u32) = length bs"
    by (auto simp: writes_def unat_of_nat)
  show ?thesis
    using g t by (auto simp: write_memory_binary_def end_simps wp_gets wp_lift_o wp_read_local ends_store_bytes
        address_test put_bytes_undefined)
qed

section \<open>Properties\<close>

lemma respecting_hex [resp]:
  "respecting R (scan_bytes is d v bs)" "respecting R (read_uint32 d)"
  "respecting same_core (print_bytes is pos bs :: ('z, nat) server)"
  "respecting same_core (write_uint32 pos w :: ('z, unit) server)"
proof -
  show s: "respecting R (scan_bytes is d v bs)" for "is" d v bs
    by (induction "is" d v bs rule: scan_bytes.induct) (auto intro: resp)
  show "respecting R (read_uint32 d)" unfolding read_uint32_def by (intro resp s)
  show p: "respecting same_core (print_bytes is pos bs :: ('z, nat) server)" for "is" pos bs
    by (induction "is" pos bs rule: print_bytes.induct) (auto intro: resp)
  show "respecting same_core (write_uint32 pos w :: ('z, unit) server)"
    unfolding write_uint32_def by (intro resp p)
qed

lemma respecting_memory_requests [resp]:
  "respecting same_core (print_memory n a v pos :: ('z, unit) server)"
  "respecting same_core (store_bytes n c a :: ('z, bool) server)"
  "respecting same_core (read_memory d :: ('z, unit) server)"
  "respecting same_core (write_memory_binary d :: ('z, unit) server)"
proof -
  show p: "respecting same_core (print_memory n a v pos :: ('z, unit) server)" for n a v pos
    by (induction n arbitrary: a v pos) (auto intro!: resp)
  show s: "respecting same_core (store_bytes n c a :: ('z, bool) server)" for n c a
    by (induction n arbitrary: c a) (auto intro!: resp respecting_modify_core)
  show "respecting same_core (read_memory d :: ('z, unit) server)"
    unfolding read_memory_def by (intro resp p)
  show "respecting same_core (write_memory_binary d :: ('z, unit) server)"
    unfolding write_memory_binary_def Let_def by (intro resp s)
qed

lemma wf_server_upd [simp]:
  "wf_server (g\<lparr>mem := m\<rparr>) = wf_server g" "wf_server (set_reg i v g) = wf_server g"
  "wf_server (g\<lparr>target_exception := e\<rparr>) = wf_server g"
  by (simp_all add: wf_server_def)

lemma length_reply: "fits s g \<Longrightarrow> length (gdb_packet (reply s g)) = length (gdb_packet g)"
  by (simp add: reply_def fits_def)

lemma wf_server_reply: "fits s g \<Longrightarrow> wf_server (reply s g) = wf_server g"
  by (simp add: wf_server_def length_reply)

lemma mem_reply [simp]: "mem (reply s g) = mem g" "calls (reply s g) = calls g @ [Rio_writen (frame s)]"
  by (simp_all add: reply_def)

lemma runs_read_memory:
  assumes "wf_server g" "scan_x_x d None None = Ret (Some a, Some n)" "in_block (mem g) a (unat n)"
    "unat n < 510"
  shows "runs (read_memory d) h g () (reply (hex_octets (block_bytes (mem g) a (unat n))) g)"
  using assms by (auto simp: wf_server_def wp_read_memory intro!: runsI resp)

lemma runs_write_memory:
  assumes "wf_server g" "wf_memory (mem g)" "writes d a bs" "unat a < length (octets (mem g))"
    "put_bytes (mem g) a bs = Ret m"
  shows "runs (write_memory_binary d) h g () (reply (bytes ''OK'') (g\<lparr>mem := m\<rparr>))"
  using assms by (intro runsI resp) (simp_all add: wp_write_memory wf_server_fits)

lemma runs_write_outside:
  assumes "wf_server g" "wf_memory (mem g)" "writes d a bs" "length (octets (mem g)) \<le> unat a"
  shows "runs (write_memory_binary d) h g () (reply (bytes ''E02'') g)"
  using assms
  by (intro runsI resp) (auto simp: writes_def write_memory_binary_def wp_bind wp_gets wp_lift_o
      wp_read_local wp_ret address_test wp_send_data wf_server_fits)

text \<open>
  C36: A request to read at most 509 bytes of memory is answered with their hexadecimal digits
  and changes nothing. For more, the answer is written behind the packet of 1024 characters,
  although the server announces that size for the packets it takes.
\<close>

theorem read_memory_request:
  assumes "wf_server g" "scan_x_x d None None = Ret (Some a, Some n)" "in_block (mem g) a (unat n)"
  shows "if unat n < 510 then runs (read_memory d) h g () (reply (hex_octets (block_bytes (mem g) a (unat n))) g)
    else read_memory d h g = Undefined Out_of_bounds"
proof (cases "unat n < 510")
  case True
  with assms show ?thesis by (simp add: runs_read_memory)
next
  case False
  with assms ends_read_memory [of d a n g h] show ?thesis
    by (simp add: wf_server_def ends_simps)
qed

lemma sample_ranges:
  "scan_x_x (bytes ''0,2'' @ [0]) None None = Ret (Some 0, Some 2)"
  "scan_x_x (bytes ''0,2:ab'' @ [0]) None None = Ret (Some 0, Some 2)"
  by (simp_all add: scan_x_x_def cstring_def scan_hex_def split_sign_def skip_0x_def number_def
      is_hex_def is_digit_def is_space_def digit_value_def Let_def)

lemma sample_writes: "writes (bytes ''0,2:ab'' @ [0]) 0 (bytes ''ab'')"
  using sample_ranges(2)
  by (simp add: writes_def c_index_def cstring_def escape_def escape_byte_def)

lemma sample_block: "in_block (mem (sample_server bs)) 0 2"
  by (simp add: in_block_def memory_create_def less_Suc_eq eval_nat_numeral)

theorem read_memory_request_witness:
  "runs (read_memory (bytes ''0,2'' @ [0])) x86_host (sample_server [0x12, 0xAB]) ()
     (reply (hex_octets [0x12, 0xAB]) (sample_server [0x12, 0xAB]))"
  using read_memory_request [OF _ sample_ranges(1), of "sample_server [0x12, 0xAB]" x86_host]
    sample_block [of "[0x12, 0xAB]"]
  by (simp add: block_bytes_def addresses_def memory_create_def upt_rec)

text \<open>
  C21: A request to write bytes to memory stores them, unescaped, and changes nothing else, if all
  of them lie in the memory; the answer is E02 if the first lies outside. If only the first
  ones lie in the memory, the others are stored outside of it.
\<close>

theorem write_memory_request:
  assumes "wf_server g" "wf_memory (mem g)" "writes d a bs"
  shows "if length (octets (mem g)) \<le> unat a
    then runs (write_memory_binary d) h g () (reply (bytes ''E02'') g)
    else if in_block (mem g) a (length bs)
    then \<exists>m. runs (write_memory_binary d) h g () (reply (bytes ''OK'') (g\<lparr>mem := m\<rparr>)) \<and>
      block_bytes m a (length bs) = bs \<and>
      (\<forall>c. c \<notin> set (addresses a (length bs)) \<longrightarrow> octet m c = octet (mem g) c)
    else write_memory_binary d h g = Undefined Out_of_bounds"
proof -
  consider "length (octets (mem g)) \<le> unat a"
    | "unat a < length (octets (mem g))" "in_block (mem g) a (length bs)"
    | "unat a < length (octets (mem g))" "\<not> in_block (mem g) a (length bs)" by linarith
  then show ?thesis
  proof cases
    case 1
    with runs_write_outside [OF assms] show ?thesis by simp
  next
    case 2
    with put_bytes_defined obtain m where m: "put_bytes (mem g) a bs = Ret m" by blast
    from runs_write_memory [OF assms 2(1) this] put_bytes_same [OF m] put_bytes_other [OF m] 2 assms(3)
    show ?thesis by (auto simp: writes_def)
  next
    case 3
    with assms ends_write_memory [of d a bs g h] show ?thesis by (simp add: ends_simps)
  qed
qed

lemma sample_wf_memory: "length bs \<le> 64 \<Longrightarrow> wf_memory (mem (sample_server bs))"
  by (simp add: wf_memory_def memory_create_def)

theorem write_memory_request_witness:
  "\<exists>m. runs (write_memory_binary (bytes ''0,2:ab'' @ [0])) x86_host (sample_server []) ()
     (reply (bytes ''OK'') ((sample_server [])\<lparr>mem := m\<rparr>)) \<and> block_bytes m 0 2 = bytes ''ab''"
  using write_memory_request [OF _ sample_wf_memory sample_writes, of "[]" x86_host]
    sample_block [of "[]"]
  by (auto simp: memory_create_def numeral_2_eq_2)

text \<open>
  C17: What the debugger writes, at most 509 bytes, it reads back: after a request to write and a
  request to read the same block, the second answer is the bytes that were written.
\<close>

theorem write_then_read:
  assumes "wf_server g" "wf_memory (mem g)" "writes d a bs" "in_block (mem g) a (length bs)"
    "unat a < length (octets (mem g))" "length bs < 510" "scan_x_x d' None None = Ret (Some a, Some (of_nat (length bs)))"
  shows "\<exists>g'. runs (mseq (write_memory_binary d) (read_memory d')) h g () g' \<and>
    calls g' = calls g @ [Rio_writen (frame (bytes ''OK'')), Rio_writen (frame (hex_octets bs))]"
proof -
  from assms(4) put_bytes_defined obtain m where m: "put_bytes (mem g) a bs = Ret m" by blast
  let ?g = "reply (bytes ''OK'') (g\<lparr>mem := m\<rparr>)"
  have n: "unat (of_nat (length bs) :: u32) = length bs" using assms(6) by (simp add: unat_of_nat)
  have b: "in_block (mem ?g) a (length bs)" "block_bytes (mem ?g) a (length bs) = bs"
    using put_bytes_frame [OF m] put_bytes_same [OF m] assms(4,6) by (simp_all add: in_block_def)
  have "wf_server ?g" using assms(1) by (subst wf_server_reply) (simp_all add: wf_server_fits)
  then have "runs (read_memory d') h ?g () (reply (hex_octets bs) ?g)"
    using runs_read_memory [OF _ assms(7), of ?g h] assms(6) b n by simp
  from runs_bind [OF runs_write_memory [OF assms(1-3,5) m] _ this] show ?thesis
    by (intro exI [of _ "reply (hex_octets bs) ?g"]) (auto intro: resp)
qed

theorem write_then_read_witness:
  "\<exists>g'. runs (mseq (write_memory_binary (bytes ''0,2:ab'' @ [0])) (read_memory (bytes ''0,2'' @ [0])))
     x86_host (sample_server []) () g' \<and>
     calls g' = [Rio_writen (frame (bytes ''OK'')), Rio_writen (frame (hex_octets (bytes ''ab'')))]"
  using write_then_read [OF _ sample_wf_memory sample_writes, of "[]" "bytes ''0,2'' @ [0]" x86_host]
    sample_block [of "[]"] sample_ranges(1)
  by (simp add: memory_create_def numeral_2_eq_2)

end
