(* ===== verification/Gdb_Registers.thy ===== *)
theory Gdb_Registers
  imports Gdb_Memory
begin

unbundle bit_operations_syntax

text \<open>
  The requests to read and to write registers.
\<close>

section \<open>Writing registers into the packet\<close>

lemma buffered_buffered: "1 < length (gdb_packet g) \<Longrightarrow> buffered s (buffered [] g) = buffered s g"
  by (cases "gdb_packet g"; cases "tl (gdb_packet g)") (auto simp: buffered_def)

text \<open>The first string goes over whatever the buffer holds.\<close>

lemma wp_put_first:
  "1 < length (gdb_packet g) \<Longrightarrow> wp (put_string 1 s) h Q g \<longleftrightarrow> wp (put_string 1 s) h Q (buffered [] g)"
  using length_buffered [of "[]" g] by (simp add: wp_put_buffer buffered_buffered del: One_nat_def)

lemma wp_write_first:
  assumes "1 < length (gdb_packet g)"
  shows "wp (write_uint32 1 v) h Q g \<longleftrightarrow> wp (write_uint32 1 v) h Q (buffered [] g)"
proof -
  have "wp (print_bytes (byte_sequence x y) 1 bs) h P g \<longleftrightarrow>
      wp (print_bytes (byte_sequence x y) 1 bs) h P (buffered [] g)" for x y bs P
    using wp_put_first [OF assms] by (simp add: byte_sequence_def wp_bind del: One_nat_def)
  then show ?thesis by (simp add: write_uint32_def wp_bind wp_endianness del: One_nat_def)
qed

lemma fits_length: "fits s g \<longleftrightarrow> length s + 4 < length (gdb_packet g)"
  by (simp add: fits_def)

lemma small_register: "i < 16 \<Longrightarrow> of_nat i \<le> (15 :: u8)" for i :: nat
  by (simp add: word_le_nat_alt unat_of_nat)

definition register_words :: "host \<Rightarrow> nat list \<Rightarrow> 'z gdb_scheme \<Rightarrow> u8 list" where
  "register_words h is g = concat (map (\<lambda>i. hex_word h (usr_reg g (of_nat i))) is)"

lemma register_words_simps [simp]:
  "register_words h [] g = []"
  "register_words h (i # is) g = hex_word h (usr_reg g (of_nat i)) @ register_words h is g"
  "length (register_words h is g) = 8 * length is" "0 \<notin> set (register_words h is g)"
  by (simp_all add: register_words_def) (induction "is"; simp)+

lemma wp_print_general:
  assumes "length s + 1 < length (gdb_packet g)" "i = length s + 1" "quiet_user g" "\<forall>k \<in> set is. k < 16"
  shows "wp (print_general is i) h Q (buffered s g) \<longleftrightarrow>
    length s + 8 * length is + 1 < length (gdb_packet g) \<and>
    Q (i + 8 * length is) (buffered (s @ register_words h is g) g)"
  using assms
proof (induction "is" arbitrary: i s)
  case (Cons k ks)
  let ?s = "s @ hex_word h (usr_reg g (of_nat k))"
  have "wp (print_general ks (i + 8)) h Q (buffered ?s g) \<longleftrightarrow>
      length s + 8 * length (k # ks) + 1 < length (gdb_packet g) \<and>
      Q (i + 8 * length (k # ks)) (buffered (s @ register_words h (k # ks) g) g)"
    if "length s + 9 < length (gdb_packet g)"
    using Cons.IH [of ?s "i + 8"] Cons.prems that by (simp add: add.assoc)
  then show ?case
    using Cons.prems by (auto simp: wp_bind wp_arm_registers small_register wp_write_uint32)
qed (simp add: wp_ret)

definition unavailable :: "nat \<Rightarrow> u8 list" where
  "unavailable n = concat (replicate n (bytes ''xxxxxxxx''))"

lemma unavailable_simps [simp]:
  "unavailable 0 = []" "unavailable (Suc n) = bytes ''xxxxxxxx'' @ unavailable n"
  "length (unavailable n) = 8 * n" "0 \<notin> set (unavailable n)"
  by (simp_all add: unavailable_def) (induction n; simp)+

lemma wp_print_unavailable:
  assumes "length s + 1 < length (gdb_packet g)" "i = length s + 1"
  shows "wp (print_unavailable n i) h Q (buffered s g) \<longleftrightarrow>
    length s + 8 * n + 1 < length (gdb_packet g) \<and>
    Q (i + 8 * n) (buffered (s @ unavailable n) g)"
  using assms
proof (induction n arbitrary: i s)
  case (Suc n)
  let ?s = "s @ bytes ''xxxxxxxx''"
  have "wp (print_unavailable n (i + 8)) h Q (buffered ?s g) \<longleftrightarrow>
      length s + 8 * Suc n + 1 < length (gdb_packet g) \<and>
      Q (i + 8 * Suc n) (buffered (s @ unavailable (Suc n)) g)"
    if "length s + 9 < length (gdb_packet g)"
    using Suc.IH [of ?s "i + 8"] Suc.prems that by (auto simp del: bytes_simps simp: ac_simps)
  then show ?case
    using Suc.prems by (auto simp: wp_bind wp_put_append simp del: bytes_simps)
qed (simp add: wp_ret)

text \<open>The text of the reply with all registers.\<close>

definition registers_text :: "host \<Rightarrow> 'z gdb_scheme \<Rightarrow> u8 list" where
  "registers_text h g = register_words h [0..<15] g @ hex_word h (usr_reg g 15 - 4) @
     unavailable 25 @ hex_word h (cpsr g)"

lemma registers_text_simps [simp]:
  "length (registers_text h g) = 336" "0 \<notin> set (registers_text h g)"
  by (simp_all add: registers_text_def del: upt_Suc unavailable_simps(2))

lemma buffered_trc [simp]:
  "(buffered s g)\<lparr>trc := t\<rparr> = buffered s (g\<lparr>trc := t\<rparr>)"
  "(reply s g)\<lparr>trc := t\<rparr> = reply s (g\<lparr>trc := t\<rparr>)"
  by (simp_all add: buffered_def reply_def)

lemma wp_read_general:
  assumes "quiet_user g" "length (gdb_packet g) = MAX_PACKET_SIZE"
  shows "wp (read_general_registers d) h Q g \<longleftrightarrow>
    Q () (reply (registers_text h g) (g\<lparr>trc := trace_enable (trc g)\<rparr>))"
proof -
  let ?g = "g\<lparr>trc := trace_disable (trc g)\<rparr>"
  let ?r = "register_words h [0..<15] g"
  let ?p = "?r @ hex_word h (usr_reg g 15 - 4)"
  have q: "quiet_user ?g" using assms(1) by (simp add: quiet_user_def trace_disable_def user_state_def)
  have L: "length (gdb_packet ?g) = 1024" using assms(2) by (simp add: MAX_PACKET_SIZE_def)
  have "wp (print_general [0..<15] 1) h P ?g \<longleftrightarrow> wp (print_general [0..<15] 1) h P (buffered [] ?g)" for P
    using q L wp_write_first [of ?g]
    by (simp add: upt_conv_Cons wp_bind wp_arm_registers del: One_nat_def upt_Suc)
  also have "\<dots> P \<longleftrightarrow> P 121 (buffered ?r ?g)" for P
    using wp_print_general [of "[]" ?g 1 "[0..<15]" h P] q L
    by (simp add: register_words_def usr_reg_upd del: upt_Suc One_nat_def)
  finally have a: "wp (print_general [0..<15] 1) h P ?g \<longleftrightarrow> P 121 (buffered ?r ?g)" for P .
  have u: "unavailable 25 = unavailable 24 @ unavailable 1"
    by (simp only: unavailable_def concat_append [symmetric] replicate_add [symmetric]) simp
  have e: "trace_enable (trace_disable (trc g)) = trace_enable (trc g)"
    by (simp add: trace_enable_def trace_disable_def)
  show ?thesis
    using q L wp_send_buffer [of "registers_text h g" "g\<lparr>trc := trace_enable (trc g)\<rparr>" h Q]
    by (simp add: read_general_registers_def wp_bind wp_set_trace a wp_arm_registers
        wp_write_uint32 wp_print_unavailable registers_text_def u e fits_def
        del: unavailable_simps(2) upt_Suc One_nat_def)
qed

section \<open>Taking registers from a request\<close>

lemma wp_read_uint32: "0 \<in> set t \<Longrightarrow> wp (read_uint32 (hex_word h v @ t)) h Q s \<longleftrightarrow> Q v s"
  by (simp add: wp_def read_uint32_hex_word)

definition hex_words :: "host \<Rightarrow> u32 list \<Rightarrow> u8 list" where
  "hex_words h vs = concat (map (hex_word h) vs)"

lemma hex_words_simps [simp]:
  "hex_words h [] = []" "hex_words h (v # vs) = hex_word h v @ hex_words h vs"
  by (simp_all add: hex_words_def)

text \<open>The state with the registers from number \<open>k\<close> on replaced.\<close>

definition put_regs :: "nat \<Rightarrow> u32 list \<Rightarrow> 'z gdb_scheme \<Rightarrow> 'z gdb_scheme" where
  "put_regs k vs g = g\<lparr>reg := (reg g)\<lparr>regs := take k (regs (reg g)) @ vs @ drop (k + length vs) (regs (reg g))\<rparr>\<rparr>"

lemma put_regs_simps:
  "put_regs k [] g = g"
  "k < length (regs (reg g)) \<Longrightarrow> put_regs (Suc k) vs (set_reg k v g) = put_regs k (v # vs) g"
proof -
  show "put_regs k [] g = g" by (simp add: put_regs_def)
  assume k: "k < length (regs (reg g))"
  then have "take (Suc k) ((regs (reg g))[k := v]) = take k (regs (reg g)) @ [v]"
    by (simp add: take_Suc_conv_app_nth)
  then show "put_regs (Suc k) vs (set_reg k v g) = put_regs k (v # vs) g"
    by (simp add: put_regs_def set_reg_def)
qed

lemma quiet_user_length: "quiet_user g \<Longrightarrow> length (regs (reg g)) = 37"
  by (simp add: quiet_user_def user_state_def wf_registers_def)

lemma wp_scan_general:
  assumes "quiet_user g" "k + length vs \<le> 16" "0 \<in> set t"
  shows "wp (scan_general [k..<k + length vs] (hex_words h vs @ t)) h Q g \<longleftrightarrow> Q t (put_regs k vs g)"
  using assms
proof (induction vs arbitrary: k g)
  case (Cons v vs)
  have u: "[k..<k + length (v # vs)] = k # [Suc k..<Suc k + length vs]"
    by (simp add: upt_conv_Cons del: upt_Suc)
  have k: "k < 16" "unat (of_nat k :: u8) = k" using Cons.prems(2) by (simp_all add: unat_of_nat)
  show ?case
    unfolding u
    using Cons.IH [of "set_reg k v g" "Suc k"] Cons.prems k put_regs_simps(2) [of k g vs v]
    by (simp add: wp_bind wp_read_uint32 wp_arm_registers small_register quiet_user_length
        del: upt_Suc)
qed (simp add: wp_ret put_regs_simps)

lemma wp_scan_ignored:
  assumes "0 \<in> set t"
  shows "wp (scan_ignored (length vs) (hex_words h vs @ t)) h Q g \<longleftrightarrow> Q t g"
  by (induction vs) (simp_all add: wp_ret wp_bind wp_read_uint32 assms)

text \<open>
  The text of a request to write all registers: the registers, 25 words for the floating point
  registers and their status, and the status register.
\<close>

definition general_text :: "host \<Rightarrow> u32 list \<Rightarrow> u32 list \<Rightarrow> u32 \<Rightarrow> u8 list \<Rightarrow> u8 list" where
  "general_text h vs fs c t = hex_words h vs @ hex_words h fs @ hex_word h c @ t"

lemma wp_write_general:
  fixes g :: "'a gdb_scheme"
  assumes g: "quiet_user g" "length (gdb_packet g) = MAX_PACKET_SIZE"
    and d: "length vs = 16" "length fs = 25" "0 \<in> set t"
  shows "wp (write_general_registers (general_text h vs fs c t)) h Q g \<longleftrightarrow>
    Q () (reply (bytes ''OK'') (put_regs 0 (vs @ [c]) (g\<lparr>trc := trace_enable (trc g)\<rparr>)))"
proof -
  let ?g = "g\<lparr>trc := trace_disable (trc g)\<rparr>"
  have q: "quiet_user ?g" using g(1) by (simp add: quiet_user_def trace_disable_def user_state_def)
  obtain f fs1 where f: "fs = fs1 @ [f]" "length fs1 = 24"
    using d(2) by (cases fs rule: rev_cases) auto
  have w: "hex_words h fs = hex_words h fs1 @ hex_words h [f]"
    by (simp add: f hex_words_def)
  have q2: "quiet_user (put_regs 0 vs ?g)"
    using q d(1) by (simp add: put_regs_def quiet_user_def user_state_def wf_registers_def)
  have r: "set_reg 16 c (put_regs 0 vs ?g) = put_regs 0 (vs @ [c]) ?g"
    using quiet_user_length [OF q] d(1) Cons_nth_drop_Suc [of 16 "regs (reg g)"]
    by (simp add: put_regs_def set_reg_def list_update_append flip: Cons_nth_drop_Suc)
  have e: "(put_regs 0 (vs @ [c]) ?g)\<lparr>trc := trace_enable (trc (put_regs 0 (vs @ [c]) ?g))\<rparr> =
      put_regs 0 (vs @ [c]) (g\<lparr>trc := trace_enable (trc g)\<rparr>)"
    by (simp add: put_regs_def trace_enable_def trace_disable_def)
  have b: "fits (bytes ''OK'') (put_regs 0 (vs @ [c]) (g\<lparr>trc := trace_enable (trc g)\<rparr>))"
    using g(2) by (simp add: fits_def put_regs_def MAX_PACKET_SIZE_def)
  note o = wp_send_data [OF _ b, of h Q]
  have s: "wp (scan_general [0..<16] (hex_words h vs @ x)) h P ?g \<longleftrightarrow> P x (put_regs 0 vs ?g)"
    if "0 \<in> set x" for x P
    using wp_scan_general [OF q, of 0 vs x h P] d(1) that by simp
  have i: "wp (scan_ignored 24 (hex_words h fs1 @ x)) h P g' \<longleftrightarrow> P x g'"
    "wp (scan_ignored 1 (hex_words h [f] @ x)) h P g' \<longleftrightarrow> P x g'"
    if "0 \<in> set x" for x P and g' :: "'a gdb_scheme"
    using wp_scan_ignored [OF that, of fs1] wp_scan_ignored [OF that, of "[f]"] f(2) by simp_all
  show ?thesis
    unfolding write_general_registers_def general_text_def w append_assoc
    using d(3) q2
    by (simp add: wp_bind wp_set_trace s i wp_read_uint32 wp_arm_registers r e o
        del: upt_Suc scan_ignored.simps hex_words_simps One_nat_def)
qed

section \<open>Single registers\<close>

text \<open>The value of a register as the debugger is told it: the program counter is the next
  instruction's address.\<close>

definition shown_reg :: "'z gdb_scheme \<Rightarrow> nat \<Rightarrow> u32" where
  "shown_reg g n = usr_reg g (of_nat n) - (if n = 15 then 4 else 0)"

lemma word_eq_15: "n < 16 \<Longrightarrow> (of_nat n :: u32) = 15 \<longleftrightarrow> n = 15" for n :: nat
proof -
  assume "n < 16"
  then have "(of_nat n :: u32) = of_nat 15 \<longleftrightarrow> n = 15" by (subst of_nat_u32_eq_iff) auto
  then show ?thesis by simp
qed

lemma word_less_16: "(of_nat n :: u32) < 16 \<longleftrightarrow> n < 16" if "n < 2 ^ 32" for n :: nat
  using that by (simp add: word_less_nat_alt unat_of_nat)

lemma ucast_small: "n < 16 \<Longrightarrow> (ucast (of_nat n :: u32) :: u8) = of_nat n" for n :: nat
  using less_16_cases [of n] by auto

lemma wp_gdb_read_register:
  assumes "quiet_user g" "length (gdb_packet g) = MAX_PACKET_SIZE" "atoi d = Ret (int n)" "n < 16"
  shows "wp (gdb_read_register d) h Q g \<longleftrightarrow>
    Q () (reply (hex_word h (shown_reg g n)) (g\<lparr>trc := trace_enable (trc g)\<rparr>))"
proof -
  let ?g = "g\<lparr>trc := trace_disable (trc g)\<rparr>"
  have q: "quiet_user ?g" using assms(1) by (simp add: quiet_user_def trace_disable_def user_state_def)
  have L: "length (gdb_packet ?g) = 1024" using assms(2) by (simp add: MAX_PACKET_SIZE_def)
  have e: "trace_enable (trace_disable (trc g)) = trace_enable (trc g)"
    by (simp add: trace_enable_def trace_disable_def)
  have w: "wp (write_uint32 1 v) h P ?g \<longleftrightarrow> P () (buffered (hex_word h v) ?g)" for v P
    using wp_write_first [of ?g v h P] wp_write_uint32 [of "[]" ?g 1 v h P] L by simp
  have "(of_nat n :: u32) < 16" "(ucast (of_nat n :: u32) :: u8) = of_nat n"
    using assms(4) by (simp_all add: word_less_16 ucast_small)
  moreover have "wp gdb_send_buffer h Q (buffered (hex_word h v) (g\<lparr>trc := trace_enable (trc g)\<rparr>)) \<longleftrightarrow>
      Q () (reply (hex_word h v) (g\<lparr>trc := trace_enable (trc g)\<rparr>))" for v
    by (rule wp_send_buffer) (simp_all add: fits_def assms(2) MAX_PACKET_SIZE_def)
  ultimately show ?thesis
    using q assms(3,4)
    by (simp add: gdb_read_register_def wp_bind wp_lift_o wp_assert wp_set_trace wp_arm_registers
        small_register w e word_eq_15 shown_reg_def del: One_nat_def)
qed

lemma obind_check: "obind m (\<lambda>t. if P t then Ret (f t) else Undefined u) = Ret n \<Longrightarrow> \<exists>t. P t \<and> f t = n"
  by (cases m) (auto split: if_splits)

lemma atoi_range: "atoi d = Ret n \<Longrightarrow> - (2 ^ 31) \<le> n \<and> n < 2 ^ 31"
  unfolding atoi_def Let_def case_prod_beta by (drule obind_check) blast

lemma word_of_int_less_16:
  fixes n :: int
  assumes "- (2 ^ 31) \<le> n" "n < 2 ^ 31"
  shows "(word_of_int n :: u32) < 16 \<longleftrightarrow> 0 \<le> n \<and> n < 16"
proof -
  have "(word_of_int n :: u32) < 16 \<longleftrightarrow> n mod 2 ^ 32 < 16"
    by (simp add: word_less_def uint_word_of_int)
  moreover have "n mod 2 ^ 32 = (if 0 \<le> n then n else n + 2 ^ 32)"
    using assms mod_pos_pos_trivial [of n "2 ^ 32"] mod_pos_pos_trivial [of "n + 2 ^ 32" "2 ^ 32"] by simp
  ultimately show ?thesis using assms by simp
qed

lemma ends_gdb_read_register:
  assumes "atoi d = Ret n" "n < 0 \<or> 16 \<le> n"
  shows "ends (gdb_read_register d) h g Abort"
  using assms word_of_int_less_16 [of n] atoi_range [OF assms(1)]
  by (auto simp: gdb_read_register_def end_simps wp_lift_o Let_def)

lemma wp_gdb_write_register:
  assumes "quiet_user g" "length (gdb_packet g) = MAX_PACKET_SIZE" "n < 16" "0 \<in> set t"
    "scan_x None d None = Ret (Some (of_nat n))"
    "c_index (of_char CHR ''='') d = Ret (Some (of_char CHR ''='' # hex_word h v @ t))"
  shows "wp (gdb_write_register d) h Q g \<longleftrightarrow>
    Q () (reply (bytes ''OK'') (set_reg n v (g\<lparr>trc := trace_enable (trc g)\<rparr>)))"
proof -
  let ?g = "g\<lparr>trc := trace_disable (trc g)\<rparr>"
  have q: "quiet_user ?g" using assms(1) by (simp add: quiet_user_def trace_disable_def user_state_def)
  have e: "(set_reg n v ?g)\<lparr>trc := trace_enable (trace_disable (trc g))\<rparr> =
      set_reg n v (g\<lparr>trc := trace_enable (trc g)\<rparr>)"
    by (simp add: set_reg_def trace_enable_def trace_disable_def)
  have b: "fits (bytes ''OK'') (set_reg n v (g\<lparr>trc := trace_enable (trc g)\<rparr>))"
    using assms(2) by (simp add: fits_def MAX_PACKET_SIZE_def)
  have n: "unat (of_nat n :: u8) = n" using assms(3) by (simp add: unat_of_nat)
  note o = wp_send_data [OF _ b, of h Q]
  show ?thesis
    using q assms(3-)
    by (simp add: gdb_write_register_def wp_bind wp_lift_o wp_assert wp_set_trace wp_arm_registers
        wp_read_local wp_read_uint32 small_register word_less_16 ucast_small n e o)
qed

section \<open>Runs\<close>

lemma respecting_register_requests [resp]:
  "respecting same_core (print_general is pos :: ('z, nat) server)"
  "respecting same_core (print_unavailable n pos :: ('z, nat) server)"
  "respecting same_core (scan_general is d :: ('z, u8 list) server)"
  "respecting same_core (scan_ignored n d :: ('z, u8 list) server)"
  "respecting same_core (read_general_registers d :: ('z, unit) server)"
  "respecting same_core (write_general_registers d :: ('z, unit) server)"
  "respecting same_core (gdb_read_register d :: ('z, unit) server)"
  "respecting same_core (gdb_write_register d :: ('z, unit) server)"
proof -
  show p: "respecting same_core (print_general is pos :: ('z, nat) server)" for "is" pos
    by (induction "is" arbitrary: pos) (auto intro!: resp)
  show u: "respecting same_core (print_unavailable n pos :: ('z, nat) server)" for n pos
    by (induction n arbitrary: pos) (auto intro!: resp)
  show s: "respecting same_core (scan_general is d :: ('z, u8 list) server)" for "is" d
    by (induction "is" arbitrary: d) (auto intro!: resp)
  show i: "respecting same_core (scan_ignored n d :: ('z, u8 list) server)" for n d
    by (induction n arbitrary: d) (auto intro!: resp)
  show "respecting same_core (read_general_registers d :: ('z, unit) server)"
    unfolding read_general_registers_def by (intro resp p u)
  show "respecting same_core (write_general_registers d :: ('z, unit) server)"
    unfolding write_general_registers_def by (intro resp s i)
  show "respecting same_core (gdb_read_register d :: ('z, unit) server)"
    "respecting same_core (gdb_write_register d :: ('z, unit) server)"
    unfolding gdb_read_register_def gdb_write_register_def Let_def by (intro resp)+
qed

text \<open>Up to the trace, it does not matter that a request leaves tracing on.\<close>

lemma same_core_reply: "same_core g g' \<Longrightarrow> same_core (reply s g) (reply s g')"
  by (simp add: reply_def same_core_server same_core_server_upd)

lemma same_core_enabled:
  assumes "user_state g"
  shows "same_core ((quiet g)\<lparr>trc := trace_enable (trc (quiet g))\<rparr>) g"
  using assms by (simp add: same_core_def user_state_def quiet_def trace_enable_def trace_disable_def)

lemma same_core_put:
  "same_core g g' \<Longrightarrow> same_core (set_reg n v g) (set_reg n v g')"
  "same_core g g' \<Longrightarrow> length vs \<le> 17 \<Longrightarrow> same_core (put_regs 0 vs g) (put_regs 0 vs g')"
  by (simp_all add: same_core_def set_reg_def put_regs_def user_state_def wf_registers_def)

lemma texts_quiet [simp]:
  "registers_text h (quiet g) = registers_text h g" "shown_reg (quiet g) n = shown_reg g n"
  by (simp_all add: registers_text_def register_words_def shown_reg_def)

lemma wf_server_quiet: "wf_server g \<Longrightarrow> quiet_user (quiet g) \<and> length (gdb_packet (quiet g)) = MAX_PACKET_SIZE"
  by (simp add: wf_server_def)

lemma runs_read_general:
  assumes "wf_server g"
  shows "runs (read_general_registers d) h g () (reply (registers_text h g) g)"
  using assms
  by (subst runs_iff_quiet) (auto intro!: resp same_core_reply same_core_enabled
    simp: wp_read_general wf_server_def)

lemma runs_write_general:
  assumes "wf_server g" "length vs = 16" "length fs = 25" "0 \<in> set t"
  shows "runs (write_general_registers (general_text h vs fs c t)) h g ()
    (reply (bytes ''OK'') (put_regs 0 (vs @ [c]) g))"
  using assms
  by (subst runs_iff_quiet) (auto intro!: resp same_core_reply same_core_put same_core_enabled
    simp: wp_write_general wf_server_def)

lemma runs_read_register:
  assumes "wf_server g" "atoi d = Ret (int n)" "n < 16"
  shows "runs (gdb_read_register d) h g () (reply (hex_word h (shown_reg g n)) g)"
  using assms
  by (subst runs_iff_quiet) (auto intro!: resp same_core_reply same_core_enabled
    simp: wp_gdb_read_register wf_server_def)

text \<open>\<open>assigns d n v\<close>: the text \<open>d\<close> behind the letter P assigns \<open>v\<close> to register \<open>n\<close>.\<close>

definition assigns :: "host \<Rightarrow> u8 list \<Rightarrow> nat \<Rightarrow> u32 \<Rightarrow> bool" where
  "assigns h d n v \<longleftrightarrow> n < 2 ^ 32 \<and> scan_x None d None = Ret (Some (of_nat n)) \<and>
     (\<exists>t. 0 \<in> set t \<and> c_index (of_char CHR ''='') d = Ret (Some (of_char CHR ''='' # hex_word h v @ t)))"

lemma runs_write_register:
  assumes "wf_server g" "assigns h d n v" "n < 16"
  shows "runs (gdb_write_register d) h g () (reply (bytes ''OK'') (set_reg n v g))"
proof -
  from assms(2) obtain t where "0 \<in> set t" "scan_x None d None = Ret (Some (of_nat n))"
    "c_index (of_char CHR ''='') d = Ret (Some (of_char CHR ''='' # hex_word h v @ t))"
    by (auto simp: assigns_def)
  with assms(1,3) show ?thesis
    by (subst runs_iff_quiet) (auto intro!: resp same_core_reply same_core_put same_core_enabled
      simp: wp_gdb_write_register wf_server_def)
qed

lemma ends_write_register:
  assumes "assigns h d n v" "16 \<le> n"
  shows "ends (gdb_write_register d) h g Abort"
  using assms
  by (auto simp: assigns_def gdb_write_register_def end_simps wp_lift_o wp_read_local wp_read_uint32
      word_less_16)

text \<open>The answers to the request to read all registers cannot be written back.\<close>

lemma scan_unavailable:
  "0 \<in> set t \<Longrightarrow> scan_x (Some 2) (bytes ''xxxxxxxx'' @ t) v = Ret v"
  by (simp add: scan_x_def cstring_def scan_hex_def split_sign_def skip_0x_def is_hex_def is_digit_def
      is_space_def)

lemma ends_read_unavailable:
  "0 \<in> set t \<Longrightarrow> ends (read_uint32 (bytes ''xxxxxxxx'' @ t)) h s (Undefined Uninitialised)"
  using scan_unavailable [of t None]
  by (simp add: read_uint32_def end_simps wp_endianness byte_sequence_def wp_lift_o del: bytes_simps)

lemma ends_scan_ignored:
  "0 \<in> set t \<Longrightarrow> ends (scan_ignored (Suc n) (bytes ''xxxxxxxx'' @ t)) h s (Undefined Uninitialised)"
  using ends_read_unavailable [of t h s] by (simp add: end_simps del: bytes_simps)

lemma registers_text_words:
  "registers_text h g = hex_words h (map (\<lambda>i. usr_reg g (of_nat i)) [0..<15] @ [usr_reg g 15 - 4]) @
     unavailable 25 @ hex_word h (cpsr g)"
  by (simp add: registers_text_def register_words_def hex_words_def comp_def del: upt_Suc unavailable_simps(2))

lemma ends_write_unavailable:
  fixes g :: "'a gdb_scheme"
  assumes g: "user_state g" and d: "length vs = 16" "0 \<in> set t"
  shows "ends (write_general_registers (hex_words h vs @ unavailable 25 @ t)) h g (Undefined Uninitialised)"
proof -
  let ?g = "g\<lparr>trc := trace_disable (trc g)\<rparr>"
  have q: "quiet_user ?g" using g by (simp add: quiet_user_def trace_disable_def user_state_def)
  have u: "unavailable 25 = bytes ''xxxxxxxx'' @ unavailable 24"
    using unavailable_simps(2) [of 24] by simp
  have "ends (scan_ignored 24 (unavailable 25 @ t)) h g' (Undefined Uninitialised)" for g' :: "'a gdb_scheme"
    using ends_scan_ignored [of "unavailable 24 @ t" 23 h g'] d(2)
    by (simp add: u del: bytes_simps scan_ignored.simps unavailable_simps)
  moreover have "wp (scan_general [0..<16] (hex_words h vs @ x)) h P ?g \<longleftrightarrow> P x (put_regs 0 vs ?g)"
    if "0 \<in> set x" for x P
    using wp_scan_general [OF q, of 0 vs x h P] d(1) that by simp
  ultimately show ?thesis
    using d(2) by (simp add: write_general_registers_def end_simps wp_set_trace del: upt_Suc scan_ignored.simps unavailable_simps)
qed

section \<open>Reading what was written\<close>

lemma reply_reads [simp]:
  "usr_reg (reply s g) n = usr_reg g n" "cpsr (reply s g) = cpsr g" "mem (put_regs k vs g) = mem g"
  "calls (put_regs k vs g) = calls g" "gdb_packet (put_regs k vs g) = gdb_packet g"
  by (simp_all add: reply_def usr_reg_def cpsr_def put_regs_def)

lemma wf_server_put_regs:
  "wf_server g \<Longrightarrow> length vs \<le> 17 \<Longrightarrow> wf_server (put_regs 0 vs g)"
  by (simp add: wf_server_def user_state_def wf_registers_def) (simp add: put_regs_def)

lemma pc_shown: "\<not> bit v 1 \<Longrightarrow> ((v + 4) AND 0xFFFFFFFD) - 4 = v" for v :: u32
proof -
  assume v: "\<not> bit v 1"
  have "unat (v + 4) mod 4 = unat v mod 4" by (simp add: unat_word_ariths mod_mod_cancel)
  from odd_div_2_cong [OF this] v have "\<not> bit (v + 4) 1" unfolding bit_1_unat by blast
  then show ?thesis by (simp add: mask_bit_1)
qed

lemma map_upt_take: "n \<le> length vs \<Longrightarrow> map (\<lambda>i. f (vs ! i)) [0..<n] = map f (take n vs)"
  by (rule nth_equalityI) auto

lemma registers_text_put:
  assumes "length vs = 16" "\<not> bit (vs ! 15) 1"
  shows "registers_text h (reply s (put_regs 0 (vs @ [c]) g)) = hex_words h vs @ unavailable 25 @ hex_word h c"
proof -
  let ?g = "reply s (put_regs 0 (vs @ [c]) g)"
  have r: "regs (reg ?g) ! i = (vs @ [c]) ! i" if "i < 17" for i
    using that assms(1) by (simp add: reply_def put_regs_def nth_append)
  have "usr_reg ?g (of_nat i) = vs ! i" if "i < 15" for i
  proof -
    have "(of_nat i :: u8) \<noteq> 15" using that by (simp add: word_unat_eq_iff unat_of_nat)
    with that r [of i] assms(1) show ?thesis by (simp add: usr_reg_def unat_of_nat nth_append)
  qed
  then have "register_words h [0..<15] ?g = concat (map (\<lambda>i. hex_word h (vs ! i)) [0..<15])"
    unfolding register_words_def by (intro arg_cong [where f = concat] map_cong) auto
  also have "\<dots> = hex_words h (take 15 vs)"
    using assms(1) map_upt_take [of 15 vs "hex_word h"] by (simp add: hex_words_def comp_def)
  finally have w: "register_words h [0..<15] ?g = hex_words h (take 15 vs)" .
  have "vs = take 15 vs @ [vs ! 15]" using assms(1) take_Suc_conv_app_nth [of 15 vs] by simp
  then have v: "hex_words h vs = hex_words h (take 15 vs) @ hex_word h (vs ! 15)"
    by (metis hex_words_def map_append concat_append hex_words_simps append_Nil2)
  have "usr_reg ?g 15 - 4 = vs ! 15" "cpsr ?g = c"
    using r [of 15] r [of 16] assms pc_shown [OF assms(2)] by (simp_all add: usr_reg_def cpsr_def nth_append)
  then show ?thesis by (simp only: registers_text_def w v append_assoc)
qed

section \<open>Properties\<close>

text \<open>
  The request for all registers is answered with r0 to r14, the address of the next
  instruction, 25 unavailable words and the status register, each word in the byte order of
  the target; nothing changes.
\<close>

theorem read_registers_request:
  assumes "wf_server g"
  shows "runs (read_general_registers d) h g () (reply (registers_text h g) g)"
  using assms by (rule runs_read_general)

theorem read_registers_request_witness:
  "runs (read_general_registers [0]) x86_host (sample_server []) ()
     (reply (registers_text x86_host (sample_server [])) (sample_server []))"
  using read_registers_request [of "sample_server []" "[0]" x86_host] by simp

text \<open>
  C22: A request that writes all registers sets r0 to r15 and the status register and leaves the
  rest alone, so that a request for all registers then answers with these values, provided
  that bit 1 of the program counter is clear.
\<close>

theorem write_then_read_registers:
  assumes "wf_server g" "length vs = 16" "length fs = 25" "0 \<in> set t" "\<not> bit (vs ! 15) 1"
  shows "\<exists>g'. runs (mseq (write_general_registers (general_text h vs fs c t)) (read_general_registers d)) h g () g'
    \<and> mem g' = mem g \<and> calls g' = calls g @ [Rio_writen (frame (bytes ''OK'')),
      Rio_writen (frame (hex_words h vs @ unavailable 25 @ hex_word h c))]"
proof -
  let ?g = "reply (bytes ''OK'') (put_regs 0 (vs @ [c]) g)"
  have "wf_server ?g"
    using assms(1,2) wf_server_put_regs [of g "vs @ [c]"]
    by (subst wf_server_reply) (simp_all add: wf_server_fits)
  from runs_bind [OF runs_write_general [OF assms(1-4)] _ runs_read_general [OF this, where d = d]]
  have "runs (mseq (write_general_registers (general_text h vs fs c t)) (read_general_registers d)) h g ()
      (reply (registers_text h ?g) ?g)"
    by (auto intro: resp)
  then show ?thesis
    by (intro exI [of _ "reply (registers_text h ?g) ?g"]) (simp add: registers_text_put [OF assms(2,5)])
qed

theorem write_then_read_registers_witness:
  "\<exists>g'. runs (mseq (write_general_registers
       (general_text x86_host (replicate 16 5) (replicate 25 0) 0x1D3 [0])) (read_general_registers [0]))
     x86_host (sample_server []) () g' \<and> calls g' = [Rio_writen (frame (bytes ''OK'')),
       Rio_writen (frame (hex_words x86_host (replicate 16 5) @ unavailable 25 @ hex_word x86_host 0x1D3))]"
proof -
  have l: "length (replicate 16 (5 :: u32)) = 16" "length (replicate 25 (0 :: u32)) = 25"
    "(0 :: u8) \<in> set [0]" "\<not> bit (replicate 16 (5 :: u32) ! 15) 1"
    by (simp_all add: bit_numeral_rec)
  show ?thesis
    using write_then_read_registers [OF _ l, of "sample_server []" x86_host "0x1D3" "[0]"]
    by (simp only: sample_server_simps append_Nil simp_thms) blast
qed

text \<open>
  The request to write a register takes its number as hexadecimal digits, as the debugger
  sends it, the request to read one as decimal digits: after 10 has been written with the
  digit A, reading with the same digit answers with register 0. A number above 15 aborts the
  simulator.
\<close>

theorem register_numbers:
  assumes "wf_server g" "assigns h d n v" 
  shows "(n < 16 \<longrightarrow> runs (gdb_write_register d) h g () (reply (bytes ''OK'') (set_reg n v g))) \<and>
    (16 \<le> n \<longrightarrow> gdb_write_register d h g = Abort) \<and>
    (c \<in> set (bytes ''abcdef'') \<longrightarrow>
       runs (gdb_read_register (c # 0 # t)) h g () (reply (hex_word h (usr_reg g 0)) g)) \<and>
    gdb_read_register (bytes ''19'' @ 0 # t) h g = Abort"
proof (intro conjI impI)
  show "n < 16 \<Longrightarrow> runs (gdb_write_register d) h g () (reply (bytes ''OK'') (set_reg n v g))"
    using assms by (simp only: runs_write_register)
  show "16 \<le> n \<Longrightarrow> gdb_write_register d h g = Abort"
    using ends_write_register [OF assms(2), of g] by (simp add: ends_simps)
  have "atoi (bytes ''19'' @ 0 # t) = Ret 19"
    by (simp add: atoi_def cstring_def is_space_def split_sign_def is_digit_def number_def digit_value_def)
  then show "gdb_read_register (bytes ''19'' @ 0 # t) h g = Abort"
    using ends_gdb_read_register [of "bytes ''19'' @ 0 # t" 19 h g] by (simp only: ends_simps) simp
  assume "c \<in> set (bytes ''abcdef'')"
  then have "atoi (c # 0 # t) = Ret (int 0)"
    by (auto simp: atoi_def cstring_def is_space_def split_sign_def is_digit_def number_def)
  from runs_read_register [OF assms(1) this]
  show "runs (gdb_read_register (c # 0 # t)) h g () (reply (hex_word h (usr_reg g 0)) g)"
    by (simp add: shown_reg_def)
qed

theorem register_numbers_witness:
  "runs (gdb_write_register (bytes ''a='' @ hex_word x86_host 7 @ [0])) x86_host (sample_server []) ()
     (reply (bytes ''OK'') (set_reg 10 7 (sample_server []))) \<and>
   runs (gdb_read_register (of_char CHR ''a'' # 0 # [])) x86_host (sample_server []) ()
     (reply (hex_word x86_host 0) (sample_server [])) \<and>
   gdb_read_register (bytes ''19'' @ [0]) x86_host (sample_server []) = Abort"
proof -
  have "assigns x86_host (bytes ''a='' @ hex_word x86_host 7 @ [0]) 10 7"
    unfolding assigns_def
    by (auto simp: scan_x_def cstring_def scan_hex_def split_sign_def skip_0x_def number_def
      is_hex_def is_digit_def is_space_def digit_value_def Let_def c_index_def)
  from register_numbers [OF _ this, of "sample_server []" "of_char CHR ''a''" "[]"]
  show ?thesis by (simp add: usr_reg_def)
qed

text \<open>
  The server cannot take its own answer: writing back the text it sends for all registers
  converts the marks of the unavailable registers, which assign no value, and reads the
  unassigned variable.
\<close>

theorem answer_not_accepted:
  assumes "user_state g" "0 \<in> set t"
  shows "write_general_registers (registers_text h g' @ t) h g = Undefined Uninitialised"
  using ends_write_unavailable [OF assms(1), of "map (\<lambda>i. usr_reg g' (of_nat i)) [0..<15] @ [usr_reg g' 15 - 4]"
    "hex_word h (cpsr g') @ t" h] assms(2)
  by (simp add: registers_text_words ends_simps del: upt_Suc)

theorem answer_not_accepted_witness:
  "write_general_registers (registers_text x86_host (sample_server []) @ [0]) x86_host (sample_server []) =
     Undefined Uninitialised"
  using answer_not_accepted [of "sample_server []" "[0]" x86_host "sample_server []"] by simp

end
