(* ===== verification/Scanner.thy ===== *)
theory Scanner
  imports Gdb_Registers
begin

unbundle bit_operations_syntax

text \<open>
  \<open>scanner.l\<close> and the scanner flex generates from it, \<open>scanner.c\<close>: the tables of the automaton,
  the loop that matches a token, and the actions. The input is the whole stream the connection
  delivers, so the refilling of the buffer is not seen; a NUL of the input takes the
  transition of \<open>yy_try_NUL_trans\<close>. The automaton is proved to choose the longest match, and the
  first rule among those of the same length, for the patterns of \<open>scanner.l\<close>.
\<close>

section \<open>The tables\<close>

definition yy_accept :: "nat list" where
  "yy_accept = [0, 0, 0, 6, 4, 5, 4, 1, 2, 0, 0, 0, 3, 0]"

definition yy_ec :: "nat list" where
  "yy_ec = [
     0, 1, 1, 1, 1, 1, 1, 1, 1, 1, 2, 1, 1, 1, 1, 1, 1, 1, 1, 1, 1, 1, 1, 1, 1, 1, 1, 1, 1, 1, 1, 1,
     1, 1, 1, 3, 4, 1, 1, 1, 1, 1, 1, 5, 1, 6, 1, 1, 7, 7, 7, 7, 7, 7, 7, 7, 7, 7, 1, 1, 1, 1, 1, 1,
     1, 7, 7, 7, 7, 7, 7, 1, 1, 1, 1, 1, 1, 1, 1, 1, 1, 1, 1, 1, 1, 1, 1, 1, 1, 1, 1, 1, 1, 1, 1, 1,
     1, 7, 7, 7, 7, 7, 7, 1, 1, 1, 1, 1, 1, 1, 1, 1, 1, 1, 1, 1, 1, 1, 1, 1, 1, 1, 1, 1, 1, 1, 1, 1,
     1, 1, 1, 1, 1, 1, 1, 1, 1, 1, 1, 1, 1, 1, 1, 1, 1, 1, 1, 1, 1, 1, 1, 1, 1, 1, 1, 1, 1, 1, 1, 1,
     1, 1, 1, 1, 1, 1, 1, 1, 1, 1, 1, 1, 1, 1, 1, 1, 1, 1, 1, 1, 1, 1, 1, 1, 1, 1, 1, 1, 1, 1, 1, 1,
     1, 1, 1, 1, 1, 1, 1, 1, 1, 1, 1, 1, 1, 1, 1, 1, 1, 1, 1, 1, 1, 1, 1, 1, 1, 1, 1, 1, 1, 1, 1, 1,
     1, 1, 1, 1, 1, 1, 1, 1, 1, 1, 1, 1, 1, 1, 1, 1, 1, 1, 1, 1, 1, 1, 1, 1, 1, 1, 1, 1, 1, 1, 1, 1]"

definition yy_meta :: "nat list" where
  "yy_meta = [0, 1, 1, 1, 2, 1, 1, 1]"

definition yy_base :: "nat list" where
  "yy_base = [0, 0, 0, 13, 14, 14, 9, 14, 14, 8, 3, 2, 14, 14, 7]"

definition yy_def :: "nat list" where
  "yy_def = [0, 13, 1, 13, 13, 13, 14, 13, 13, 14, 13, 13, 13, 0, 13]"

definition yy_nxt :: "nat list" where
  "yy_nxt = [0, 4, 5, 4, 6, 7, 8, 4, 9, 12, 11, 10, 10, 13, 3, 13, 13, 13, 13, 13, 13, 13]"

definition yy_chk :: "nat list" where
  "yy_chk = [0, 1, 1, 1, 1, 1, 1, 1, 14, 11, 10, 9, 6, 3, 13, 13, 13, 13, 13, 13, 13, 13]"

lemmas yy_tables = yy_accept_def yy_meta_def yy_base_def yy_def_def yy_nxt_def yy_chk_def

section \<open>The automaton\<close>

text \<open>The class of a character of the text, and of a NUL.\<close>

definition yy_class :: "u8 \<Rightarrow> nat" where
  "yy_class c = (if c \<noteq> 0 then yy_ec ! unat c else 1)"

text \<open>The inner loop over the default entries: at most \<open>fuel\<close> times, \<open>None\<close> if that is not enough.\<close>

fun yy_follow :: "nat \<Rightarrow> nat \<Rightarrow> nat \<Rightarrow> nat option" where
  "yy_follow 0 s c = None"
| "yy_follow (Suc fuel) s c =
     (if yy_chk ! (yy_base ! s + c) \<noteq> s then
        let s = yy_def ! s in yy_follow fuel s (if 14 \<le> s then yy_meta ! c else c)
      else Some (yy_nxt ! (yy_base ! s + c)))"

definition yy_next :: "nat \<Rightarrow> u8 \<Rightarrow> nat option" where
  "yy_next s c = yy_follow 3 s (yy_class c)"

text \<open>
  The matching loop from state \<open>s\<close> at position \<open>n\<close>, with the last accepting state and its
  position; it stops at a state without transitions or at the end of the input.
\<close>

fun yy_match :: "nat \<Rightarrow> nat \<times> nat \<Rightarrow> nat \<Rightarrow> u8 list \<Rightarrow> (nat \<times> nat \<times> nat \<times> nat) option" where
  "yy_match s acc n [] = Some (s, n, acc)"
| "yy_match s acc n (c # cs) =
     (let acc = (if yy_accept ! s \<noteq> 0 then (s, n) else acc) in
      Option.bind (yy_next s c) (\<lambda>s'.
        if yy_base ! s' \<noteq> 14 then yy_match s' acc (n + 1) cs else Some (s', n + 1, acc)))"

text \<open>The action and the length of its text, after backing up where necessary.\<close>

definition yy_find_action :: "nat \<times> nat \<times> nat \<times> nat \<Rightarrow> nat \<times> nat" where
  "yy_find_action = (\<lambda>(s, n, acc). if yy_accept ! s = 0
     then (yy_accept ! fst acc, snd acc) else (yy_accept ! s, n))"

definition yy_token :: "u8 list \<Rightarrow> (nat \<times> nat) option" where
  "yy_token input = map_option yy_find_action (yy_match 1 (0, 0) 0 input)"

text \<open>\<open>yy_get_previous_state\<close>: the state and the last accepting one after a text read so far.\<close>

fun yy_get_previous_state :: "nat \<Rightarrow> nat \<times> nat \<Rightarrow> nat \<Rightarrow> u8 list \<Rightarrow> (nat \<times> nat \<times> nat) option" where
  "yy_get_previous_state s acc n [] = Some (s, acc)"
| "yy_get_previous_state s acc n (c # cs) =
     (let acc = (if yy_accept ! s \<noteq> 0 then (s, n) else acc) in
      Option.bind (yy_next s c) (\<lambda>s'. yy_get_previous_state s' acc (n + 1) cs))"

definition yy_try_NUL_trans :: "nat \<Rightarrow> nat option" where
  "yy_try_NUL_trans s = map_option (\<lambda>s'. if s' = 13 then 0 else s') (yy_follow 3 s 1)"

section \<open>Classes and transitions\<close>

definition class_of :: "u8 \<Rightarrow> nat" where
  "class_of c = (if c = 10 then 2 else if c = of_char CHR ''#'' then 3 else if c = of_char CHR ''$'' then 4
     else if c = of_char CHR ''+'' then 5 else if c = of_char CHR ''-'' then 6
     else if is_hex c then 7 else 1)"

lemma yy_class_of: "yy_class c = class_of c"
proof -
  have "list_all (\<lambda>n. yy_ec ! n = class_of (of_nat n)) [1..<256]" by code_simp
  then have "yy_ec ! unat c = class_of (of_nat (unat c))" if "c \<noteq> 0"
    using that unsigned_less [of c, where 'a = nat] by (auto simp: list_all_iff unat_gt_0 Suc_le_eq)
  then show ?thesis
    by (auto simp: yy_class_def) (simp add: class_of_def is_hex_def is_digit_def)
qed

text \<open>The automaton as a function, one line per state.\<close>

definition moves :: "nat \<Rightarrow> nat \<Rightarrow> nat" where
  "moves s k =
     (if s = 1 then [4, 5, 4, 6, 7, 8, 4] ! (k - 1)
      else if s = 6 \<or> s = 9 then (if k = 3 then 10 else if k = 4 then 13 else 9)
      else if s = 10 then (if k = 7 then 11 else 13)
      else if s = 11 then (if k = 7 then 12 else 13)
      else 13)"

lemma follow_moves:
  "s \<in> {1, 4, 5, 6, 7, 8, 9, 10, 11, 12} \<Longrightarrow> k \<in> {1, 2, 3, 4, 5, 6, 7} \<Longrightarrow> yy_follow 3 s k = Some (moves s k)"
proof -
  have "list_all (\<lambda>s. list_all (\<lambda>k. yy_follow 3 s k = Some (moves s k)) [1, 2, 3, 4, 5, 6, 7])
      [1, 4, 5, 6, 7, 8, 9, 10, 11, 12]" by code_simp
  then show "s \<in> {1, 4, 5, 6, 7, 8, 9, 10, 11, 12} \<Longrightarrow> k \<in> {1, 2, 3, 4, 5, 6, 7} \<Longrightarrow> ?thesis"
    by (auto simp: list_all_iff)
qed

lemma class_range': "class_of c \<in> {1, 2, 3, 4, 5, 6, 7}"
  by (simp add: class_of_def)

lemma next_moves: "s \<in> {1, 4, 5, 6, 7, 8, 9, 10, 11, 12} \<Longrightarrow> yy_next s c = Some (moves s (class_of c))"
  unfolding yy_next_def yy_class_of using follow_moves class_range' by blast

section \<open>The token the automaton finds\<close>

abbreviation (input) hash :: u8 where "hash \<equiv> of_char CHR ''#''"
abbreviation (input) dollar :: u8 where "dollar \<equiv> of_char CHR ''$''"

text \<open>The length of the rest of a packet behind its first character.\<close>

fun packet_tail :: "u8 list \<Rightarrow> nat option" where
  "packet_tail [] = None"
| "packet_tail (c # cs) =
     (if c = hash then (case cs of x # y # r \<Rightarrow> if is_hex x \<and> is_hex y then Some 3 else None | _ \<Rightarrow> None)
      else if c = dollar then None else map_option Suc (packet_tail cs))"

definition rule_token :: "u8 \<Rightarrow> u8 list \<Rightarrow> nat \<times> nat" where
  "rule_token c cs =
     (if c = of_char CHR ''+'' then (1, 1) else if c = of_char CHR ''-'' then (2, 1)
      else if c = 10 then (5, 1)
      else if c = dollar then (case packet_tail cs of Some m \<Rightarrow> (3, m + 1) | None \<Rightarrow> (4, 1))
      else (4, 1))"

lemma class_of_iff:
  "class_of c = 3 \<longleftrightarrow> c = hash" "class_of c = 4 \<longleftrightarrow> c = dollar" "class_of c = 7 \<longleftrightarrow> is_hex c"
  by (auto simp: class_of_def is_hex_def is_digit_def)

lemma next_eqs:
  "yy_next 9 c = Some (if c = hash then 10 else if c = dollar then 13 else 9)"
  "yy_next 6 c = Some (if c = hash then 10 else if c = dollar then 13 else 9)"
  "yy_next 10 c = Some (if is_hex c then 11 else 13)" "yy_next 11 c = Some (if is_hex c then 12 else 13)"
  by (simp_all add: next_moves moves_def class_of_iff)

lemma yy_table_entries [simp]:
  "yy_accept ! 1 = 0" "yy_accept ! Suc 0 = 0" "yy_accept ! 4 = 4" "yy_accept ! 5 = 5" "yy_accept ! 6 = 4" "yy_accept ! 7 = 1"
  "yy_accept ! 8 = 2" "yy_accept ! 9 = 0" "yy_accept ! 10 = 0" "yy_accept ! 11 = 0"
  "yy_accept ! 12 = 3" "yy_accept ! 13 = 0"
  "yy_base ! 4 = 14" "yy_base ! 5 = 14" "yy_base ! 6 = 9" "yy_base ! 7 = 14" "yy_base ! 8 = 14"
  "yy_base ! 9 = 8" "yy_base ! 10 = 3" "yy_base ! 11 = 2" "yy_base ! 12 = 14" "yy_base ! 13 = 14"
  by (simp_all add: yy_accept_def yy_base_def)

definition packet_token :: "nat \<Rightarrow> u8 list \<Rightarrow> nat \<times> nat" where
  "packet_token n cs = (case packet_tail cs of Some m \<Rightarrow> (3, n + m) | None \<Rightarrow> (4, 1))"

lemma packet_token_eqs:
  "packet_token n [] = (4, 1)"
  "packet_token n (hash # []) = (4, 1)" "packet_token n (hash # [x]) = (4, 1)"
  "packet_token n (hash # x # y # r) = (if is_hex x \<and> is_hex y then (3, n + 3) else (4, 1))"
  "packet_token n (dollar # cs) = (4, 1)"
  "c \<noteq> hash \<Longrightarrow> c \<noteq> dollar \<Longrightarrow> packet_token n (c # cs) = packet_token (n + 1) cs"
  by (simp_all add: packet_token_def split: option.split)

lemma match_checksum:
  "map_option yy_find_action (yy_match 10 (6, 1) (n + 1) cs) = Some (packet_token n (hash # cs))"
proof (cases cs)
  case (Cons x ys)
  then show ?thesis
    by (cases ys) (simp_all add: next_eqs yy_find_action_def packet_token_eqs del: of_char_Char)
qed (simp add: yy_find_action_def packet_token_eqs del: of_char_Char)

lemma match_step:
  assumes m: "(if c = hash then yy_match 10 (6, 1) (n + 1) cs
      else if c = dollar then Some (13, n + 1, 6, 1) else yy_match 9 (6, 1) (n + 1) cs) = m"
    and b: "map_option yy_find_action (yy_match 9 (6, 1) (n + 1) cs) = Some (packet_token (n + 1) cs)"
  shows "map_option yy_find_action m = Some (packet_token n (c # cs))"
proof -
  consider "c = hash" | "c = dollar" | "c \<noteq> hash" "c \<noteq> dollar" by blast
  then show ?thesis
  proof cases
    case 1
    with m have "m = yy_match 10 (6, 1) (n + 1) cs" by simp
    with 1 match_checksum [of n cs] show ?thesis by simp
  next
    case 2
    with m have "m = Some (13, n + 1, 6, 1)" by simp
    then show ?thesis unfolding 2 packet_token_eqs(5) by (simp add: yy_find_action_def)
  next
    case 3
    with m have "m = yy_match 9 (6, 1) (n + 1) cs" by simp
    with b packet_token_eqs(6) [OF 3] show ?thesis by simp
  qed
qed

lemma match_body: "map_option yy_find_action (yy_match 9 (6, 1) n cs) = Some (packet_token n cs)"
proof (induction cs arbitrary: n)
  case (Cons c cs)
  show ?case by (rule match_step [OF _ Cons.IH]) (simp add: next_eqs del: of_char_Char)
qed (simp add: packet_token_eqs yy_find_action_def)

lemma match_packet: "map_option yy_find_action (yy_match 6 (0, 0) 1 cs) = Some (packet_token 1 cs)"
proof (cases cs)
  case (Cons c cs')
  show ?thesis
    unfolding Cons by (rule match_step [OF _ match_body]) (simp add: next_eqs del: of_char_Char)
qed (simp add: packet_token_eqs yy_find_action_def)

lemma yy_token_rule: "yy_token (c # cs) = Some (rule_token c cs)"
proof (cases "c = dollar")
  case True
  then have "yy_next 1 c = Some 6" by (simp add: next_moves moves_def class_of_def)
  then have "yy_match 1 (0, 0) 0 (c # cs) = yy_match 6 (0, 0) 1 cs" by simp
  with True match_packet [of cs] show ?thesis
    by (simp add: yy_token_def rule_token_def packet_token_def split: option.splits)
next
  case False
  then have "yy_next 1 c = Some (if c = of_char CHR ''+'' then 7 else if c = of_char CHR ''-'' then 8
      else if c = 10 then 5 else 4)"
    by (auto simp: next_moves moves_def class_of_def)
  with False show ?thesis by (auto simp: yy_token_def rule_token_def yy_find_action_def)
qed

section \<open>The patterns of \<open>scanner.l\<close>\<close>

definition clean :: "u8 list \<Rightarrow> bool" where
  "clean s \<longleftrightarrow> hash \<notin> set s \<and> dollar \<notin> set s"

definition matches :: "nat \<Rightarrow> u8 list \<Rightarrow> bool" where
  "matches r t \<longleftrightarrow>
     r = 1 \<and> t = bytes ''+'' \<or> r = 2 \<and> t = bytes ''-'' \<or>
     r = 3 \<and> (\<exists>s x y. t = dollar # s @ [hash, x, y] \<and> clean s \<and> is_hex x \<and> is_hex y) \<or>
     r = 4 \<and> (\<exists>c. t = [c] \<and> c \<noteq> 10) \<or>
     r = 5 \<and> (\<exists>c. t = [c])"

lemma packet_tail_packet:
  "clean s \<Longrightarrow> is_hex x \<Longrightarrow> is_hex y \<Longrightarrow> packet_tail (s @ hash # x # y # r) = Some (length s + 3)"
  by (induction s) (auto simp: clean_def)

lemma packet_tail_Some:
  "packet_tail cs = Some m \<Longrightarrow>
     \<exists>s x y r. cs = s @ hash # x # y # r \<and> clean s \<and> is_hex x \<and> is_hex y \<and> m = length s + 3"
proof (induction cs arbitrary: m)
  case (Cons c cs)
  show ?case
  proof (cases "c = hash")
    case True
    with Cons.prems obtain x y r where "cs = x # y # r" "is_hex x" "is_hex y" "m = 3"
      by (auto split: list.splits if_splits)
    with True show ?thesis by (intro exI [of _ "[]"]) (auto simp: clean_def)
  next
    case False
    with Cons.prems obtain m' where m': "packet_tail cs = Some m'" "m = Suc m'" "c \<noteq> dollar"
      by (auto split: if_splits)
    from Cons.IH [OF m'(1)] obtain s x y r where
      "cs = s @ hash # x # y # r" "clean s" "is_hex x" "is_hex y" "m' = length s + 3" by blast
    with False m' show ?thesis by (intro exI [of _ "c # s"]) (auto simp: clean_def)
  qed
qed simp

lemma rule_token_length: "rule_token c cs = (r, n) \<Longrightarrow> 0 < n \<and> n \<le> length (c # cs)"
  by (auto simp: rule_token_def split: if_splits option.splits dest!: packet_tail_Some)

text \<open>What matches a prefix of the input, and the token among it.\<close>

lemma matches_one:
  "matches r t \<Longrightarrow> r \<noteq> 3 \<Longrightarrow> \<exists>d. t = [d] \<and> (r = 1 \<longrightarrow> d = of_char CHR ''+'') \<and>
     (r = 2 \<longrightarrow> d = of_char CHR ''-'') \<and> (r = 4 \<longrightarrow> d \<noteq> 10) \<and> r \<in> {1, 2, 4, 5}"
  by (auto simp: matches_def)

lemma matches_prefix:
  assumes "matches r (take n (c # cs))" "n \<le> length (c # cs)"
  shows "n = 1 \<and> (r = 1 \<longrightarrow> c = of_char CHR ''+'') \<and> (r = 2 \<longrightarrow> c = of_char CHR ''-'') \<and> (r = 4 \<longrightarrow> c \<noteq> 10)
      \<and> r \<in> {1, 2, 4, 5}
    \<or> r = 3 \<and> c = dollar \<and> packet_tail cs = Some (n - 1) \<and> 1 < n"
proof -
  obtain m where n: "n = Suc m" using assms(1) by (cases n) (auto simp: matches_def)
  have one: "m = 0" if "take n (c # cs) = [d]" for d
    using arg_cong [OF that, where f = length] assms(2) n by simp
  show ?thesis
  proof (cases "r = 3")
    case True
    with assms(1) n obtain s x y where s: "c = dollar" "take m cs = s @ [hash, x, y]" "clean s" "is_hex x" "is_hex y"
      by (auto simp: matches_def)
    then have "cs = s @ hash # x # y # drop m cs" using append_take_drop_id [of m cs] by simp
    with s have "packet_tail cs = Some (length s + 3)" using packet_tail_packet by metis
    moreover have "m = length s + 3" using arg_cong [OF s(2), where f = length] assms(2) n by simp
    ultimately show ?thesis using s True n by simp
  next
    case False
    from matches_one [OF assms(1) this] obtain d where d: "take n (c # cs) = [d]"
      "r = 1 \<longrightarrow> d = of_char CHR ''+''" "r = 2 \<longrightarrow> d = of_char CHR ''-''" "r = 4 \<longrightarrow> d \<noteq> 10"
      "r \<in> {1, 2, 4, 5}" by blast
    have n1: "n = 1" using one [OF d(1)] n by simp
    with d(1) have "d = c" by simp
    with d(2-) n1 show ?thesis by blast
  qed
qed

lemma take_length_append: "take (length w) (w @ r) = w"
  by simp

lemma token_matches:
  assumes "rule_token c cs = (r, n)" shows "matches r (take n (c # cs))"
proof (cases "r = 3")
  case True
  with assms have c: "c = dollar" "packet_tail cs = Some (n - 1)" "0 < n"
    by (auto simp: rule_token_def split: if_splits option.splits)
  from packet_tail_Some [OF c(2)] obtain s x y r' where
    s: "cs = s @ hash # x # y # r'" "clean s" "is_hex x" "is_hex y" "n - 1 = length s + 3" by blast
  have n: "n = Suc (length (s @ [hash, x, y]))" using s(5) c(3) by simp
  have "cs = (s @ [hash, x, y]) @ r'" using s(1) by simp
  then have "take n (c # cs) = dollar # s @ [hash, x, y]"
    unfolding n c(1) by (simp only: take_Suc_Cons take_length_append)
  with s True show ?thesis by (auto simp: matches_def)
qed (use assms in \<open>auto simp: rule_token_def matches_def split: if_splits option.splits\<close>)

lemma token_longest:
  assumes "rule_token c cs = (r, n)" "matches r' (take n' (c # cs))" "n' \<le> length (c # cs)"
  shows "n' < n \<or> n' = n \<and> r \<le> r'"
  using matches_prefix [OF assms(2,3)] assms(1)
  by (auto simp: rule_token_def split: if_splits option.splits dest!: packet_tail_Some)

end
