(* ===== verification/Sessions.thy ===== *)
theory Sessions
  imports Scanner
begin

unbundle bit_operations_syntax

text \<open>
  The actions of the scanner and its main loop: a debugging session as what the server does with
  the stream of characters the debugger sends.
\<close>

section \<open>State and actions\<close>

definition MAX_ERROR_SIZE :: int where
  "MAX_ERROR_SIZE = 1024"

record parser = gdb +
  error_buffer :: "u8 list"
  error_len :: int

type_synonym ('z, 'a) lexer = "('z parser_scheme, 'a) prog"

text \<open>\<open>data->buffer[i] = c\<close>\<close>

definition put_error :: "int \<Rightarrow> u8 \<Rightarrow> ('z, unit) lexer" where
  "put_error i c = update_o (\<lambda>p. if 0 \<le> i \<and> nat i < length (error_buffer p)
     then Ret (p\<lparr>error_buffer := (error_buffer p)[nat i := c]\<rparr>) else Undefined Out_of_bounds)"

definition handle_error :: "('z, unit) lexer" where
  "handle_error =
     mbind (gets error_len) (\<lambda>n. mwhen (n \<noteq> 0)
       (mseq (put_error n 0)
       (mseq gdb_require_retransmission
       (modify (\<lambda>p. p\<lparr>error_len := 0\<rparr>)))))"

definition add_character_to_error :: "u8 \<Rightarrow> ('z, unit) lexer" where
  "add_character_to_error c =
     mbind (gets error_len) (\<lambda>n.
     mseq (mwhen (n > MAX_ERROR_SIZE - 2) handle_error)
     (mbind (gets error_len) (\<lambda>n.
     mseq (put_error n c) (modify (\<lambda>p. p\<lparr>error_len := n + 1\<rparr>)))))"

text \<open>The switch over the rules; any other number is the fatal error of the generated scanner.\<close>

definition yy_action ::
  "(u8 \<Rightarrow> 'z parser_ext gdb_handler_t option) \<Rightarrow> nat \<Rightarrow> u8 list \<Rightarrow> ('z, unit) lexer" where
  "yy_action handler act text =
     (if act = 1 then handle_error
      else if act = 2 then mseq handle_error gdb_transmit_packet
      else if act = 3 then mseq handle_error (gdb_packet_analysis handler (text @ [0]) (int (length text)))
      else if act = 4 then mbind (lift_o (byte_at text 0)) add_character_to_error
      else if act = 5 then call (Fwrite text)
      else exit_with 2)"

text \<open>The loop over the tokens of the stream; at its end, the action for the end of the file.\<close>

function yylex :: "(u8 \<Rightarrow> 'z parser_ext gdb_handler_t option) \<Rightarrow> u8 list \<Rightarrow> ('z, unit) lexer" where
  "yylex handler [] = handle_error"
| "yylex handler (c # cs) = (case yy_token (c # cs) of
       None \<Rightarrow> still_running
     | Some (act, n) \<Rightarrow> mseq (yy_action handler act (take n (c # cs))) (yylex handler (drop n (c # cs))))"
  by pat_completeness auto
termination
proof (relation "measure (length \<circ> snd)", simp)
  fix handler :: "u8 \<Rightarrow> 'z parser_ext gdb_handler_t option" and c cs p act n
  assume "yy_token (c # cs) = Some p" "(act, n) = p"
  then have "rule_token c cs = (act, n)" by (simp add: yy_token_rule)
  with rule_token_length have "0 < n" by blast
  then show "((handler, drop n (c # cs)), handler, c # cs) \<in> measure (length \<circ> snd)"
    by (simp add: drop_Cons')
qed

definition gdb_scanner :: "(u8 \<Rightarrow> unit parser_ext gdb_handler_t option) \<Rightarrow> bool \<Rightarrow> u8 list \<Rightarrow> u8 list \<Rightarrow>
    u8 list \<Rightarrow> host \<Rightarrow> machine \<Rightarrow> (unit \<times> parser) outcome" where
  "gdb_scanner handler opened block error_block input h m =
     (let p = gdb.extend (gdb_init_data block m) (parser.fields (take (nat MAX_ERROR_SIZE) error_block) 0) in
      if opened then yylex handler input h p else Ret ((), p))"

lemmas yylex_simps = yylex.simps(1)

lemma yylex_token:
  "rule_token c cs = (act, n) \<Longrightarrow>
     yylex handler (c # cs) = mseq (yy_action handler act (take n (c # cs))) (yylex handler (drop n (c # cs)))"
  by (simp add: yy_token_rule)

declare yylex.simps(2) [simp del]

section \<open>Packets in a stream\<close>

text \<open>What the server does with a packet with payload \<open>s\<close> and the right digits.\<close>

definition take_packet :: "(u8 \<Rightarrow> 'z parser_ext gdb_handler_t option) \<Rightarrow> u8 list \<Rightarrow> ('z, unit) lexer" where
  "take_packet handler s =
     mseq handle_error (gdb_packet_analysis handler (frame s @ [0]) (int (length s) + 4))"

lemma hex2_hex: "\<exists>x y. hex2 b = [x, y] \<and> is_hex x \<and> is_hex y"
  by (rule hex2_nibbles [of b]) auto

lemma token_frame:
  assumes "clean s"
  shows "rule_token dollar (s @ hash # hex2 b @ t) = (3, length s + 4)"
proof -
  from hex2_hex obtain x y where "hex2 b = [x, y]" "is_hex x" "is_hex y" by blast
  with packet_tail_packet [OF assms this(2,3), of t] show ?thesis
    by (simp add: rule_token_def)
qed

lemma yylex_frame:
  assumes "clean s"
  shows "yylex handler (frame s @ t) = mseq (take_packet handler s) (yylex handler t)"
proof -
  have f: "frame s @ t = dollar # s @ hash # hex2 (sum_list s) @ t" by (simp add: frame_def)
  have d: "take (length s + 4) (frame s @ t) = frame s" "drop (length s + 4) (frame s @ t) = t"
    by simp_all
  from yylex_token [OF token_frame [OF assms], of handler "sum_list s" t]
  show ?thesis
    unfolding f [symmetric] d
    by (simp add: yy_action_def take_packet_def mbind_assoc)
qed

section \<open>Noise\<close>

text \<open>Characters that begin no packet and are neither acknowledgements nor line ends.\<close>

definition noise :: "u8 \<Rightarrow> bool" where
  "noise c \<longleftrightarrow> c \<notin> set (bytes ''+-$'') \<and> c \<noteq> 10"

lemma yylex_noise:
  "noise c \<Longrightarrow> yylex handler (c # cs) = mseq (add_character_to_error c) (yylex handler cs)"
  using yylex_token [of c cs 4 1 handler]
  by (simp add: noise_def rule_token_def yy_action_def byte_at_def)

definition wf_parser :: "'z parser_scheme \<Rightarrow> bool" where
  "wf_parser p \<longleftrightarrow> length (error_buffer p) = 1024 \<and> 0 \<le> error_len p \<and> error_len p < 1024"

text \<open>The buffer and its length do not interfere with the calls.\<close>

lemma parser_commute [simp]:
  "p\<lparr>error_buffer := b, calls := c\<rparr> = p\<lparr>calls := c, error_buffer := b\<rparr>"
  "p\<lparr>error_len := k, calls := c\<rparr> = p\<lparr>calls := c, error_len := k\<rparr>"
  by (cases p; simp)+

definition reported :: "'z parser_scheme \<Rightarrow> 'z parser_scheme" where
  "reported p = (if error_len p = 0 then p else (after_call (Rio_writen (bytes ''-'')) p)
     \<lparr>error_buffer := (error_buffer p)[nat (error_len p) := 0], error_len := 0\<rparr>)"

lemma wf_reported: "wf_parser p \<Longrightarrow> wf_parser (reported p)"
  by (auto simp: reported_def wf_parser_def)

lemma wp_handle_error: "wf_parser p \<Longrightarrow> wp handle_error h Q p \<longleftrightarrow> Q () (reported p)"
  by (auto simp: handle_error_def put_error_def gdb_require_retransmission_def wf_parser_def
      reported_def wp_simps)

definition add_error :: "u8 \<Rightarrow> 'z parser_scheme \<Rightarrow> 'z parser_scheme" where
  "add_error c p = p\<lparr>error_buffer := (error_buffer p)[nat (error_len p) := c],
     error_len := error_len p + 1\<rparr>"

lemma wf_add_error: "wf_parser p \<Longrightarrow> error_len p < 1023 \<Longrightarrow> wf_parser (add_error c p)"
  by (auto simp: add_error_def wf_parser_def)

lemma wp_add_character:
  "wf_parser p \<Longrightarrow> wp (add_character_to_error c) h Q p \<longleftrightarrow>
     Q () (add_error c (if error_len p < 1023 then p else reported p))"
proof -
  assume p: "wf_parser p"
  then have "error_len p > MAX_ERROR_SIZE - 2 \<longleftrightarrow> \<not> error_len p < 1023"
    by (auto simp: MAX_ERROR_SIZE_def)
  with p show ?thesis
    by (auto simp: add_character_to_error_def put_error_def wp_simps wp_handle_error
        add_error_def wf_parser_def reported_def)
qed

lemma ret_run: "wp m h (\<lambda>_ t. t = s') s \<Longrightarrow> mseq m k h s = k h s'"
  by (auto simp: wp_iff mbind_def)

lemma yylex_ack: "yylex handler (of_char CHR ''+'' # t) = mseq handle_error (yylex handler t)"
  using yylex_token [of "of_char CHR ''+''" t 1 1 handler] by (simp add: rule_token_def yy_action_def)

lemma yylex_noise_run:
  assumes "\<forall>c \<in> set ns. noise c" "wf_parser p" "error_len p + int (length ns) \<le> 1023"
  shows "\<exists>b. yylex handler (ns @ of_char CHR ''+'' # t) h p = yylex handler t h
    (reported (p\<lparr>error_buffer := b, error_len := error_len p + int (length ns)\<rparr>))"
  using assms
proof (induction ns arbitrary: p)
  case Nil
  then have "yylex handler (of_char CHR ''+'' # t) h p = yylex handler t h (reported p)"
    unfolding yylex_ack by (intro ret_run) (simp add: wp_handle_error)
  then show ?case by (intro exI [of _ "error_buffer p"]) simp
next
  case (Cons c ns)
  then have l: "error_len p < 1023" and w: "wf_parser (add_error c p)" by (auto intro: wf_add_error)
  have "yylex handler ((c # ns) @ of_char CHR ''+'' # t) h p =
      yylex handler (ns @ of_char CHR ''+'' # t) h (add_error c p)"
    using Cons.prems l by (simp add: yylex_noise) (intro ret_run, simp add: wp_add_character)
  moreover have "\<exists>b. yylex handler (ns @ of_char CHR ''+'' # t) h (add_error c p) = yylex handler t h
      (reported ((add_error c p)\<lparr>error_buffer := b, error_len := error_len (add_error c p) + int (length ns)\<rparr>))"
    using Cons.prems by (intro Cons.IH w) (simp_all add: add_error_def)
  ultimately show ?case by (auto simp: add_error_def ac_simps)
qed

section \<open>The invariant of a session\<close>

definition session_inv :: "u64 \<Rightarrow> int \<Rightarrow> 'z parser_scheme \<Rightarrow> bool" where
  "session_inv n b p \<longleftrightarrow> server_inv n b p \<and> wf_parser p"

interpretation session: server_invariant "session_inv n b"
  by unfold_locales
    (auto simp: session_inv_def server_inv_def sim_inv_def user_state_def wf_registers_def wf_memory_def wf_parser_def)

lemma preserves_keeps:
  assumes "\<And>h s. I s \<Longrightarrow> wp m h (\<lambda>_. I) s"
  shows "preserves I m"
  unfolding preserves_def
proof (intro allI impI)
  fix h s v s' assume "m h s = Ret (v, s')" "I s"
  with assms [of s h] show "I s'" by (simp add: wp_def)
qed

lemma server_inv_parser:
  "server_inv n b (p\<lparr>error_buffer := x\<rparr>) = server_inv n b p"
  "server_inv n b (p\<lparr>error_len := k\<rparr>) = server_inv n b p"
  "server_inv n b (p\<lparr>calls := c\<rparr>) = server_inv n b p"
  by (simp_all add: server_inv_def sim_inv_def user_state_def)

lemma session_reported: "session_inv n b p \<Longrightarrow> session_inv n b (reported p)"
  by (simp add: session_inv_def wf_reported) (simp add: reported_def server_inv_parser)

lemma session_add_error:
  "session_inv n b p \<Longrightarrow> error_len p < 1023 \<Longrightarrow> session_inv n b (add_error c p)"
  by (simp add: session_inv_def wf_add_error) (simp add: add_error_def server_inv_parser)

lemma preserves_handle_error [pres]: "preserves (session_inv n b) handle_error"
  by (rule preserves_keeps) (subst wp_handle_error, auto simp: session_reported, simp add: session_inv_def)

lemma preserves_add_character [pres]: "preserves (session_inv n b) (add_character_to_error c)"
proof (rule preserves_keeps)
  fix h and s :: "'a parser_scheme" assume s: "session_inv n b s"
  have "error_len (reported s) < 1023" if "\<not> error_len s < 1023"
    using that by (simp add: reported_def)
  with s have "session_inv n b (add_error c (if error_len s < 1023 then s else reported s))"
    by (intro session_add_error) (auto simp: session_reported)
  with s show "wp (add_character_to_error c) h (\<lambda>_. session_inv n b) s"
    by (subst wp_add_character) (simp_all add: session_inv_def)
qed

lemma preserves_yy_action: "preserves (session_inv n b) (yy_action (gdb_init fuel) act text)"
  unfolding yy_action_def
  by (intro pres session.preserves_analysis session.preserves_send session.preserves_server)

lemma preserves_yylex:
  fixes h :: "u8 \<Rightarrow> 'z parser_ext gdb_handler_t option"
  assumes "h = gdb_init fuel"
  shows "preserves (session_inv n b) (yylex h input)"
  using assms
proof (induction h input rule: yylex.induct)
  case (2 handler c cs)
  obtain act k where "rule_token c cs = (act, k)" by fastforce
  with 2 show ?case
    by (auto simp: yy_token_rule yylex_token intro!: pres preserves_yy_action)
qed (simp add: preserves_handle_error)

section \<open>Properties\<close>

text \<open>
  C13: The automaton flex generated implements the patterns of \<open>scanner.l\<close>: on any input it stops,
  with the longest prefix that matches a pattern and the first pattern that matches that prefix.
\<close>

theorem automaton_longest_match:
  assumes "input \<noteq> []"
  shows "\<exists>r n. yy_token input = Some (r, n) \<and> 0 < n \<and> n \<le> length input \<and> matches r (take n input) \<and>
    (\<forall>r' n'. n' \<le> length input \<and> matches r' (take n' input) \<longrightarrow> n' < n \<or> n' = n \<and> r \<le> r')"
proof -
  obtain c cs where i: "input = c # cs" using assms by (cases input) auto
  obtain r n where t: "rule_token c cs = (r, n)" by fastforce
  show ?thesis
    unfolding i using yy_token_rule [of c cs] rule_token_length [OF t] token_matches [OF t] token_longest [OF t] t
    by (intro exI [of _ r] exI [of _ n]) (simp only: simp_thms, blast)
qed

theorem automaton_longest_match_witness:
  "\<exists>r n. yy_token (bytes ''$g#67+'') = Some (r, n) \<and> matches r (take n (bytes ''$g#67+''))"
  using automaton_longest_match [of "bytes ''$g#67+''"] by auto

text \<open>
  C15: A stream that consists of frames is handled frame by frame, in its order, each as a packet
  that passes the check.
\<close>

theorem session_of_packets:
  assumes "\<forall>s \<in> set ps. clean s"
  shows "yylex handler (concat (map frame ps)) = foldr (\<lambda>s m. mseq (take_packet handler s) m) ps handle_error"
  using assms by (induction ps) (simp_all add: yylex_frame)

theorem session_of_packets_witness:
  "yylex (gdb_init 0) (frame (bytes ''g'') @ frame (bytes ''s'')) =
     mseq (take_packet (gdb_init 0) (bytes ''g'')) (mseq (take_packet (gdb_init 0) (bytes ''s'')) handle_error)"
  using session_of_packets [of "[bytes ''g'', bytes ''s'']" "gdb_init 0"]
  by (simp add: clean_def)

text \<open>
  Up to 1023 characters of noise in front of an acknowledgement make the server ask for one
  retransmission, and have no other effect.
\<close>

theorem noise_retransmission:
  assumes "\<forall>c \<in> set ns. noise c" "0 < length ns" "length ns < 1024" "wf_parser p" "error_len p = 0"
  shows "\<exists>b. yylex handler (ns @ of_char CHR ''+'' # t) h p = yylex handler t h
    ((after_call (Rio_writen (bytes ''-'')) p)\<lparr>error_buffer := b, error_len := 0\<rparr>)"
proof -
  obtain b where "yylex handler (ns @ of_char CHR ''+'' # t) h p = yylex handler t h
      (reported (p\<lparr>error_buffer := b, error_len := int (length ns)\<rparr>))"
    using yylex_noise_run [OF assms(1,4), of handler t h] assms(3,5) by auto
  with assms(2) show ?thesis by (auto simp: reported_def)
qed

text \<open>The parser of a session on the sample server.\<close>

definition sample_parser :: "u8 list \<Rightarrow> parser" where
  "sample_parser bs = gdb.extend (sample_server bs) (parser.fields (replicate 1024 0) 0)"

lemma sample_parser_simps [simp]:
  "wf_parser (sample_parser bs)" "error_len (sample_parser bs) = 0"
  by (simp_all add: sample_parser_def gdb.defs parser.defs wf_parser_def)

theorem noise_retransmission_witness:
  "\<exists>b. yylex (gdb_init 0) (bytes ''xy+'') x86_host (sample_parser []) = yylex (gdb_init 0) [] x86_host
     ((after_call (Rio_writen (bytes ''-'')) (sample_parser []))\<lparr>error_buffer := b, error_len := 0\<rparr>)"
  using noise_retransmission [of "bytes ''xy''" "sample_parser []" "gdb_init 0" "[]" x86_host]
  by (simp add: noise_def)

text \<open>
  Whatever stream of characters comes from the debugger, as long as the server runs its state
  stays well-formed: the registers, their mode, the size and byte order of the memory, the size
  of the packet, and the position in the buffer of erroneous characters.
\<close>

theorem session_invariant:
  assumes "yylex (gdb_init fuel) input h p = Ret ((), p')" "session_inv n b p"
  shows "session_inv n b p'"
  using preservesD [OF preserves_yylex [OF refl] assms] .

end
