(* ===== verification/Debug_Flags.thy ===== *)
theory Debug_Flags
  imports Prelude "HOL-Library.List_Lexorder"
begin

text \<open>
  \<open>debug.c\<close>: the table of the source files whose debug messages are shown. The array of
  pointers is a list of 64 entries, \<open>None\<close> for the null pointer; a name is the list of its
  characters without the terminator, ordered as \<open>strcmp\<close> orders them, which is the
  lexicographic order of the library.
\<close>

section \<open>State and operations\<close>

record debug_flags =
  debugged_files :: "u8 list option list"
  nb_debugged_files :: int

definition MAX_FILES_NUMBER :: int where
  "MAX_FILES_NUMBER = 64"

definition debug_flags_init :: debug_flags where
  "debug_flags_init = \<lparr>debugged_files = replicate 64 None, nb_debugged_files = 0\<rparr>"

text \<open>\<open>strcmp\<close>, whose result is only known up to its sign.\<close>

fun strcmp :: "u8 list \<Rightarrow> u8 list \<Rightarrow> int" where
  "strcmp [] [] = 0"
| "strcmp [] (b # bs) = -1"
| "strcmp (a # as) [] = 1"
| "strcmp (a # as) (b # bs) = (if a = b then strcmp as bs else if a < b then -1 else 1)"

definition file_at :: "debug_flags \<Rightarrow> int \<Rightarrow> u8 list option outcome" where
  "file_at f i = (if 0 \<le> i \<and> nat i < length (debugged_files f) then Ret (debugged_files f ! nat i)
     else Undefined Out_of_bounds)"

definition put_file :: "debug_flags \<Rightarrow> int \<Rightarrow> u8 list option \<Rightarrow> debug_flags outcome" where
  "put_file f i p = (if 0 \<le> i \<and> nat i < length (debugged_files f)
     then Ret (f\<lparr>debugged_files := (debugged_files f)[nat i := p]\<rparr>) else Undefined Out_of_bounds)"

text \<open>\<open>strcmp(debugged_files[i], name)\<close>\<close>

definition compare_at :: "debug_flags \<Rightarrow> int \<Rightarrow> u8 list \<Rightarrow> int outcome" where
  "compare_at f i name = obind (file_at f i) (\<lambda>p.
     case p of None \<Rightarrow> Undefined Bad_string | Some s \<Rightarrow> Ret (strcmp s name))"

text \<open>The two loops of \<open>add_debug_to\<close>.\<close>

function find_place :: "debug_flags \<Rightarrow> u8 list \<Rightarrow> int \<Rightarrow> int outcome" where
  "find_place f name i =
     (if i < nb_debugged_files f \<and> i < MAX_FILES_NUMBER then
        obind (compare_at f i name) (\<lambda>r. if r < 0 then find_place f name (i + 1) else Ret i)
      else Ret i)"
  by pat_completeness auto
termination by (relation "measure (\<lambda>(f, name, i). nat (MAX_FILES_NUMBER - i))") auto

function move_up :: "int \<Rightarrow> int \<Rightarrow> debug_flags \<Rightarrow> debug_flags outcome" where
  "move_up i j f =
     (if j > i then
        obind (file_at f (j - 1)) (\<lambda>p. obind (put_file f j p) (\<lambda>f. move_up i (j - 1) f))
      else Ret f)"
  by pat_completeness auto
termination by (relation "measure (\<lambda>(i, j, f). nat (j - i))") auto

definition add_debug_to :: "u8 list \<Rightarrow> debug_flags \<Rightarrow> debug_flags outcome" where
  "add_debug_to name f =
     obind (find_place f name 0) (\<lambda>i.
     if i \<ge> MAX_FILES_NUMBER then Ret f
     else
       obind (move_up i (nb_debugged_files f) f) (\<lambda>f.
       obind (put_file f i (Some name)) (\<lambda>f.
       Ret (f\<lparr>nb_debugged_files := nb_debugged_files f + 1\<rparr>))))"

text \<open>The binary search; its loop returns 1 or leaves the two bounds.\<close>

function search :: "debug_flags \<Rightarrow> u8 list \<Rightarrow> int \<Rightarrow> int \<Rightarrow> (int \<times> int) option outcome" where
  "search f name lo hi =
     (if lo < hi then
        let middle = (lo + hi) div 2 in
        obind (compare_at f middle name) (\<lambda>result.
        if result < 0 then search f name (middle + 1) hi
        else if result > 0 then search f name lo (middle - 1)
        else Ret None)
      else Ret (Some (lo, hi)))"
  by pat_completeness auto
termination by (relation "measure (\<lambda>(f, name, lo, hi). nat (hi - lo))") auto

definition is_debugged :: "u8 list \<Rightarrow> debug_flags \<Rightarrow> int outcome" where
  "is_debugged name f =
     obind (search f name 0 (nb_debugged_files f - 1)) (\<lambda>r.
     case r of None \<Rightarrow> Ret 1
     | Some (lo, hi) \<Rightarrow>
         if lo = hi then obind (compare_at f lo name) (\<lambda>c. Ret (if c = 0 then 1 else 0))
         else Ret 0)"

declare find_place.simps [simp del] move_up.simps [simp del] search.simps [simp del]

section \<open>The order of names\<close>

lemma strcmp_order:
  "strcmp a b < 0 \<longleftrightarrow> a < b" "strcmp a b > 0 \<longleftrightarrow> b < a" "strcmp a b = 0 \<longleftrightarrow> a = b"
  by (induction a b rule: strcmp.induct) auto

text \<open>The table that holds the given names.\<close>

definition flags_of :: "u8 list list \<Rightarrow> debug_flags" where
  "flags_of ns = \<lparr>debugged_files = map Some ns @ replicate (64 - length ns) None,
     nb_debugged_files = int (length ns)\<rparr>"

lemma debug_flags_init: "debug_flags_init = flags_of []"
  by (simp add: debug_flags_init_def flags_of_def)

lemma nb_flags_of [simp]: "nb_debugged_files (flags_of ns) = int (length ns)"
  by (simp add: flags_of_def)

lemma compare_flags_of [simp]:
  "i < length ns \<Longrightarrow> compare_at (flags_of ns) (int i) name = Ret (strcmp (ns ! i) name)"
  by (simp add: compare_at_def file_at_def flags_of_def nth_append)

section \<open>Adding a name\<close>

text \<open>The position of a name among the sorted names.\<close>

definition place :: "u8 list \<Rightarrow> u8 list list \<Rightarrow> nat" where
  "place name ns = length (takeWhile (\<lambda>n. n < name) ns)"

lemma place_le: "place name ns \<le> length ns"
  by (simp add: place_def length_takeWhile_le)

lemma find_place_flags_of:
  assumes "length ns \<le> 64" "i \<le> place name ns"
  shows "find_place (flags_of ns) name (int i) = Ret (int (place name ns))"
  using assms(2)
proof (induction "place name ns - i" arbitrary: i)
  case 0
  then have "i = place name ns" by simp
  moreover have "\<not> ns ! place name ns < name" if "place name ns < length ns"
    using that nth_length_takeWhile unfolding place_def by blast
  ultimately show ?case
    by (subst find_place.simps) (auto simp: strcmp_order)
next
  case (Suc k)
  then have i: "i < place name ns" by simp
  then have "ns ! i < name"
    unfolding place_def using takeWhile_nth nth_mem set_takeWhileD by metis
  moreover have "i < length ns" using i place_le [of name ns] by simp
  moreover have "find_place (flags_of ns) name (int i + 1) = Ret (int (place name ns))"
    using Suc.hyps(1) [of "i + 1"] Suc.hyps(2) i by (simp add: ac_simps)
  ultimately show ?case
    using assms(1) by (subst find_place.simps) (simp add: MAX_FILES_NUMBER_def strcmp_order)
qed

text \<open>Moving the entries from \<open>i\<close> on up by one.\<close>

lemma move_up_list:
  assumes "i \<le> j" "j < length (debugged_files f)"
  shows "move_up (int i) (int j) f = Ret (f\<lparr>debugged_files :=
    take (i + 1) (debugged_files f) @ drop i (take j (debugged_files f)) @ drop (j + 1) (debugged_files f)\<rparr>)"
  using assms
proof (induction j arbitrary: f)
  case 0
  then show ?case by (subst move_up.simps) (simp add: append_take_drop_id)
next
  case (Suc j)
  let ?l = "debugged_files f"
  show ?case
  proof (cases "i = Suc j")
    case True
    with Suc.prems show ?thesis by (subst move_up.simps) simp
  next
    case False
    let ?f = "f\<lparr>debugged_files := ?l[Suc j := ?l ! j]\<rparr>"
    have d: "drop (j + 1) (?l[Suc j := ?l ! j]) = ?l ! j # drop (Suc j + 1) ?l"
      using Suc.prems by (subst Cons_nth_drop_Suc [symmetric]) auto
    have "move_up (int i) (int (Suc j)) f = move_up (int i) (int j) ?f"
      using Suc.prems False by (subst move_up.simps) (simp add: file_at_def put_file_def nat_add_distrib)
    also have "\<dots> = Ret (?f\<lparr>debugged_files := take (i + 1) (?l[Suc j := ?l ! j])
        @ drop i (take j (?l[Suc j := ?l ! j])) @ drop (j + 1) (?l[Suc j := ?l ! j])\<rparr>)"
      using Suc.IH [of ?f] Suc.prems False by simp
    also have "\<dots> = Ret (f\<lparr>debugged_files := take (i + 1) ?l @ drop i (take j ?l @ [?l ! j]) @ drop (Suc j + 1) ?l\<rparr>)"
      unfolding d using Suc.prems False by simp
    also have "take j ?l @ [?l ! j] = take (Suc j) ?l"
      using Suc.prems by (simp add: take_Suc_conv_app_nth)
    finally show ?thesis .
  qed
qed

lemma insort_place:
  "insort name ns = take (place name ns) ns @ name # drop (place name ns) ns"
proof (induction ns)
  case (Cons n ns)
  then show ?case by (cases "n < name") (auto simp: place_def)
qed (simp add: place_def)

lemma place_full: "place name ns = length ns \<longleftrightarrow> (\<forall>n \<in> set ns. n < name)"
  by (metis insort_place place_def takeWhile_eq_all_conv length_takeWhile_le le_neq_implies_less
      takeWhile_eq_take take_all_iff order.refl)

lemma file_entries:
  assumes "length ns < 64" "i \<le> length ns" "l = map Some ns @ replicate (64 - length ns) None"
  shows "(take (i + 1) l @ drop i (take (length ns) l) @ drop (length ns + 1) l)[i := Some name] =
    map Some (take i ns @ name # drop i ns) @ replicate (63 - length ns) None"
proof -
  have l: "length l = 64" "take (length ns) l = map Some ns" "take i l = map Some (take i ns)"
    "drop (length ns + 1) l = replicate (63 - length ns) None"
    using assms by (simp_all add: take_map)
  have "i < length l" using l(1) assms(1,2) by linarith
  then have "take (Suc i) l = take i l @ [l ! i]" by (rule take_Suc_conv_app_nth)
  with l(3) have "take (i + 1) l = map Some (take i ns) @ [l ! i]" by simp
  with assms l(2,4) show ?thesis by (simp add: list_update_append drop_map)
qed

section \<open>Looking a name up\<close>

definition found_in :: "u8 list list \<Rightarrow> u8 list \<Rightarrow> int \<Rightarrow> int \<Rightarrow> bool" where
  "found_in ns name lo hi \<longleftrightarrow> (\<exists>k < length ns. lo \<le> int k \<and> int k \<le> hi \<and> ns ! k = name)"

text \<open>Discarding one half of the range loses nothing in a sorted table.\<close>

lemma found_in_halves:
  assumes "sorted ns" "m < length ns"
  shows "ns ! m < name \<Longrightarrow> found_in ns name lo hi \<longleftrightarrow> found_in ns name (max lo (int m + 1)) hi"
    "name < ns ! m \<Longrightarrow> found_in ns name lo hi \<longleftrightarrow> found_in ns name lo (min hi (int m - 1))"
proof -
  have s: "ns ! a \<le> ns ! b" if "a \<le> b" "b < length ns" for a b
    using assms(1) that by (rule sorted_nth_mono)
  show "found_in ns name lo hi \<longleftrightarrow> found_in ns name (max lo (int m + 1)) hi" if "ns ! m < name"
  proof -
    have "m < k" if "k < length ns" "ns ! k = name" for k
      using s [of k m] that \<open>ns ! m < name\<close> assms(2) by (meson leI leD)
    then show ?thesis by (force simp: found_in_def)
  qed
  show "found_in ns name lo hi \<longleftrightarrow> found_in ns name lo (min hi (int m - 1))" if "name < ns ! m"
  proof -
    have "k < m" if "k < length ns" "ns ! k = name" for k
      using s [of m k] that \<open>name < ns ! m\<close> by (meson leI leD)
    then show ?thesis by (force simp: found_in_def)
  qed
qed

lemma search_flags_of:
  assumes "sorted ns" "0 \<le> lo" "hi < int (length ns)"
  shows "\<exists>r. search (flags_of ns) name lo hi = Ret r \<and> (case r of None \<Rightarrow> name \<in> set ns
    | Some (a, b) \<Rightarrow> lo \<le> a \<and> b \<le> hi \<and> b \<le> a \<and> (found_in ns name lo hi \<longleftrightarrow> found_in ns name a b))"
  using assms(2,3)
proof (induction "flags_of ns" name lo hi rule: search.induct)
  case (1 name lo hi)
  show ?case
  proof (cases "lo < hi")
    case True
    define m where "m = nat ((lo + hi) div 2)"
    have m: "(lo + hi) div 2 = int m" "lo \<le> int m" "int m < hi" "m < length ns"
      using True 1(3,4) by (auto simp: m_def)
    have c: "compare_at (flags_of ns) (int m) name = Ret (strcmp (ns ! m) name)"
      using m(4) by simp
    note run = search.simps [of "flags_of ns" name lo hi] True m(1) c
    consider "ns ! m < name" | "name < ns ! m" | "ns ! m = name" by fastforce
    then show ?thesis
    proof cases
      case 1
      then have "strcmp (ns ! m) name < 0" by (simp add: strcmp_order)
      moreover have "max lo (int m + 1) = int m + 1" using m(2) by simp
      moreover have e: "search (flags_of ns) name lo hi = search (flags_of ns) name (int m + 1) hi"
        using run calculation(1) by simp
      ultimately show ?thesis
        using "1.hyps"(1) [OF True refl, unfolded m(1), of "strcmp (ns ! m) name"] "1.prems" m(2-4)
          found_in_halves(1) [OF assms(1) m(4) 1, of lo hi]
        unfolding e by (auto split: option.splits prod.splits intro!: exI)
    next
      case 2
      then have "strcmp (ns ! m) name > 0" by (simp add: strcmp_order)
      moreover have "min hi (int m - 1) = int m - 1" using m(3) by simp
      moreover have e: "search (flags_of ns) name lo hi = search (flags_of ns) name lo (int m - 1)"
        using run calculation(1) by simp
      ultimately show ?thesis
        using "1.hyps"(2) [OF True refl, unfolded m(1), of "strcmp (ns ! m) name"] "1.prems" m(2-4)
          found_in_halves(2) [OF assms(1) m(4) 2, of lo hi]
        unfolding e by (auto split: option.splits prod.splits intro!: exI)
    next
      case 3
      then have "strcmp (ns ! m) name = 0" by (simp add: strcmp_order)
      with run have "search (flags_of ns) name lo hi = Ret None" by simp
      moreover have "name \<in> set ns" using m(4) 3 nth_mem by blast
      ultimately show ?thesis by simp
    qed
  next
    case False
    with 1 show ?thesis by (simp add: search.simps)
  qed
qed

section \<open>Properties\<close>

text \<open>
  C39: A name given to \<open>--debug\<close> is inserted at its place in the order of \<open>strcmp\<close>. In the full table
  a name above all others is dropped, any other is inserted and the last entry is written behind
  the end of the array.
\<close>

theorem debug_insertion:
  assumes "length ns \<le> 64"
  shows "add_debug_to name (flags_of ns) =
    (if length ns < 64 then Ret (flags_of (insort name ns))
     else if \<forall>n \<in> set ns. n < name then Ret (flags_of ns)
     else Undefined Out_of_bounds)"
proof -
  let ?p = "place name ns"
  have f: "find_place (flags_of ns) name 0 = Ret (int ?p)"
    using find_place_flags_of [OF assms, of 0] by simp
  show ?thesis
  proof (cases "length ns < 64")
    case True
    then have "move_up (int ?p) (int (length ns)) (flags_of ns) = Ret ((flags_of ns)\<lparr>debugged_files :=
        take (?p + 1) (debugged_files (flags_of ns)) @ drop ?p (take (length ns) (debugged_files (flags_of ns)))
        @ drop (length ns + 1) (debugged_files (flags_of ns))\<rparr>)"
      by (intro move_up_list) (simp_all add: place_le flags_of_def)
    with True f place_le [of name ns] file_entries [OF True place_le refl, of name]
    show ?thesis
      by (simp add: add_debug_to_def MAX_FILES_NUMBER_def put_file_def insort_place flags_of_def)
  next
    case False
    with assms have l: "length ns = 64" by simp
    show ?thesis
    proof (cases "\<forall>n \<in> set ns. n < name")
      case True
      with l f place_full [of name ns] show ?thesis
        by (simp add: add_debug_to_def MAX_FILES_NUMBER_def)
    next
      case n: False
      with l place_full [of name ns] place_le [of name ns] have "?p < 64" by simp
      with l f n show ?thesis
        by (simp add: add_debug_to_def MAX_FILES_NUMBER_def move_up.simps [of _ 64])
          (simp add: file_at_def put_file_def flags_of_def)
    qed
  qed
qed

theorem debug_insertion_witness:
  "add_debug_to [98] (flags_of [[97], [99]]) = Ret (flags_of [[97], [98], [99]])"
  using debug_insertion [of "[[97], [99]]" "[98]"] by simp

text \<open>
  The binary search ends and answers whether a file is one of the names given.
\<close>

theorem debug_lookup:
  assumes "sorted ns" "length ns \<le> 64"
  shows "is_debugged name (flags_of ns) = Ret (if name \<in> set ns then 1 else 0)"
proof -
  obtain r where r: "search (flags_of ns) name 0 (int (length ns) - 1) = Ret r"
    "case r of None \<Rightarrow> name \<in> set ns | Some (a, b) \<Rightarrow> 0 \<le> a \<and> b \<le> int (length ns) - 1 \<and> b \<le> a \<and>
      (found_in ns name 0 (int (length ns) - 1) \<longleftrightarrow> found_in ns name a b)"
    using search_flags_of [OF assms(1), of 0 "int (length ns) - 1" name] by auto
  have i: "name \<in> set ns \<longleftrightarrow> found_in ns name 0 (int (length ns) - 1)"
    by (auto simp: found_in_def in_set_conv_nth)
  show ?thesis
  proof (cases r)
    case (Some p)
    obtain a b where p: "p = (a, b)" by (cases p)
    show ?thesis
    proof (cases "a = b")
      case True
      with r(2) Some p have "0 \<le> b" "nat b < length ns" by auto
      then have "compare_at (flags_of ns) b name = Ret (strcmp (ns ! nat b) name)"
        "found_in ns name b b \<longleftrightarrow> ns ! nat b = name"
        using compare_flags_of [of "nat b" ns name] by (auto simp: found_in_def)
      with True r Some p i show ?thesis by (simp add: is_debugged_def strcmp_order)
    next
      case False
      with r Some p i show ?thesis by (auto simp: is_debugged_def found_in_def)
    qed
  qed (use r in \<open>simp add: is_debugged_def\<close>)
qed

theorem debug_lookup_witness:
  "is_debugged [98] (flags_of [[97], [98], [99]]) = Ret 1 \<and> is_debugged [98, 99] (flags_of [[97], [98], [99]]) = Ret 0"
  using debug_lookup [of "[[97], [98], [99]]"] by simp

section \<open>The macros\<close>

text \<open>
  \<open>is_debugged\<close> of \<open>debug.h\<close> with \<open>CACHE_DEBUG_FLAG\<close>: each file that uses it has two variables, and
  the operators \<open>&&\<close> and \<open>||\<close> evaluate their second operand only if they need it.
\<close>

record debug_cache =
  is_debugged_first :: int
  is_debugged_result :: int

definition debug_cache_init :: debug_cache where
  "debug_cache_init = \<lparr>is_debugged_first = 1, is_debugged_result = 0\<rparr>"

definition cached_is_debugged :: "u8 list \<Rightarrow> debug_flags \<Rightarrow> debug_cache \<Rightarrow> (int \<times> debug_cache) outcome" where
  "cached_is_debugged name f c =
     obind (if is_debugged_first c \<noteq> 0 then
         obind (is_debugged name f) (\<lambda>r. Ret (r, c\<lparr>is_debugged_first := 0, is_debugged_result := r\<rparr>))
       else Ret (0, c)) (\<lambda>(v, c).
     Ret (if v \<noteq> 0 \<or> is_debugged_result c \<noteq> 0 then 1 else 0, c))"

text \<open>
  \<open>__debug_raw_binary\<close> with the characters it prints; \<open>isprint\<close> is that of the C locale. A negative
  length counts down past every block.
\<close>

fun debug_raw_binary :: "u8 list \<Rightarrow> int \<Rightarrow> u8 list outcome" where
  "debug_raw_binary [] len = (if len = 0 then Ret [] else Undefined Out_of_bounds)"
| "debug_raw_binary (c # data) len =
     (if len = 0 then Ret []
      else obind (debug_raw_binary data (len - 1)) (\<lambda>out.
        Ret ((if 32 \<le> c \<and> c < 127 then c else of_char CHR ''.'') # out)))"

lemma is_debugged_bit: "is_debugged name f = Ret r \<Longrightarrow> r = 0 \<or> r = 1"
  by (auto simp: is_debugged_def obind_Ret_iff split: option.splits if_splits prod.splits)

text \<open>The answer to the first question of a file is the answer to all of them, whatever is inserted in between.\<close>

lemma cached_for_ever:
  assumes "is_debugged name f = Ret r"
  shows "\<exists>c. cached_is_debugged name f debug_cache_init = Ret (r, c) \<and> (\<forall>g other. cached_is_debugged other g c = Ret (r, c))"
  using is_debugged_bit [OF assms] assms by (auto simp: cached_is_debugged_def debug_cache_init_def)

lemma insertion_not_seen:
  assumes "sorted ns" "length ns \<le> 64" "name \<notin> set ns"
  shows "\<exists>c. cached_is_debugged name (flags_of ns) debug_cache_init = Ret (0, c) \<and>
    (\<forall>g. add_debug_to name (flags_of ns) = Ret g \<longrightarrow> cached_is_debugged name g c = Ret (0, c))"
  using cached_for_ever [of name "flags_of ns" 0] debug_lookup [OF assms(1,2), of name] assms(3) by auto

lemma printed_characters:
  "debug_raw_binary (s @ t) (int (length s)) = Ret (map (\<lambda>c. if 32 \<le> c \<and> c < 127 then c else of_char CHR ''.'') s)"
  by (induction s) (cases t, simp_all)

lemma printing_past_the_end: "len < 0 \<or> int (length s) < len \<Longrightarrow> debug_raw_binary s len = Undefined Out_of_bounds"
  by (induction s arbitrary: len) auto

end
