(* ===== verification/Simulator.thy ===== *)
theory Simulator
  imports Sessions Debug_Flags
begin

unbundle bit_operations_syntax

text \<open>
  \<open>arm_simulator.c\<close> and \<open>send_irq.c\<close>: the options of the main program, the machine it creates,
  and its two threads, one that serves the debugger and one that receives interrupts, whose
  actions on the machine alternate under the mutex. The mutex is modelled in \<open>Threads\<close>, the connections in
  \<open>Sockets\<close>; the messages and the creation of the threads are not.
\<close>

section \<open>Options\<close>

text \<open>
  What the options set: the ports of \<open>shared_data\<close>, the trace file (\<open>None\<close> for \<open>stdout\<close>) and the
  static data of the trace and debug modules.
\<close>

record settings =
  gdb_port :: u16
  irq_port :: u16
  trace_file :: "u8 list option"
  tracing :: trace_data
  debugging :: debug_flags

definition settings_init :: settings where
  "settings_init = \<lparr>gdb_port = 0, irq_port = 0, trace_file = None, tracing = trace_init,
     debugging = debug_flags_init\<rparr>"

text \<open>
  One turn of the loop: \<open>opt\<close> is the result of \<open>getopt_long\<close>, \<open>arg\<close> the string \<open>optarg\<close>
  without its terminator, and \<open>can_open\<close> says which files \<open>fopen\<close> can open for writing.
\<close>

definition set_option ::
  "(u8 list \<Rightarrow> bool) \<Rightarrow> char \<times> u8 list \<Rightarrow> settings \<Rightarrow> settings outcome" where
  "set_option can_open = (\<lambda>(opt, arg) st.
     if opt = CHR ''g'' then obind (atoi (arg @ [0])) (\<lambda>n. Ret (st\<lparr>gdb_port := of_int n\<rparr>))
     else if opt = CHR ''i'' then obind (atoi (arg @ [0])) (\<lambda>n. Ret (st\<lparr>irq_port := of_int n\<rparr>))
     else if opt = CHR ''h'' then Exit 0
     else if opt = CHR ''t'' then
       if can_open arg then Ret (st\<lparr>trace_file := Some arg\<rparr>) else Exit 1
     else if opt = CHR ''r'' then Ret (st\<lparr>tracing := trace_add REGISTERS (tracing st)\<rparr>)
     else if opt = CHR ''m'' then Ret (st\<lparr>tracing := trace_add MEMORY (tracing st)\<rparr>)
     else if opt = CHR ''s'' then Ret (st\<lparr>tracing := trace_add STATE (tracing st)\<rparr>)
     else if opt = CHR ''p'' then Ret (st\<lparr>tracing := trace_add POSITION (tracing st)\<rparr>)
     else if opt = CHR ''d'' then obind (add_debug_to arg (debugging st)) (\<lambda>f. Ret (st\<lparr>debugging := f\<rparr>))
     else Exit 1)"

primrec set_options ::
  "(u8 list \<Rightarrow> bool) \<Rightarrow> (char \<times> u8 list) list \<Rightarrow> settings \<Rightarrow> settings outcome" where
  "set_options can_open [] st = Ret st"
| "set_options can_open (o1 # os) st = obind (set_option can_open o1 st) (set_options can_open os)"

section \<open>The machine\<close>

text \<open>
  What \<open>main\<close> creates after the options: a memory of 128 KB in the byte order the simulator is
  built for, and the processor. The other parameters are what the allocated blocks hold.
\<close>

definition create_machine :: "u8 list \<Rightarrow> u32 \<Rightarrow> u32 list \<Rightarrow> settings \<Rightarrow> host \<Rightarrow> machine outcome" where
  "create_machine block cycles garbage st h =
     arm_create cycles garbage
       (memory_create block 0x20000 (if big_endian_simulator h then 1 else 0)) (tracing st) h"

definition simulator_main :: "(u8 list \<Rightarrow> bool) \<Rightarrow> (char \<times> u8 list) list \<Rightarrow> u8 list \<Rightarrow> u32 \<Rightarrow> u32 list \<Rightarrow>
    host \<Rightarrow> (settings \<times> machine) outcome" where
  "simulator_main can_open options block cycles garbage h =
     obind (set_options can_open options settings_init) (\<lambda>st.
     obind (create_machine block cycles garbage st h) (\<lambda>m. Ret (st, m)))"

section \<open>The threads\<close>

text \<open>
  The machine the threads share is the state of the server. A thread's action on it is one
  token of the debugger's stream, or one byte of the interrupt connection; the mutex lets no
  action begin within another, so that a run is a sequence of whole actions. A
  configuration is what is left of the two streams, with the state.
\<close>

definition irq_received :: "u8 \<Rightarrow> ('z, unit) lexer" where
  "irq_received irq = arm_exception irq"

type_synonym config = "u8 list \<times> u8 list \<times> parser"

inductive sim_step :: "nat \<Rightarrow> host \<Rightarrow> config \<Rightarrow> config \<Rightarrow> bool" for fuel h where
  gdb_token: "input \<noteq> [] \<Longrightarrow> yy_token input = Some (act, k) \<Longrightarrow>
     yy_action (gdb_init fuel) act (take k input) h p = Ret ((), p') \<Longrightarrow>
     sim_step fuel h (input, irqs, p) (drop k input, irqs, p')"
| irq_byte: "irq_received irq h p = Ret ((), p') \<Longrightarrow>
     sim_step fuel h (input, irq # irqs, p) (input, irqs, p')"

abbreviation sim_steps :: "nat \<Rightarrow> host \<Rightarrow> config \<Rightarrow> config \<Rightarrow> bool" where
  "sim_steps fuel h \<equiv> (sim_step fuel h)\<^sup>*\<^sup>*"

inductive_cases sim_step_cases: "sim_step fuel h (input, irqs, p) c"

inductive_simps sim_step_end: "sim_step fuel h ([], [], p) c"

text \<open>The state of the server on a machine, before the first character.\<close>

definition connected :: "u8 list \<Rightarrow> u8 list \<Rightarrow> machine \<Rightarrow> parser" where
  "connected block error_block m =
     gdb.extend (gdb_init_data block m) (parser.fields (take (nat MAX_ERROR_SIZE) error_block) 0)"

lemma gdb_scanner_connected:
  "gdb_scanner handler True block error_block input h m =
     yylex handler input h (connected block error_block m)"
  by (simp add: gdb_scanner_def connected_def)

section \<open>The sender of interrupts\<close>

lemma obind_cong [fundef_cong]:
  "m = m' \<Longrightarrow> (\<And>v. m' = Ret v \<Longrightarrow> f v = g v) \<Longrightarrow> obind m f = obind m' g"
  by (cases m') auto

text \<open>The search for the name of an interrupt, from \<open>irq\<close> on up to the first null pointer.\<close>

function find_irq :: "string \<Rightarrow> u8 \<Rightarrow> u8 outcome" where
  "find_irq name irq = obind (arm_get_exception_name irq) (\<lambda>irq_name.
     case irq_name of None \<Rightarrow> Exit 2
     | Some s \<Rightarrow> if s \<noteq> name then find_irq name (irq + 1) else Ret irq)"
  by pat_completeness auto

termination
proof (relation "measure (\<lambda>(name, irq). 8 - unat irq)", simp)
  fix name s t :: string and irq :: u8 and n
  assume "arm_get_exception_name irq = Ret n" "n = Some s" 
  then have "irq < 8" by (simp add: arm_get_exception_name_def split: if_splits)
  then have "unat irq < 8" by (simp add: word_less_nat_alt)
  then have "unat (irq + 1) = unat irq + 1" by (simp add: unat_word_ariths)
  then show "((name, irq + 1), name, irq) \<in> measure (\<lambda>(name, irq). 8 - unat irq)"
    using \<open>unat irq < 8\<close> by simp
qed

text \<open>What \<open>main\<close> sends: its arguments with the name of the program are \<open>argv\<close>.\<close>

definition send_irq :: "string list \<Rightarrow> u8 outcome" where
  "send_irq argv =
     (if length argv < 3 then Exit 1
      else if length argv < 4 then Ret INTERRUPT
      else find_irq (argv ! 3) RESET)"

declare find_irq.simps [simp del]

section \<open>The state of a session\<close>

lemma created:
  assumes "length garbage = 37" "wf_trace (tracing st)" "length block = 0x20000"
    "create_machine block cycles garbage st h = Ret m"
  shows "sim_inv 0x20000 (if big_endian_simulator h then 1 else 0) m"
    "cpsr m = 0x1D3" "regs (reg m) ! 15 = 0" "cycle_count m = 0"
proof -
  let ?b = "if big_endian_simulator h then 1 else 0 :: int"
  from assms(4) obtain s where s: "arm_create cycles garbage (memory_create block 0x20000 ?b) (tracing st) h = Ret s"
    "m = s" by (auto simp: create_machine_def)
  with reset_state [OF assms(1,2), of cycles "memory_create block 0x20000 ?b" h]
  have m: "cpsr m = 0x1D3" "regs (reg m) ! 15 = 0" "cycle_count m = 0" "user_state m"
    "mem m = memory_create block 0x20000 ?b" by auto
  from m show "cpsr m = 0x1D3" "regs (reg m) ! 15 = 0" "cycle_count m = 0" by simp_all
  from m assms(3) show "sim_inv 0x20000 ?b m"
    by (simp add: sim_inv_def memory_create_def wf_memory_def)
qed

lemma connected_inv:
  assumes "sim_inv n b m" "length block = 1024" "length error_block = 1024"
  shows "session_inv n b (connected block error_block m)"
  using assms
  by (simp add: session_inv_def server_inv_def wf_parser_def connected_def gdb_init_data_def
      machine.defs gdb.defs parser.defs sim_inv_def user_state_def MAX_PACKET_SIZE_def MAX_ERROR_SIZE_def)

lemma set_option_trace:
  "set_option can_open o1 st = Ret st' \<Longrightarrow> wf_trace (tracing st) \<Longrightarrow> wf_trace (tracing st')"
  by (auto simp: set_option_def obind_Ret_iff trace_add_def split: if_splits prod.splits)

lemma set_options_trace:
  "set_options can_open os st = Ret st' \<Longrightarrow> wf_trace (tracing st) \<Longrightarrow> wf_trace (tracing st')"
  by (induction os arbitrary: st) (auto simp: obind_Ret_iff dest: set_option_trace)

lemma sim_step_inv:
  assumes "sim_step fuel h c d" "session_inv n b (snd (snd c))"
  shows "session_inv n b (snd (snd d))"
  using assms
  by (cases rule: sim_step.cases) (auto simp: irq_received_def
      dest: preservesD [OF preserves_yy_action] preservesD [OF session.preserves_arm_exception])

lemma sim_steps_inv:
  assumes "sim_steps fuel h c d" "session_inv n b (snd (snd c))"
  shows "session_inv n b (snd (snd d))"
  using assms by (induction rule: rtranclp_induct) (auto dest: sim_step_inv)

section \<open>The steps of the two threads\<close>

lemma irq_other: "irq \<noteq> RESET \<Longrightarrow> irq_received irq h p = Ret (u, p') \<longleftrightarrow> p' = p"
  by (auto simp: irq_received_def arm_exception_def mwhen_def ret_def)

lemma yylex_step:
  assumes "input \<noteq> []" "yy_token input = Some (act, k)"
  shows "yylex handler input = mseq (yy_action handler act (take k input)) (yylex handler (drop k input))"
proof -
  from assms obtain c cs where "input = c # cs" by (cases input) auto
  with assms show ?thesis by (simp add: yylex.simps)
qed

lemma sim_step_token:
  assumes "input \<noteq> []" "yy_token input = Some (act, k)"
  shows "sim_step fuel h (input, [], p) c \<longleftrightarrow>
    (\<exists>p'. yy_action (gdb_init fuel) act (take k input) h p = Ret ((), p') \<and> c = (drop k input, [], p'))"
  using assms by (auto elim: sim_step_cases intro: gdb_token)

lemma token_length: "input \<noteq> [] \<Longrightarrow> yy_token input = Some (act, k) \<Longrightarrow> 0 < k"
  by (cases input) (auto simp: yy_token_rule dest: rule_token_length)

text \<open>The thread of the debugger alone: its steps are the loop over the tokens.\<close>

lemma yylex_steps:
  "yylex (gdb_init fuel) input h p = Ret ((), p') \<longleftrightarrow>
     (\<exists>q. sim_steps fuel h (input, [], p) ([], [], q) \<and> handle_error h q = Ret ((), p'))"
proof (induction "length input" arbitrary: input p rule: less_induct)
  case less
  show ?case
  proof (cases "input = []")
    case True
    have "sim_steps fuel h ([], [], p) c \<longleftrightarrow> c = ([], [], p)" for c
      by (auto elim: converse_rtranclpE simp: sim_step_end)
    with True show ?thesis by simp
  next
    case False
    then obtain c cs where i: "input = c # cs" by (cases input) auto
    obtain act k where t: "yy_token input = Some (act, k)" using i by (metis yy_token_rule surj_pair)
    have l: "length (drop k input) < length input" using token_length [OF False t] i by simp
    have s: "sim_steps fuel h (input, [], p) ([], [], q) \<longleftrightarrow>
        (\<exists>d. sim_step fuel h (input, [], p) d \<and> sim_steps fuel h d ([], [], q))" for q
      using False by (metis (no_types, lifting) converse_rtranclpE converse_rtranclp_into_rtranclp Pair_inject)
    show ?thesis
      unfolding yylex_step [OF False t] s
      by (cases "yy_action (gdb_init fuel) act (take k input) h p")
        (auto simp: mbind_def less.hyps [OF l] sim_step_token [OF False t])
  qed
qed

text \<open>Without the interrupts that have no effect the debugger's thread takes the same steps.\<close>

lemma steps_without_interrupts:
  assumes "sim_steps fuel h (input, irqs, p) (input', irqs', p')" "RESET \<notin> set irqs"
  shows "sim_steps fuel h (input, [], p) (input', [], p') \<and> set irqs' \<subseteq> set irqs"
  using assms
proof (induction "(input, irqs, p)" arbitrary: input irqs p rule: converse_rtranclp_induct)
  case (step d)
  obtain i q r where d: "d = (i, q, r)" by (cases d)
  from step.hyps(1) [unfolded d] show ?case
  proof (cases rule: sim_step.cases)
    case (gdb_token act k)
    then have "sim_step fuel h (input, [], p) (i, [], r)" by (auto intro: sim_step.gdb_token)
    with step.hyps(3) [OF d] step.prems gdb_token show ?thesis
      by (auto intro: converse_rtranclp_into_rtranclp)
  next
    case (irq_byte irq)
    with step.prems have "irq \<noteq> RESET" by auto
    with irq_byte step.hyps(3) [OF d] step.prems show ?thesis by (auto simp: irq_other)
  qed
qed simp

section \<open>The names of interrupts\<close>

lemma exception_names:
  "arm_get_exception_name 0 = Ret None"
  "arm_get_exception_name 1 = Ret (Some ''reset'')"
  "arm_get_exception_name 2 = Ret (Some ''undefined instruction'')"
  "arm_get_exception_name 3 = Ret (Some ''software interrupt'')"
  "arm_get_exception_name 4 = Ret (Some ''prefetch abort'')"
  "arm_get_exception_name 5 = Ret (Some ''data abort'')"
  "arm_get_exception_name 6 = Ret (Some ''interrupt'')"
  "arm_get_exception_name 7 = Ret (Some ''fast interrupt'')"
  "arm_get_exception_name 8 = Ret None"
  by (simp_all add: arm_get_exception_name_def table_at_def arm_exception_names_def)

lemma find_irq_next:
  "arm_get_exception_name i = Ret (Some s) \<Longrightarrow>
     find_irq name i = (if name = s then Ret i else find_irq name (i + 1))"
  "arm_get_exception_name i = Ret None \<Longrightarrow> find_irq name i = Exit 2"
  by (simp_all add: find_irq.simps [of name i])

lemmas find_irq_names = exception_names(2-8) [THEN find_irq_next(1)] exception_names(9) [THEN find_irq_next(2)]

lemma irq_cases: "i < 8 \<Longrightarrow> i = 0 \<or> i = 1 \<or> i = 2 \<or> i = 3 \<or> i = 4 \<or> i = 5 \<or> i = 6 \<or> i = (7 :: u8)"
  by (simp add: word_unat_eq_iff word_less_nat_alt) presburger

lemma find_irq_iff: "find_irq name RESET = Ret i \<longleftrightarrow> arm_get_exception_name i = Ret (Some name)"
proof
  show "arm_get_exception_name i = Ret (Some name)" if "find_irq name RESET = Ret i"
    using that by (auto simp: find_irq_names exception_names split: if_splits)
  assume n: "arm_get_exception_name i = Ret (Some name)"
  then have "i < 8" by (simp add: arm_get_exception_name_def split: if_splits)
  from irq_cases [OF this] show "find_irq name RESET = Ret i"
    by (elim disjE; hypsubst; insert n; simp add: exception_names; hypsubst; simp add: find_irq_names)
qed

lemma find_irq_outcome: "(\<exists>i. find_irq name RESET = Ret i) \<or> find_irq name RESET = Exit 2"
  by (simp add: find_irq_names)

section \<open>Properties\<close>

text \<open>
  C5: Whatever the options, the stream of the debugger, the interrupts and the order in which they
  arrive: in every state the simulator reaches the invariant of the session holds, with the
  128 KB of memory and the byte order it was created with.
\<close>

theorem reachable_invariant:
  assumes "simulator_main can_open options mblock cycles garbage h = Ret (st, m)"
    and "length mblock = 0x20000" "length garbage = 37" "length block = 1024" "length error_block = 1024"
    and "sim_steps fuel h (input, irqs, connected block error_block m) (input', irqs', p')"
  shows "session_inv 0x20000 (if big_endian_simulator h then 1 else 0) p'"
proof -
  let ?inv = "session_inv 0x20000 (if big_endian_simulator h then 1 else 0)"
  from assms(1) have st: "set_options can_open options settings_init = Ret st"
    and m: "create_machine mblock cycles garbage st h = Ret m"
    by (auto simp: simulator_main_def obind_Ret_iff)
  have "wf_trace (tracing st)"
    using set_options_trace [OF st] by (simp add: settings_init_def wf_trace_init)
  from created(1) [OF assms(3) this assms(2) m]
  have "?inv (connected block error_block m)" using assms(4,5) by (rule connected_inv)
  with sim_steps_inv [OF assms(6)] show ?thesis by simp
qed

lemma sample_main:
  assumes "length mblock = 0x20000" "length garbage = 37"
  shows "\<exists>m. simulator_main can_open [] mblock cycles garbage h = Ret (settings_init, m)"
proof -
  have "wf_trace (tracing settings_init)" by (simp add: settings_init_def wf_trace_init)
  from reset_state [OF assms(2) this] obtain s where
    "create_machine mblock cycles garbage settings_init h = Ret s"
    unfolding create_machine_def by blast
  then show ?thesis by (simp add: simulator_main_def)
qed

theorem reachable_invariant_witness:
  "\<exists>mblock m p. simulator_main (\<lambda>_. True) [] mblock 0 (replicate 37 0) x86_host = Ret (settings_init, m) \<and>
     sim_step 0 x86_host ([], [INTERRUPT], connected (replicate 1024 0) (replicate 1024 0) m) ([], [], p) \<and>
     session_inv 0x20000 1 p"
proof -
  obtain mblock :: "u8 list" where l: "length mblock = 0x20000" using Ex_list_of_length by blast
  obtain m where m: "simulator_main (\<lambda>_. True) [] mblock 0 (replicate 37 0) x86_host = Ret (settings_init, m)"
    using sample_main [OF l length_replicate] by blast
  let ?p = "connected (replicate 1024 0) (replicate 1024 0) m"
  have s: "sim_step 0 x86_host ([], [INTERRUPT], ?p) ([], [], ?p)"
    by (rule irq_byte) (simp add: irq_other)
  with m reachable_invariant [OF m l _ _ _ r_into_rtranclp [of "sim_step 0 x86_host", OF s]]
  show ?thesis by (auto simp: x86_host_def)
qed

text \<open>
  Interrupts other than a reset have no effect: a run with them, whatever the interleaving with
  the requests of the debugger, passes through the same states as the run without them.
\<close>

theorem interrupts_ignored:
  assumes "sim_steps fuel h (input, irqs, p) (input', irqs', p')" "RESET \<notin> set irqs"
  shows "sim_steps fuel h (input, [], p) (input', [], p')"
  using steps_without_interrupts [OF assms] ..

lemma sample_run:
  "sim_step 0 x86_host (bytes ''+'', [], sample_parser []) ([], [], sample_parser [])"
proof -
  have "yy_token (bytes ''+'') = Some (1, 1)" by (simp add: yy_token_rule rule_token_def)
  moreover have "wp handle_error x86_host (\<lambda>_ p. p = sample_parser []) (sample_parser [])"
    by (simp add: wp_handle_error reported_def)
  ultimately show ?thesis
    using gdb_token [of "bytes ''+''" 1 1 0 x86_host "sample_parser []" "sample_parser []" "[]"]
    by (simp add: yy_action_def wp_iff)
qed

theorem interrupts_ignored_witness:
  "sim_steps 0 x86_host (bytes ''+'', [INTERRUPT], sample_parser []) ([], [], sample_parser []) \<and>
   sim_steps 0 x86_host (bytes ''+'', [], sample_parser []) ([], [], sample_parser [])"
proof -
  have "sim_step 0 x86_host (bytes ''+'', [INTERRUPT], sample_parser []) (bytes ''+'', [], sample_parser [])"
    by (rule irq_byte) (simp add: irq_other)
  with sample_run have r: "sim_steps 0 x86_host (bytes ''+'', [INTERRUPT], sample_parser []) ([], [], sample_parser [])"
    by (meson converse_rtranclp_into_rtranclp r_into_rtranclp)
  with interrupts_ignored [OF r] show ?thesis by simp
qed

text \<open>
  Every run of the two threads ends: it has at most as many steps as characters and
  interrupts arrive.
\<close>

theorem runs_end:
  assumes "(sim_step fuel h ^^ n) (input, irqs, p) (input', irqs', p')"
  shows "n + length input' + length irqs' \<le> length input + length irqs"
  using assms
proof (induction n arbitrary: input irqs p)
  case (Suc n)
  obtain e where "sim_step fuel h (input, irqs, p) e" "(sim_step fuel h ^^ n) e (input', irqs', p')"
    by (rule relpowp_Suc_E2 [OF Suc.prems]) 
  then obtain i q r where d: "sim_step fuel h (input, irqs, p) (i, q, r)"
    "(sim_step fuel h ^^ n) (i, q, r) (input', irqs', p')" by (cases e) auto
  have "length i + length q < length input + length irqs"
    using d(1) by (cases rule: sim_step.cases) (auto dest: token_length intro!: diff_less)
  with Suc.IH [OF d(2)] show ?case by simp
qed simp

theorem runs_end_witness:
  "(sim_step 0 x86_host ^^ 1) (bytes ''+'', [], sample_parser []) ([], [], sample_parser []) \<and>
   (1 :: nat) \<le> length (bytes ''+'')"
  using runs_end [of 1 0 x86_host "bytes ''+''" "[]" "sample_parser []" "[]" "[]" "sample_parser []"] sample_run
  by (simp add: eq_OO)

text \<open>
  The loop of the scanner refines the step relation: it returns exactly when the steps of the
  debugger's thread alone consume the stream, and in the state they reach.
\<close>

theorem scanner_refines_steps:
  assumes "gdb_scanner (gdb_init fuel) True block error_block input h m = Ret ((), p')"
  shows "\<exists>q. sim_steps fuel h (input, [], connected block error_block m) ([], [], q) \<and>
    handle_error h q = Ret ((), p')"
  using assms unfolding gdb_scanner_connected yylex_steps .

theorem scanner_refines_steps_witness:
  "\<exists>q. sim_steps 0 x86_host (bytes ''+'', [], connected (replicate 1024 0) (replicate 1024 0) (loaded [] []))
       ([], [], q) \<and>
     handle_error x86_host q = Ret ((), connected (replicate 1024 0) (replicate 1024 0) (loaded [] []))"
proof -
  let ?p = "connected (replicate 1024 0) (replicate 1024 0) (loaded [] [])"
  have c: "?p = sample_parser []"
    by (simp add: connected_def sample_parser_def sample_server_def MAX_ERROR_SIZE_def)
  have e: "handle_error x86_host ?p = Ret ((), ?p)"
    using wp_handle_error [of "sample_parser []" x86_host "\<lambda>_ p. p = sample_parser []"]
    by (auto simp: c reported_def wp_iff)
  have "yylex (gdb_init 0) (bytes ''+'') x86_host ?p = Ret ((), ?p)"
    by (simp add: yylex_ack [of _ "[]", simplified] mbind_def e)
  then have "gdb_scanner (gdb_init 0) True (replicate 1024 0) (replicate 1024 0) (bytes ''+'') x86_host
      (loaded [] []) = Ret ((), ?p)" by (simp only: gdb_scanner_connected)
  then show ?thesis by (rule scanner_refines_steps)
qed

text \<open>
  The program that sends interrupts finds the number of every name of the simulator's table
  and no other; without a name it sends an interrupt.
\<close>

theorem irq_names:
  "(send_irq [prog, hst, port, name] = Ret i \<longleftrightarrow> arm_get_exception_name i = Ret (Some name)) \<and>
   (send_irq [prog, hst, port, name] = Exit 2 \<longleftrightarrow> (\<forall>i. arm_get_exception_name i \<noteq> Ret (Some name))) \<and>
   send_irq [prog, hst, port] = Ret INTERRUPT"
  using find_irq_outcome [of name] by (auto simp: send_irq_def simp flip: find_irq_iff)

end
