(* ===== verification/Memory_Test.thy ===== *)
theory Memory_Test
  imports Memory
begin

unbundle bit_operations_syntax

text \<open>
  \<open>memory_test.c\<close>: the program that tests the memory. Its output is the list of the results
  it prints, in their order; objects of the host are lists of octets, in the host's byte order.
\<close>

section \<open>Comparisons\<close>

definition octet_of :: "u8 list \<Rightarrow> int \<Rightarrow> u8 outcome" where
  "octet_of bs j = (if 0 \<le> j \<and> nat j < length bs then Ret (bs ! nat j) else Undefined Out_of_bounds)"

definition local_value :: "'a option \<Rightarrow> 'a outcome" where
  "local_value v = (case v of Some x \<Rightarrow> Ret x | None \<Rightarrow> Undefined Uninitialised)"

text \<open>The loops with \<open>n\<close> turns left.\<close>

primrec compare_from :: "nat \<Rightarrow> int \<Rightarrow> int \<Rightarrow> int \<Rightarrow> u8 list \<Rightarrow> u8 list \<Rightarrow> int outcome" where
  "compare_from 0 i j j_step a b = Ret 1"
| "compare_from (Suc n) i j j_step a b =
     obind (octet_of a i) (\<lambda>x. obind (octet_of b j) (\<lambda>y.
     if x \<noteq> y then Ret 0 else compare_from n (i + 1) (j + j_step) j_step a b))"

definition compare :: "u8 list \<Rightarrow> u8 list \<Rightarrow> nat \<Rightarrow> int \<Rightarrow> int outcome" where
  "compare a b sz reverse =
     (let (j, j_step) = (if reverse \<noteq> 0 then (int sz - 1, -1) else (0, 1))
      in compare_from sz 0 j j_step a b)"

primrec compare_sim_from ::
  "nat \<Rightarrow> int \<Rightarrow> int \<Rightarrow> int \<Rightarrow> u8 list \<Rightarrow> memory \<Rightarrow> u8 option \<Rightarrow> int outcome" where
  "compare_sim_from 0 i j j_step a m value = Ret 1"
| "compare_sim_from (Suc n) i j j_step a m value =
     obind (memory_read_byte m (of_int j) value) (\<lambda>(_, value).
     obind (octet_of a i) (\<lambda>x. obind (local_value value) (\<lambda>v.
     if x \<noteq> v then Ret 0 else compare_sim_from n (i + 1) (j + j_step) j_step a m value)))"

definition compare_with_sim :: "u8 list \<Rightarrow> memory \<Rightarrow> nat \<Rightarrow> int \<Rightarrow> int outcome" where
  "compare_with_sim a m sz reverse =
     (let (j, j_step) = (if reverse \<noteq> 0 then (int sz - 1, -1) else (0, 1))
      in compare_sim_from sz 0 j j_step a m None)"

section \<open>The tests\<close>

text \<open>The first loop: the octets of the word, at the same addresses of both memories.\<close>

primrec write_both :: "nat list \<Rightarrow> u8 list \<Rightarrow> memory \<Rightarrow> memory \<Rightarrow> (memory \<times> memory) outcome" where
  "write_both [] position m0 m1 = Ret (m0, m1)"
| "write_both (i # is) position m0 m1 =
     obind (octet_of position (int i)) (\<lambda>x.
     obind (memory_write_byte m0 (of_nat i) x) (\<lambda>(_, m0).
     obind (memory_write_byte m1 (of_nat i) x) (\<lambda>(_, m1). write_both is position m0 m1)))"

text \<open>
  The reads: \<open>m\<close> is the memory with the host's byte order, \<open>m'\<close> the other one.
\<close>

definition read_tests :: "int \<Rightarrow> u32 \<Rightarrow> memory \<Rightarrow> memory \<Rightarrow> int list outcome" where
  "read_tests host word_value m m' =
     obind (memory_read_word m 0 None) (\<lambda>(_, word_read).
     obind (local_value word_read) (\<lambda>w.
     obind (compare (word_octets host word_value) (word_octets host w) 4 0) (\<lambda>r1.
     obind (memory_read_half m 0 None) (\<lambda>(_, half_read).
     obind (local_value half_read) (\<lambda>hw.
     obind (compare (word_octets host word_value) (half_octets host hw) 2 0) (\<lambda>r2.
     obind (memory_read_word m' 0 word_read) (\<lambda>(_, word_read).
     obind (local_value word_read) (\<lambda>w.
     obind (compare (word_octets host word_value) (word_octets host w) 4 1) (\<lambda>r3.
     obind (memory_read_half m' 0 half_read) (\<lambda>(_, half_read).
     obind (local_value half_read) (\<lambda>hw.
     obind (compare (word_octets host word_value) (half_octets host hw) 2 1) (\<lambda>r4.
     Ret [r1, r2, r3, r4]))))))))))))"

definition write_tests :: "int \<Rightarrow> u32 \<Rightarrow> u16 \<Rightarrow> memory \<Rightarrow> memory \<Rightarrow> int list outcome" where
  "write_tests host word_value half_value m m' =
     obind (memory_write_word m 0 word_value) (\<lambda>(_, m).
     obind (compare_with_sim (word_octets host word_value) m 4 0) (\<lambda>r1.
     obind (memory_write_half m 0 half_value) (\<lambda>(_, m).
     obind (compare_with_sim (half_octets host half_value) m 2 0) (\<lambda>r2.
     obind (memory_write_word m' 0 word_value) (\<lambda>(_, m').
     obind (compare_with_sim (word_octets host word_value) m' 4 1) (\<lambda>r3.
     obind (memory_write_half m' 0 half_value) (\<lambda>(_, m').
     obind (compare_with_sim (half_octets host half_value) m' 2 1) (\<lambda>r4.
     Ret [r1, r2, r3, r4]))))))))"

definition memory_test :: "u8 list \<Rightarrow> u8 list \<Rightarrow> host \<Rightarrow> int list outcome" where
  "memory_test block0 block1 h =
     (let m1 = memory_create block1 4 1; m0 = memory_create block0 4 0;
          host = (if host_big_endian h then 1 else 0);
          word_value = 0x11223344; half_value = 0x5566 in
      obind (write_both [0, 1, 2, 3] (word_octets host word_value) m0 m1) (\<lambda>(m0, m1).
      let (m, m') = (if host \<noteq> 0 then (m1, m0) else (m0, m1)) in
      obind (read_tests host word_value m m') (\<lambda>rs.
      obind (write_tests host word_value half_value m m') (\<lambda>ws.
      Ret (rs @ ws)))))"

section \<open>Properties\<close>

lemma list_of_4: "length xs = 4 \<Longrightarrow> \<exists>a b c d. xs = [a, b, c, d]"
  by (auto simp: eval_nat_numeral length_Suc_conv)

lemma compare_from_numeral:
  "compare_from (numeral k) i j j_step a b =
     obind (octet_of a i) (\<lambda>x. obind (octet_of b j) (\<lambda>y.
     if x \<noteq> y then Ret 0 else compare_from (pred_numeral k) (i + 1) (j + j_step) j_step a b))"
  "compare_sim_from (numeral k) i j j_step a m value =
     obind (memory_read_byte m (of_int j) value) (\<lambda>(_, value).
     obind (octet_of a i) (\<lambda>x. obind (local_value value) (\<lambda>v.
     if x \<noteq> v then Ret 0 else compare_sim_from (pred_numeral k) (i + 1) (j + j_step) j_step a m value)))"
  by (simp_all add: numeral_eq_Suc)

lemma list_update_numeral: "(x # xs)[numeral k := y] = x # xs[pred_numeral k := y]"
  by (simp add: numeral_eq_Suc)

lemma tested_values:
  "word_octets 1 0x11223344 = [0x11, 0x22, 0x33, 0x44]" "half_octets 1 0x5566 = [0x55, 0x66]"
  "word_octets 0 0x11223344 = [0x44, 0x33, 0x22, 0x11]" "half_octets 0 0x5566 = [0x66, 0x55]"
  "word_octets 1 0x44332211 = [0x44, 0x33, 0x22, 0x11]" "half_octets 1 0x1122 = [0x11, 0x22]"
  "word_octets 0 0x44332211 = [0x11, 0x22, 0x33, 0x44]" "half_octets 0 0x1122 = [0x22, 0x11]"
  "half_octets 1 0x3344 = [0x33, 0x44]" "half_octets 0 0x3344 = [0x44, 0x33]"
  "half_octets 1 0x4433 = [0x44, 0x33]" "half_octets 0 0x4433 = [0x33, 0x44]"
  "half_octets 1 0x2211 = [0x22, 0x11]" "half_octets 0 0x2211 = [0x11, 0x22]"
  by (simp_all add: word_octets_def half_octets_def)

lemmas test_eval = memory_create_def access_test_def put_octet_def octet_def octet_of_def
  local_value_def tested_values compare_from_numeral list_update_numeral

text \<open>The memories of both orders once the octets \<open>bs\<close> are written, and the two groups of tests.\<close>

lemma write_both_result:
  assumes "length b0 = 4" "length b1 = 4" "length bs = 4"
  shows "write_both [0, 1, 2, 3] bs (memory_create b0 4 0) (memory_create b1 4 1) =
    Ret (memory_create bs 4 0, memory_create bs 4 1)"
  using list_of_4 [OF assms(1)] list_of_4 [OF assms(2)] list_of_4 [OF assms(3)]
  by (auto simp: test_eval memory_write_byte_def)

lemma read_tests_result:
  "read_tests 1 0x11223344 (memory_create [0x11, 0x22, 0x33, 0x44] 4 1)
     (memory_create [0x11, 0x22, 0x33, 0x44] 4 0) = Ret [1, 1, 1, 1]"
  "read_tests 0 0x11223344 (memory_create [0x44, 0x33, 0x22, 0x11] 4 0)
     (memory_create [0x44, 0x33, 0x22, 0x11] 4 1) = Ret [1, 1, 1, 1]"
  by (simp_all add: read_tests_def memory_read_word_def memory_read_half_def compare_def test_eval)

lemma write_tests_result:
  assumes "length bs = 4"
  shows "write_tests 1 0x11223344 0x5566 (memory_create bs 4 1) (memory_create bs 4 0) = Ret [1, 1, 1, 1]"
    "write_tests 0 0x11223344 0x5566 (memory_create bs 4 0) (memory_create bs 4 1) = Ret [1, 1, 1, 1]"
  using list_of_4 [OF assms]
  by (auto simp: write_tests_def memory_write_word_def memory_write_half_def compare_with_sim_def
      memory_read_byte_def test_eval)

text \<open>
  All eight tests of the memory succeed, on hosts of either byte order and whatever the
  allocated blocks hold.
\<close>

theorem memory_tests_succeed:
  assumes "length block0 = 4" "length block1 = 4"
  shows "memory_test block0 block1 h = Ret (replicate 8 1)"
proof -
  have w: "write_both [0, 1, 2, 3] bs (memory_create block0 4 0) (memory_create block1 4 1) =
      Ret (memory_create bs 4 0, memory_create bs 4 1)" if "length bs = 4" for bs
    using write_both_result [OF assms that] .
  have "memory_test block0 block1 h = Ret [1, 1, 1, 1, 1, 1, 1, 1]"
    by (cases "host_big_endian h") (simp_all add: memory_test_def tested_values w
      read_tests_result write_tests_result del: write_both.simps One_nat_def)
  then show ?thesis by (simp add: numeral_eq_Suc)
qed

theorem memory_tests_succeed_witness:
  "memory_test [0, 0, 0, 0] [9, 9, 9, 9] x86_host = Ret (replicate 8 1)"
  using memory_tests_succeed [of "[0, 0, 0, 0]" "[9, 9, 9, 9]" x86_host] by simp

end
