(* ===== verification/Scan_Buffer.thy ===== *)
theory Scan_Buffer
  imports Sessions
begin

unbundle bit_operations_syntax

text \<open>
  The buffer of the generated scanner: the part of \<open>yylex\<close> that runs over it and the functions that
  create, fill, move and restart it. Pointers into the buffer are positions in its list of characters.
  The connection is the list of what the calls of \<open>read\<close> find; allocated memory holds what a
  function of the position gives. Line, column and beginning-of-line fields, which nothing reads,
  are left out, and so are failures of the allocation; \<open>Buffer_Stack\<close> and \<open>Buffer_Heap\<close> have both.
\<close>

section \<open>The connection\<close>

text \<open>
  What a call of \<open>read\<close> finds: some characters, of which it takes as many as it is asked for, an
  interruption by a signal or a failure. Behind the last result it finds the end of the file.
\<close>

datatype read_result = Chunk "u8 list" | Interruption | Failure

fun yy_input :: "nat \<Rightarrow> read_result list \<Rightarrow> (u8 list \<times> read_result list) outcome" where
  "yy_input n [] = Ret ([], [])"
| "yy_input n (Chunk s # k) = Ret (take n s, if n < length s then Chunk (drop n s) # k else k)"
| "yy_input n (Interruption # k) = yy_input n k"
| "yy_input n (Failure # k) = Exit 2"

section \<open>The state\<close>

text \<open>\<open>struct yy_buffer_state\<close>, of which there is one, and the globals of the scanner.\<close>

abbreviation (input) YY_BUFFER_NEW :: nat where "YY_BUFFER_NEW \<equiv> 0"
abbreviation (input) YY_BUFFER_NORMAL :: nat where "YY_BUFFER_NORMAL \<equiv> 1"
abbreviation (input) YY_BUFFER_EOF_PENDING :: nat where "YY_BUFFER_EOF_PENDING \<equiv> 2"

record yy_buffer_state =
  yy_ch_buf :: "u8 list"
  yy_buf_pos :: nat
  yy_buf_size :: int
  buffer_n_chars :: nat
  yy_is_our_buffer :: int
  yy_fill_buffer :: int
  yy_buffer_status :: nat

record yyguts_t = yy_buffer_state +
  yy_n_chars :: nat
  yy_hold_char :: u8
  yy_c_buf_p :: nat
  yytext_ptr :: nat
  yyleng :: nat
  yy_init :: int
  yy_start :: nat
  yy_last_accepting_state :: nat
  yy_last_accepting_cpos :: nat

section \<open>Creating and restarting the buffer\<close>

definition yyalloc :: "(nat \<Rightarrow> u8) \<Rightarrow> nat \<Rightarrow> u8 list" where
  "yyalloc junk n = map junk [0..<n]"

definition yyrealloc :: "(nat \<Rightarrow> u8) \<Rightarrow> u8 list \<Rightarrow> nat \<Rightarrow> u8 list" where
  "yyrealloc junk p n = take n p @ map junk [length p..<n]"

definition put_chars :: "nat \<Rightarrow> u8 list \<Rightarrow> u8 list \<Rightarrow> u8 list outcome" where
  "put_chars i s buf = (if i + length s \<le> length buf
     then Ret (take i buf @ s @ drop (i + length s) buf) else Undefined Out_of_bounds)"

definition yylex_init_extra :: yyguts_t where
  "yylex_init_extra = \<lparr>yy_ch_buf = [], yy_buf_pos = 0, yy_buf_size = 0, buffer_n_chars = 0,
     yy_is_our_buffer = 0, yy_fill_buffer = 0, yy_buffer_status = 0, yy_n_chars = 0, yy_hold_char = 0,
     yy_c_buf_p = 0, yytext_ptr = 0, yyleng = 0, yy_init = 0, yy_start = 0,
     yy_last_accepting_state = 0, yy_last_accepting_cpos = 0\<rparr>"

definition yy_load_buffer_state :: "yyguts_t \<Rightarrow> yyguts_t outcome" where
  "yy_load_buffer_state g =
     (let g = g\<lparr>yy_n_chars := buffer_n_chars g, yytext_ptr := yy_buf_pos g, yy_c_buf_p := yy_buf_pos g\<rparr> in
      obind (byte_at (yy_ch_buf g) (yy_c_buf_p g)) (\<lambda>c. Ret (g\<lparr>yy_hold_char := c\<rparr>)))"

text \<open>\<open>current\<close> says whether the buffer is the current one, and not just being created.\<close>

definition yy_flush_buffer :: "bool \<Rightarrow> yyguts_t \<Rightarrow> yyguts_t outcome" where
  "yy_flush_buffer current g =
     (let g = g\<lparr>buffer_n_chars := 0\<rparr> in
      obind (put_chars 0 [0, 0] (yy_ch_buf g)) (\<lambda>buf.
      let g = g\<lparr>yy_ch_buf := buf, yy_buf_pos := 0, yy_buffer_status := YY_BUFFER_NEW\<rparr> in
      if current then yy_load_buffer_state g else Ret g))"

definition yy_init_buffer :: "bool \<Rightarrow> yyguts_t \<Rightarrow> yyguts_t outcome" where
  "yy_init_buffer current g =
     obind (yy_flush_buffer current g) (\<lambda>g. Ret (g\<lparr>yy_fill_buffer := 1\<rparr>))"

definition yy_create_buffer :: "(nat \<Rightarrow> u8) \<Rightarrow> int \<Rightarrow> yyguts_t \<Rightarrow> yyguts_t outcome" where
  "yy_create_buffer junk sz g =
     yy_init_buffer False (g\<lparr>yy_buf_size := sz, yy_ch_buf := yyalloc junk (nat (sz + 2)), yy_is_our_buffer := 1\<rparr>)"

definition yyrestart :: "yyguts_t \<Rightarrow> yyguts_t outcome" where
  "yyrestart g = obind (yy_init_buffer True g) yy_load_buffer_state"

text \<open>The beginning of \<open>yylex\<close>.\<close>

definition YY_BUF_SIZE :: int where
  "YY_BUF_SIZE = 16384"

definition yylex_enter :: "(nat \<Rightarrow> u8) \<Rightarrow> yyguts_t \<Rightarrow> yyguts_t outcome" where
  "yylex_enter junk g =
     (if yy_init g = 0 then
        let g = g\<lparr>yy_init := 1, yy_start := if yy_start g = 0 then 1 else yy_start g\<rparr> in
        obind (yy_create_buffer junk YY_BUF_SIZE g) yy_load_buffer_state
      else Ret g)"

section \<open>Filling the buffer\<close>

datatype eob_act = EOB_ACT_CONTINUE_SCAN | EOB_ACT_END_OF_FILE | EOB_ACT_LAST_MATCH

text \<open>The loop that moves \<open>n\<close> characters, one by one.\<close>

fun yy_move :: "nat \<Rightarrow> nat \<Rightarrow> nat \<Rightarrow> u8 list \<Rightarrow> u8 list outcome" where
  "yy_move dest source 0 buf = Ret buf"
| "yy_move dest source (Suc n) buf =
     (if dest < length buf \<and> source < length buf
      then yy_move (dest + 1) (source + 1) n (buf[dest := buf ! source]) else Undefined Out_of_bounds)"

text \<open>
  The loop that doubles the buffer until there is room behind \<open>moved\<close> characters. A size above
  the largest \<open>int\<close> is an overflow; before it, a buffer with a size above 0 is doubled at most 31 times.
\<close>

fun yy_grow :: "nat \<Rightarrow> (nat \<Rightarrow> u8) \<Rightarrow> nat \<Rightarrow> yyguts_t \<Rightarrow> yyguts_t outcome" where
  "yy_grow 0 junk moved g = Pending"
| "yy_grow (Suc n) junk moved g =
     (if yy_buf_size g - int moved - 1 \<le> 0 then
        if yy_is_our_buffer g \<noteq> 0 then
          let new_size = yy_buf_size g * 2 in
          if 2 ^ 31 \<le> new_size then Undefined Value_range
          else
            let sz = (if new_size \<le> 0 then yy_buf_size g + yy_buf_size g div 8 else new_size) in
            yy_grow n junk moved (g\<lparr>yy_buf_size := sz, yy_ch_buf := yyrealloc junk (yy_ch_buf g) (nat (sz + 2))\<rparr>)
        else Exit 2
      else Ret g)"

definition YY_READ_BUF_SIZE :: nat where
  "YY_READ_BUF_SIZE = 8192"

definition yy_read :: "(nat \<Rightarrow> u8) \<Rightarrow> nat \<Rightarrow> yyguts_t \<Rightarrow> read_result list \<Rightarrow> (yyguts_t \<times> read_result list) outcome" where
  "yy_read junk moved g k =
     obind (yy_grow 32 junk moved g) (\<lambda>g.
     let num_to_read = min YY_READ_BUF_SIZE (nat (yy_buf_size g - int moved - 1)) in
     obind (yy_input num_to_read k) (\<lambda>(s, k).
     obind (put_chars moved s (yy_ch_buf g)) (\<lambda>buf.
     Ret (g\<lparr>yy_ch_buf := buf, yy_n_chars := length s, buffer_n_chars := length s\<rparr>, k))))"

text \<open>No \<open>read\<close> once the end of the file has been seen.\<close>

definition yy_refill :: "(nat \<Rightarrow> u8) \<Rightarrow> nat \<Rightarrow> yyguts_t \<Rightarrow> read_result list \<Rightarrow> (yyguts_t \<times> read_result list) outcome" where
  "yy_refill junk moved g k =
     (if yy_buffer_status g = YY_BUFFER_EOF_PENDING
      then Ret (g\<lparr>yy_n_chars := 0, buffer_n_chars := 0\<rparr>, k) else yy_read junk moved g k)"

definition yy_get_next_buffer ::
  "(nat \<Rightarrow> u8) \<Rightarrow> yyguts_t \<Rightarrow> read_result list \<Rightarrow> (eob_act \<times> yyguts_t \<times> read_result list) outcome" where
  "yy_get_next_buffer junk g k =
     (if yy_c_buf_p g > yy_n_chars g + 1 then Exit 2
      else if yy_fill_buffer g = 0 then
        Ret (if yy_c_buf_p g - yytext_ptr g = 1 then EOB_ACT_END_OF_FILE else EOB_ACT_LAST_MATCH, g, k)
      else
        let moved = yy_c_buf_p g - yytext_ptr g - 1 in
        obind (yy_move 0 (yytext_ptr g) moved (yy_ch_buf g)) (\<lambda>buf.
        let g = g\<lparr>yy_ch_buf := buf\<rparr> in
        obind (yy_refill junk moved g k) (\<lambda>(g, k).
        obind (if yy_n_chars g = 0 then
            if moved = 0 then obind (yyrestart g) (\<lambda>g. Ret (EOB_ACT_END_OF_FILE, g))
            else Ret (EOB_ACT_LAST_MATCH, g\<lparr>yy_buffer_status := YY_BUFFER_EOF_PENDING\<rparr>)
          else Ret (EOB_ACT_CONTINUE_SCAN, g)) (\<lambda>(act, g).
        let new_size = yy_n_chars g + moved + yy_n_chars g div 2;
          g = (if yy_buf_size g < int (yy_n_chars g + moved)
            then g\<lparr>yy_ch_buf := yyrealloc junk (yy_ch_buf g) new_size, yy_buf_size := int new_size - 2\<rparr> else g);
          n = yy_n_chars g + moved in
        obind (put_chars n [0, 0] (yy_ch_buf g)) (\<lambda>buf.
        Ret (act, g\<lparr>yy_n_chars := n, yy_ch_buf := buf, yytext_ptr := 0\<rparr>, k))))))"

section \<open>Scanning a token\<close>

text \<open>The matching loop from state \<open>s\<close> at position \<open>cp\<close>, with the last accepting state and its position.\<close>

function yy_match_buffer :: "u8 list \<Rightarrow> nat \<Rightarrow> nat \<times> nat \<Rightarrow> nat \<Rightarrow> (nat \<times> (nat \<times> nat) \<times> nat) outcome" where
  "yy_match_buffer buf s acc cp =
     (if cp < length buf then
        let acc = (if yy_accept ! s \<noteq> 0 then (s, cp) else acc) in
        case yy_follow 3 s (yy_ec ! unat (buf ! cp)) of
          None \<Rightarrow> Pending
        | Some s' \<Rightarrow> if yy_base ! s' \<noteq> 14 then yy_match_buffer buf s' acc (cp + 1) else Ret (s', acc, cp + 1)
      else Undefined Out_of_bounds)"
  by pat_completeness auto
termination
  by (relation "measure (\<lambda>(buf, s, acc, cp). length buf - cp)") auto

declare yy_match_buffer.simps [simp del]

abbreviation last_accepting :: "yyguts_t \<Rightarrow> nat \<times> nat" where
  "last_accepting g \<equiv> (yy_last_accepting_state g, yy_last_accepting_cpos g)"

definition set_accepting :: "nat \<times> nat \<Rightarrow> yyguts_t \<Rightarrow> yyguts_t" where
  "set_accepting acc g = g\<lparr>yy_last_accepting_state := fst acc, yy_last_accepting_cpos := snd acc\<rparr>"

text \<open>\<open>YY_DO_BEFORE_ACTION\<close>\<close>

definition yy_do_before_action :: "nat \<Rightarrow> nat \<Rightarrow> yyguts_t \<Rightarrow> yyguts_t outcome" where
  "yy_do_before_action bp cp g =
     obind (byte_at (yy_ch_buf g) cp) (\<lambda>c.
     Ret (g\<lparr>yytext_ptr := bp, yyleng := cp - bp, yy_hold_char := c,
       yy_ch_buf := (yy_ch_buf g)[cp := 0], yy_c_buf_p := cp\<rparr>))"

text \<open>The state the text from \<open>yytext_ptr\<close> to \<open>yy_c_buf_p\<close> leads to.\<close>

definition yy_previous :: "yyguts_t \<Rightarrow> (nat \<times> yyguts_t) outcome" where
  "yy_previous g =
     (if yy_c_buf_p g \<le> length (yy_ch_buf g) then
        case yy_get_previous_state (yy_start g) (last_accepting g) (yytext_ptr g)
            (take (yy_c_buf_p g - yytext_ptr g) (drop (yytext_ptr g) (yy_ch_buf g))) of
          None \<Rightarrow> Pending
        | Some (s, acc) \<Rightarrow> Ret (s, set_accepting acc g)
      else Undefined Out_of_bounds)"

text \<open>
  Where the action for the end of the buffer continues: at \<open>yy_match\<close> or at \<open>yy_find_action\<close> with a
  state and a position, or with the action for the end of the file.
\<close>

datatype resumption = Resume nat nat | Resolve nat nat | End_of_file

text \<open>A NUL of the input, behind \<open>matched\<close> characters.\<close>

definition yy_really_NUL :: "nat \<Rightarrow> yyguts_t \<Rightarrow> (resumption \<times> yyguts_t) outcome" where
  "yy_really_NUL matched g =
     obind (yy_previous (g\<lparr>yy_c_buf_p := yytext_ptr g + matched\<rparr>)) (\<lambda>(s, g).
     let g = (if yy_accept ! s \<noteq> 0 then set_accepting (s, yy_c_buf_p g) g else g) in
     case yy_try_NUL_trans s of
       None \<Rightarrow> Pending
     | Some s' \<Rightarrow> if s' \<noteq> 0
         then Ret (Resume s' (yy_c_buf_p g + 1), g\<lparr>yy_c_buf_p := yy_c_buf_p g + 1\<rparr>)
         else Ret (Resolve s (yy_c_buf_p g), g))"

text \<open>The end of the buffer.\<close>

definition yy_next_buffer :: "(nat \<Rightarrow> u8) \<Rightarrow> nat \<Rightarrow> yyguts_t \<Rightarrow> read_result list \<Rightarrow>
    (resumption \<times> yyguts_t \<times> read_result list) outcome" where
  "yy_next_buffer junk matched g k =
     obind (yy_get_next_buffer junk g k) (\<lambda>(act, g, k).
     case act of
       EOB_ACT_END_OF_FILE \<Rightarrow> Ret (End_of_file, g\<lparr>yy_c_buf_p := yytext_ptr g\<rparr>, k)
     | EOB_ACT_CONTINUE_SCAN \<Rightarrow>
         obind (yy_previous (g\<lparr>yy_c_buf_p := yytext_ptr g + matched\<rparr>)) (\<lambda>(s, g).
         Ret (Resume s (yy_c_buf_p g), g, k))
     | EOB_ACT_LAST_MATCH \<Rightarrow>
         obind (yy_previous (g\<lparr>yy_c_buf_p := yy_n_chars g\<rparr>)) (\<lambda>(s, g).
         Ret (Resolve s (yy_c_buf_p g), g, k)))"

definition yy_end_of_buffer :: "(nat \<Rightarrow> u8) \<Rightarrow> nat \<Rightarrow> yyguts_t \<Rightarrow> read_result list \<Rightarrow>
    (resumption \<times> yyguts_t \<times> read_result list) outcome" where
  "yy_end_of_buffer junk cp g k =
     (let matched = cp - yytext_ptr g - 1;
        g = g\<lparr>yy_ch_buf := (yy_ch_buf g)[cp := yy_hold_char g]\<rparr>;
        g = (if yy_buffer_status g = YY_BUFFER_NEW
          then g\<lparr>yy_n_chars := buffer_n_chars g, yy_buffer_status := YY_BUFFER_NORMAL\<rparr> else g) in
      if yy_c_buf_p g \<le> yy_n_chars g then obind (yy_really_NUL matched g) (\<lambda>(r, g). Ret (r, g, k))
      else yy_next_buffer junk matched g k)"

text \<open>
  The labels of \<open>yylex\<close> with the local variables \<open>yy_current_state\<close>, \<open>yy_cp\<close> and \<open>yy_bp\<close>. A run
  from them to the next token takes at most \<open>n\<close> jumps; \<open>Pending\<close> if there are more.
\<close>

datatype token = Token nat "u8 list" | Eof

datatype yy_label = Match nat nat nat | Find_action nat nat nat

fun yy_scan :: "nat \<Rightarrow> (nat \<Rightarrow> u8) \<Rightarrow> yy_label \<Rightarrow> yyguts_t \<Rightarrow> read_result list \<Rightarrow>
    (token \<times> yyguts_t \<times> read_result list) outcome" where
  "yy_scan 0 junk l g k = Pending"
| "yy_scan (Suc n) junk (Match s cp bp) g k =
     obind (yy_match_buffer (yy_ch_buf g) s (last_accepting g) cp) (\<lambda>(s, acc, cp).
     yy_scan n junk (Find_action s cp bp) (set_accepting acc g) k)"
| "yy_scan (Suc n) junk (Find_action s cp bp) g k =
     (let (s, cp) = (if yy_accept ! s = 0 then last_accepting g else (s, cp)); act = yy_accept ! s in
      obind (yy_do_before_action bp cp g) (\<lambda>g.
      if act = 0 then
        yy_scan n junk (Find_action (yy_last_accepting_state g) (yy_last_accepting_cpos g) bp)
          (g\<lparr>yy_ch_buf := (yy_ch_buf g)[cp := yy_hold_char g]\<rparr>) k
      else if act = 6 then
        obind (yy_end_of_buffer junk cp g k) (\<lambda>(r, g, k). case r of
          Resume s cp \<Rightarrow> yy_scan n junk (Match s cp (yytext_ptr g)) g k
        | Resolve s cp \<Rightarrow> yy_scan n junk (Find_action s cp (yytext_ptr g)) g k
        | End_of_file \<Rightarrow> Ret (Eof, g, k))
      else Ret (Token act (take (yyleng g) (drop (yytext_ptr g) (yy_ch_buf g))), g, k)))"

definition yy_next_token :: "nat \<Rightarrow> (nat \<Rightarrow> u8) \<Rightarrow> yyguts_t \<Rightarrow> read_result list \<Rightarrow>
    (token \<times> yyguts_t \<times> read_result list) outcome" where
  "yy_next_token n junk g k =
     (let cp = yy_c_buf_p g in
      obind (put_chars cp [yy_hold_char g] (yy_ch_buf g)) (\<lambda>buf.
      yy_scan n junk (Match (yy_start g) cp cp) (g\<lparr>yy_ch_buf := buf\<rparr>) k))"

section \<open>The loop over the tokens\<close>

text \<open>
  The text as the action leaves it: the server writes a zero over the \<open>#\<close> of a packet with the
  right digits.
\<close>

definition text_after :: "nat \<Rightarrow> u8 list \<Rightarrow> u8 list" where
  "text_after act text =
     (case (sum_at [1..<length text - 3] text 0, scan_x None (drop (length text - 2) (text @ [0])) None) of
        (Ret check, Ret (Some given)) \<Rightarrow>
          if act = 3 \<and> ucast check = given then text[length text - 3 := 0] else text
      | _ \<Rightarrow> text)"

fun yylex_loop :: "nat \<Rightarrow> (nat \<Rightarrow> u8) \<Rightarrow> (u8 \<Rightarrow> 'z parser_ext gdb_handler_t option) \<Rightarrow> yyguts_t \<Rightarrow>
    read_result list \<Rightarrow> ('z, unit) lexer" where
  "yylex_loop 0 junk handler g k = still_running"
| "yylex_loop (Suc n) junk handler g k =
     mbind (lift_o (yy_next_token n junk g k)) (\<lambda>(t, g, k).
     case t of
       Eof \<Rightarrow> handle_error
     | Token act text \<Rightarrow>
         mseq (yy_action handler act text)
         (mbind (lift_o (put_chars (yytext_ptr g) (text_after act text) (yy_ch_buf g))) (\<lambda>buf.
         yylex_loop n junk handler (g\<lparr>yy_ch_buf := buf\<rparr>) k)))"

definition yylex_buffered :: "nat \<Rightarrow> (nat \<Rightarrow> u8) \<Rightarrow> (u8 \<Rightarrow> 'z parser_ext gdb_handler_t option) \<Rightarrow>
    read_result list \<Rightarrow> ('z, unit) lexer" where
  "yylex_buffered n junk handler k =
     mbind (lift_o (yylex_enter junk yylex_init_extra)) (\<lambda>g. yylex_loop n junk handler g k)"

end
