(* ===== verification/Scan_Window.thy ===== *)
theory Scan_Window
  imports Scan_Buffer
begin

unbundle bit_operations_syntax

text \<open>
  The automaton over the buffer: on the characters in it, it runs as the automaton on lists does, up
  to the end of a token or to the first NUL.
\<close>

section \<open>The automaton on lists\<close>

definition find_from :: "nat \<Rightarrow> nat \<times> nat \<Rightarrow> nat \<Rightarrow> u8 list \<Rightarrow> (nat \<times> nat) option" where
  "find_from s acc n cs = map_option yy_find_action (yy_match s acc n cs)"

lemma find_from_acc: "yy_accept ! s \<noteq> 0 \<Longrightarrow> find_from s acc n cs = find_from s acc' n cs"
  by (cases cs) (simp_all add: find_from_def yy_find_action_def)

lemma yy_match_shift:
  "yy_match s (a, b + d) (n + d) cs =
     map_option (\<lambda>(s, n, a, b). (s, n + d, a, b + d)) (yy_match s (a, b) n cs)"
proof (induction cs arbitrary: s a b n)
  case (Cons c cs)
  show ?case
    using Cons.IH [of _ _ _ "Suc n"]
    by (cases "yy_next s c") (simp_all add: Let_def)
qed simp

lemma find_from_shift:
  "find_from s (a, b + d) (n + d) cs = map_option (\<lambda>(x, y). (x, y + d)) (find_from s (a, b) n cs)"
  unfolding find_from_def yy_match_shift
  by (cases "yy_match s (a, b) n cs") (auto simp: yy_find_action_def)

lemma next_first: "\<exists>s. yy_next 1 c = Some s \<and> s \<in> {4, 5, 6, 7, 8}"
  by (simp add: next_moves moves_def class_of_def)

lemma find_from_rule:
  assumes "rule_token c cs = (act, m)"
  shows "find_from 1 acc n (c # cs) = Some (act, n + m)"
proof -
  obtain s where s: "yy_next 1 c = Some s" "s \<in> {4, 5, 6, 7, 8}" using next_first by blast
  then have a: "yy_accept ! s \<noteq> 0" by auto
  have "find_from 1 acc n (c # cs) = find_from 1 (0, 0 + n) (0 + n) (c # cs)"
    using s(1) find_from_acc [OF a, of acc "Suc n" cs "(0, n)"] a
    by (simp add: find_from_def yy_find_action_def)
  also have "\<dots> = map_option (\<lambda>(x, y). (x, y + n)) (yy_token (c # cs))"
    unfolding find_from_shift by (simp add: find_from_def yy_token_def)
  finally show ?thesis using assms by (simp add: yy_token_rule add.commute)
qed

text \<open>Texts inside a packet, and the state they lead to.\<close>

fun open_run :: "nat \<Rightarrow> u8 list \<Rightarrow> nat option" where
  "open_run s [] = Some s"
| "open_run s (c # cs) = (let s' = moves s (class_of c) in
     if s' \<in> {6, 9, 10, 11} then open_run s' cs else None)"

abbreviation open_states :: "nat set" where
  "open_states \<equiv> {1, 6, 9, 10, 11}"

lemma open_run_state: "open_run s t = Some s' \<Longrightarrow> s \<in> open_states \<Longrightarrow> s' \<in> open_states"
  by (induction t arbitrary: s) (auto simp: Let_def split: if_splits)

lemma open_run_append: "open_run s (t @ u) = Option.bind (open_run s t) (\<lambda>s. open_run s u)"
  by (induction t arbitrary: s) (auto simp: Let_def)

lemma open_run_previous:
  assumes "open_run s t = Some s'" "s \<in> open_states"
  shows "\<exists>acc'. yy_get_previous_state s acc n t = Some (s', acc') \<and>
    (\<forall>v. yy_match s acc n (t @ v) = yy_match s' acc' (n + length t) v)"
  using assms
proof (induction t arbitrary: s acc n)
  case (Cons c t)
  let ?s = "moves s (class_of c)"
  have s: "?s \<in> {6, 9, 10, 11}" "open_run ?s t = Some s'"
    using Cons.prems(1) by (auto simp: Let_def split: if_splits)
  have "yy_next s c = Some ?s" using Cons.prems(2) by (intro next_moves) auto
  moreover have "yy_base ! ?s \<noteq> 14" using s(1) by auto
  moreover have "?s \<in> open_states" using s(1) by auto
  ultimately show ?case using Cons.IH [OF s(2), of _ "Suc n"] by (simp add: Let_def)
qed simp

text \<open>
  The state behind a text for which the scanner has to look at the next character: a text inside
  a packet, or a NUL, after which the generated scanner does so without need.
\<close>

definition at_state :: "u8 list \<Rightarrow> nat \<Rightarrow> bool" where
  "at_state t s \<longleftrightarrow> open_run 1 t = Some s \<or> t = [0] \<and> s = 4"

lemma at_state_empty: "at_state [] s \<longleftrightarrow> s = 1"
  by (auto simp: at_state_def)

lemma next_other: "s \<in> {4, 5, 7, 8, 12} \<Longrightarrow> yy_next s c = Some 13"
  by (auto simp: next_moves moves_def)

lemma find_from_4: "find_from 4 acc n cs = Some (4, n)"
  by (cases cs) (simp_all add: find_from_def yy_find_action_def next_other)

lemma at_state_previous:
  assumes "at_state t s"
  shows "\<exists>acc'. yy_get_previous_state 1 acc n t = Some (s, acc') \<and>
    (\<forall>v. find_from 1 acc n (t @ v) = find_from s acc' (n + length t) v)"
proof (cases "open_run 1 t = Some s")
  case True
  then obtain acc' where "yy_get_previous_state 1 acc n t = Some (s, acc')"
    "\<forall>v. yy_match 1 acc n (t @ v) = yy_match s acc' (n + length t) v"
    using open_run_previous by blast
  then show ?thesis by (auto simp: find_from_def)
next
  case False
  with assms have t: "t = [0]" "s = 4" by (auto simp: at_state_def)
  have "yy_next 1 0 = Some 4" by (simp add: next_moves moves_def class_of_def is_hex_def is_digit_def)
  then have "yy_get_previous_state 1 acc n [0] = Some (4, acc)" by simp
  moreover have "find_from 1 acc n (0 # v) = Some (4, n + 1)" for v
    by (rule find_from_rule) (simp add: rule_token_def)
  ultimately show ?thesis unfolding t by (simp add: find_from_4)
qed

section \<open>The automaton on the buffer\<close>

lemma yy_ec_class: "c \<noteq> 0 \<Longrightarrow> yy_ec ! unat c = class_of c"
  using yy_class_of [of c] by (simp add: yy_class_def)

lemma yy_ec_0: "yy_ec ! 0 = 0"
  by (simp add: yy_ec_def)

lemma follow_zero: "s \<in> {1, 4, 6, 9, 10, 11} \<Longrightarrow> yy_follow 3 s 0 = Some 3"
proof -
  have "list_all (\<lambda>s. yy_follow 3 s 0 = Some 3) [1, 4, 6, 9, 10, 11]" by code_simp
  then show "s \<in> {1, 4, 6, 9, 10, 11} \<Longrightarrow> ?thesis" by auto
qed

lemma follow_3: "yy_follow 3 3 (yy_ec ! unat c) = Some 13" for c :: u8
proof -
  have "list_all (\<lambda>k. yy_follow 3 3 k = Some 13) [0, 1, 2, 3, 4, 5, 6, 7]" by code_simp
  moreover have "yy_ec ! unat c \<in> {0, 1, 2, 3, 4, 5, 6, 7}"
    using class_range' [of c] yy_ec_0 yy_ec_class [of c] by (cases "c = 0") auto
  ultimately show ?thesis by (auto simp: list_all_iff)
qed

lemma yy_table_3 [simp]: "yy_accept ! 3 = 6" "yy_base ! 3 = 13"
  by (simp_all add: yy_accept_def yy_base_def)

lemma match_zero:
  assumes "s \<in> {1, 4, 6, 9, 10, 11}" "cp + 1 < length buf" "buf ! cp = 0"
  shows "yy_match_buffer buf s acc cp = Ret (13, (3, cp + 1), cp + 2)"
  using assms(2,3) follow_zero [OF assms(1)] follow_3 [of "buf ! Suc cp"] yy_ec_0
  by (simp add: yy_match_buffer.simps [of buf s] yy_match_buffer.simps [of buf 3])

lemma match_char:
  assumes "s \<in> {1, 4, 6, 9, 10, 11}" "cp < length buf" "buf ! cp = c" "c \<noteq> 0"
  shows "yy_match_buffer buf s acc cp =
    (let s' = moves s (class_of c); acc' = (if yy_accept ! s \<noteq> 0 then (s, cp) else acc) in
     if s' \<in> {6, 9, 10, 11} then yy_match_buffer buf s' acc' (cp + 1) else Ret (s', acc', cp + 1))"
    "yy_match s acc cp (c # cs) =
    (let s' = moves s (class_of c); acc' = (if yy_accept ! s \<noteq> 0 then (s, cp) else acc) in
     if s' \<in> {6, 9, 10, 11} then yy_match s' acc' (cp + 1) cs else Some (s', cp + 1, acc'))"
proof -
  let ?s = "moves s (class_of c)"
  have f: "yy_follow 3 s (class_of c) = Some ?s" using assms(1) class_range' [of c] by (intro follow_moves) auto
  have "?s \<in> {4, 5, 6, 7, 8, 9, 10, 11, 12, 13}"
    using assms(1) class_range' [of c] by (auto simp: moves_def)
  then have b: "yy_base ! ?s \<noteq> 14 \<longleftrightarrow> ?s \<in> {6, 9, 10, 11}" by auto
  show "yy_match_buffer buf s acc cp =
    (let s' = moves s (class_of c); acc' = (if yy_accept ! s \<noteq> 0 then (s, cp) else acc) in
     if s' \<in> {6, 9, 10, 11} then yy_match_buffer buf s' acc' (cp + 1) else Ret (s', acc', cp + 1))"
    unfolding Let_def b [symmetric] yy_match_buffer.simps [of buf s]
    using assms(2-4) f by (simp add: yy_ec_class Let_def)
  have "yy_next s c = Some ?s" using assms(1) by (intro next_moves) auto
  then show "yy_match s acc cp (c # cs) =
    (let s' = moves s (class_of c); acc' = (if yy_accept ! s \<noteq> 0 then (s, cp) else acc) in
     if s' \<in> {6, 9, 10, 11} then yy_match s' acc' (cp + 1) cs else Some (s', cp + 1, acc'))"
    unfolding Let_def b [symmetric] by (simp add: Let_def)
qed

text \<open>
  The loop over the characters \<open>u\<close> in front of the end of the buffer either comes to the end of a
  token, as on the list, or stops behind the first NUL.
\<close>

lemma match_window:
  assumes "s \<in> {1, 4, 6, 9, 10, 11}"
  shows "u \<noteq> [] \<and> (\<exists>s' acc' cp'. yy_match_buffer (pre @ u @ 0 # 0 # post) s acc (length pre) = Ret (s', acc', cp') \<and>
      (\<forall>v. yy_match s acc (length pre) (u @ v) = Some (s', cp', acc'))) \<or>
    (\<exists>t w s'. u = t @ w \<and> (w = [] \<or> hd w = 0) \<and> open_run s t = Some s' \<and>
      yy_match_buffer (pre @ u @ 0 # 0 # post) s acc (length pre) =
        Ret (13, (3, length pre + length t + 1), length pre + length t + 2))"
  using assms
proof (induction u arbitrary: pre s acc)
  case Nil
  have "yy_match_buffer (pre @ [] @ 0 # 0 # post) s acc (length pre) = Ret (13, (3, length pre + 1), length pre + 2)"
    by (rule match_zero [OF Nil]) simp_all
  then show ?case by simp
next
  case (Cons c u)
  let ?buf = "pre @ (c # u) @ 0 # 0 # post"
  show ?case
  proof (cases "c = 0")
    case True
    have "yy_match_buffer ?buf s acc (length pre) = Ret (13, (3, length pre + 1), length pre + 2)"
      by (rule match_zero [OF Cons.prems]) (simp_all add: True)
    with True have "c # u = [] @ c # u \<and> (c # u = [] \<or> hd (c # u) = 0) \<and> open_run s [] = Some s \<and>
        yy_match_buffer ?buf s acc (length pre) =
          Ret (13, (3, length pre + length [] + 1), length pre + length [] + 2)" by simp
    then show ?thesis by blast
  next
    case False
    have p: "length pre < length ?buf" "?buf ! length pre = c" by simp_all
    note step = match_char(1) [OF Cons.prems p False, of acc]
      match_char(2) [OF Cons.prems p False, of acc]
    let ?s = "moves s (class_of c)" and ?acc = "if yy_accept ! s \<noteq> 0 then (s, length pre) else acc"
    show ?thesis
    proof (cases "?s \<in> {6, 9, 10, 11}")
      case True
      then have s: "?s \<in> {1, 4, 6, 9, 10, 11}" by auto
      have b: "yy_match_buffer ?buf s acc (length pre) =
          yy_match_buffer ((pre @ [c]) @ u @ 0 # 0 # post) ?s ?acc (length (pre @ [c]))"
        and l: "yy_match s acc (length pre) ((c # u) @ v) = yy_match ?s ?acc (length (pre @ [c])) (u @ v)" for v
        using step True by (simp_all add: Let_def)
      from Cons.IH [OF s, of "pre @ [c]" ?acc] consider
        s' acc' cp' where
          "yy_match_buffer ((pre @ [c]) @ u @ 0 # 0 # post) ?s ?acc (length (pre @ [c])) = Ret (s', acc', cp')"
          "\<forall>v. yy_match ?s ?acc (length (pre @ [c])) (u @ v) = Some (s', cp', acc')"
        | t w s' where "u = t @ w" "w = [] \<or> hd w = 0" "open_run ?s t = Some s'"
          "yy_match_buffer ((pre @ [c]) @ u @ 0 # 0 # post) ?s ?acc (length (pre @ [c])) =
            Ret (13, (3, length (pre @ [c]) + length t + 1), length (pre @ [c]) + length t + 2)"
        by blast
      then show ?thesis
      proof cases
        case 1
        then show ?thesis unfolding b l by blast
      next
        case t: 2
        then have "c # u = (c # t) @ w \<and> (w = [] \<or> hd w = 0) \<and> open_run s (c # t) = Some s' \<and>
          yy_match_buffer ((pre @ [c]) @ u @ 0 # 0 # post) ?s ?acc (length (pre @ [c])) =
            Ret (13, (3, length pre + length (c # t) + 1), length pre + length (c # t) + 2)"
          using True by simp
        then show ?thesis unfolding b by blast
      qed
    next
      case False
      with step show ?thesis by (simp add: Let_def)
    qed
  qed
qed

end
