(* ===== verification/Scan_Fill.thy ===== *)
theory Scan_Fill
  imports Scan_Buffer
begin

unbundle bit_operations_syntax

text \<open>
  Filling the buffer: the text read so far is moved to the front and followed by what the
  connection delivers, at the end of the file by nothing. The buffer grows where necessary and
  no access leaves it.
\<close>

section \<open>Filling the buffer\<close>

lemma yy_move_list:
  "dest \<le> source \<Longrightarrow> source + n \<le> length buf \<Longrightarrow>
     yy_move dest source n buf = Ret (take dest buf @ take n (drop source buf) @ drop (dest + n) buf)"
proof (induction n arbitrary: dest source buf)
  case (Suc n)
  let ?buf = "buf[dest := buf ! source]"
  have "take (Suc dest) ?buf = take dest buf @ [buf ! source]" "drop (Suc source) ?buf = drop (Suc source) buf"
    using Suc.prems by (simp_all add: take_Suc_conv_app_nth)
  moreover have "take (Suc n) (drop source buf) = buf ! source # take n (drop (Suc source) buf)"
    using Suc.prems by (simp flip: Cons_nth_drop_Suc)
  ultimately show ?case using Suc by simp
qed simp

text \<open>Moving the text to the front.\<close>

lemma yy_move_front:
  "yy_move 0 (length pre) (length x) (pre @ x @ post) = Ret (x @ drop (length x) (pre @ x @ post))"
  by (subst yy_move_list) simp_all

text \<open>What the functions of the buffer keep, with at most \<open>L\<close> characters to scan.\<close>

definition wf_guts :: "nat \<Rightarrow> yyguts_t \<Rightarrow> bool" where
  "wf_guts L g \<longleftrightarrow> yy_start g = 1 \<and> yy_fill_buffer g \<noteq> 0 \<and> yy_is_our_buffer g \<noteq> 0 \<and>
     int (length (yy_ch_buf g)) = yy_buf_size g + 2 \<and> 16384 \<le> yy_buf_size g \<and>
     yy_buf_size g \<le> max 16384 (2 * int L + 2) \<and> yy_buffer_status g \<le> 2 \<and>
     (yy_buffer_status g = 0 \<longrightarrow> buffer_n_chars g = yy_n_chars g)"

lemma yy_grow_room:
  assumes "int moved + 1 < yy_buf_size g * 2 ^ n" "int moved < 2 ^ 30 - 1" "0 < yy_buf_size g"
    "yy_is_our_buffer g \<noteq> 0" "int (length (yy_ch_buf g)) = yy_buf_size g + 2"
  shows "\<exists>z ext. yy_grow (Suc n) junk moved g = Ret (g\<lparr>yy_buf_size := z, yy_ch_buf := yy_ch_buf g @ ext\<rparr>) \<and>
    int moved + 1 < z \<and> yy_buf_size g \<le> z \<and> z \<le> max (yy_buf_size g) (2 * int moved + 2) \<and>
    int (length (yy_ch_buf g @ ext)) = z + 2"
  using assms
proof (induction n arbitrary: g)
  case 0
  then show ?case by (intro exI [of _ "yy_buf_size g"] exI [of _ "[]"]) simp
next
  case (Suc n)
  show ?case
  proof (cases "yy_buf_size g - int moved - 1 \<le> 0")
    case True
    let ?z = "yy_buf_size g * 2"
    let ?ext = "map junk [length (yy_ch_buf g)..<nat (?z + 2)]"
    let ?g = "g\<lparr>yy_buf_size := ?z, yy_ch_buf := yy_ch_buf g @ ?ext\<rparr>"
    have "length (yy_ch_buf g) \<le> nat (?z + 2)" using Suc.prems by simp
    then have r: "yyrealloc junk (yy_ch_buf g) (nat (?z + 2)) = yy_ch_buf g @ ?ext"
      "int (length (yy_ch_buf g @ ?ext)) = ?z + 2" using Suc.prems by (simp_all add: yyrealloc_def)
    have "yy_grow (Suc (Suc n)) junk moved g = yy_grow (Suc n) junk moved ?g"
      using True Suc.prems(2-4) r(1) by (simp add: Let_def del: yy_grow.simps(2)) (subst yy_grow.simps(2), simp add: Let_def)
    moreover have "\<exists>z ext. yy_grow (Suc n) junk moved ?g = Ret (?g\<lparr>yy_buf_size := z, yy_ch_buf := yy_ch_buf ?g @ ext\<rparr>) \<and>
      int moved + 1 < z \<and> yy_buf_size ?g \<le> z \<and> z \<le> max (yy_buf_size ?g) (2 * int moved + 2) \<and>
      int (length (yy_ch_buf ?g @ ext)) = z + 2"
      using Suc.prems r(2) by (intro Suc.IH) (simp_all add: mult.assoc)
    ultimately show ?thesis using True Suc.prems(3)
      apply (elim exE conjE)
      subgoal for z ext
        by (intro exI [of _ z] exI [of _ "?ext @ ext"]) auto
      done
  next
    case False
    then show ?thesis using Suc.prems by (intro exI [of _ "yy_buf_size g"] exI [of _ "[]"]) simp
  qed
qed

section \<open>The connection\<close>

fun read_chars :: "read_result \<Rightarrow> u8 list" where
  "read_chars (Chunk s) = s"
| "read_chars r = []"

definition stream :: "read_result list \<Rightarrow> u8 list" where
  "stream k = concat (map read_chars k)"

text \<open>No call of \<open>read\<close> fails or finds the end of the file before the characters are read.\<close>

definition live :: "read_result list \<Rightarrow> bool" where
  "live k \<longleftrightarrow> Failure \<notin> set k \<and> Chunk [] \<notin> set k"

lemma stream_simps [simp]: "stream [] = []" "stream (r # k) = read_chars r @ stream k"
  by (simp_all add: stream_def)

lemma live_Cons [simp]: "live []" "live (r # k) \<longleftrightarrow> r \<noteq> Failure \<and> r \<noteq> Chunk [] \<and> live k"
  by (auto simp: live_def)

lemma yy_input_live:
  "live k \<Longrightarrow> 0 < n \<Longrightarrow> stream k \<noteq> [] \<Longrightarrow>
     \<exists>s k'. yy_input n (k @ k2) = Ret (s, k' @ k2) \<and> s \<noteq> [] \<and> length s \<le> n \<and> live k' \<and> stream k = s @ stream k'"
proof (induction k)
  case (Cons r k)
  show ?case
  proof (cases r)
    case (Chunk s)
    let ?k = "if n < length s then Chunk (drop n s) # k else k"
    have "yy_input n ((r # k) @ k2) = Ret (take n s, ?k @ k2)" "stream (r # k) = take n s @ stream ?k"
      using Chunk by simp_all
    with Chunk Cons.prems show ?thesis by (intro exI [of _ "take n s"] exI [of _ ?k]) auto
  next
    case Interruption
    with Cons show ?thesis by simp
  next
    case Failure
    with Cons.prems show ?thesis by simp
  qed
qed simp

lemma yy_input_end: "live k \<Longrightarrow> stream k = [] \<Longrightarrow> yy_input n k = Ret ([], [])"
proof (induction k)
  case (Cons r k)
  then show ?case by (cases r) auto
qed simp

section \<open>The next buffer\<close>

lemma put_chars_end:
  "i = length x \<Longrightarrow> length s \<le> length r \<Longrightarrow> put_chars i s (x @ r) = Ret (x @ s @ drop (length s) r)"
  by (simp add: put_chars_def)

lemma get_next_more:
  assumes g: "wf_guts L g" "yy_ch_buf g = pre @ x @ 0 # 0 # post" "yytext_ptr g = length pre"
      "yy_c_buf_p g = length pre + length x + 1" "yy_n_chars g = length pre + length x" "yy_buffer_status g = 1"
    and k: "live k" "stream k \<noteq> []" and L: "length (x @ stream k) \<le> L" "int L < 2 ^ 30 - 1"
  shows "\<exists>g' s k' post'. yy_get_next_buffer junk g (k @ k2) = Ret (EOB_ACT_CONTINUE_SCAN, g', k' @ k2) \<and>
    s \<noteq> [] \<and> stream k = s @ stream k' \<and> live k' \<and> yy_ch_buf g' = x @ s @ 0 # 0 # post' \<and>
    yy_n_chars g' = length x + length s \<and> yytext_ptr g' = 0 \<and> wf_guts L g' \<and> yy_buffer_status g' = 1"
proof -
  define D where "D = drop (length x) (pre @ x @ 0 # 0 # post)"
  let ?g = "g\<lparr>yy_ch_buf := x @ D\<rparr>"
  have wf: "yy_start g = 1" "yy_fill_buffer g \<noteq> 0" "yy_is_our_buffer g \<noteq> 0"
    "int (length (yy_ch_buf g)) = yy_buf_size g + 2" "16384 \<le> yy_buf_size g"
    "yy_buf_size g \<le> max 16384 (2 * int L + 2)"
    using g(1) by (simp_all add: wf_guts_def)
  have D: "length x + length D = length (yy_ch_buf g)" using g(2) by (simp add: D_def)
  have x: "int (length x) \<le> int L" using L(1) by simp
  have mv: "yy_move 0 (length pre) (length x) (yy_ch_buf g) = Ret (x @ D)"
    using yy_move_front [of pre x "0 # 0 # post"] g by (simp add: D_def)
  obtain z ext where z: "yy_grow (Suc 31) junk (length x) ?g = Ret (?g\<lparr>yy_buf_size := z, yy_ch_buf := (x @ D) @ ext\<rparr>)"
    "int (length x) + 1 < z" "yy_buf_size g \<le> z" "z \<le> max (yy_buf_size g) (2 * int (length x) + 2)"
    "int (length ((x @ D) @ ext)) = z + 2"
    using yy_grow_room [of "length x" ?g 31 junk] x L(2) wf(3-5) D by auto
  let ?num = "min YY_READ_BUF_SIZE (nat (z - int (length x) - 1))"
  have "0 < ?num" using z(2) by (simp add: YY_READ_BUF_SIZE_def)
  from yy_input_live [OF k(1) this k(2), of k2] obtain s k' where
    i: "yy_input ?num (k @ k2) = Ret (s, k' @ k2)" "s \<noteq> []" "length s \<le> ?num" "live k'" "stream k = s @ stream k'"
    by blast
  have sx: "int (length s) + int (length x) + 1 \<le> z" using i(3) z(2) by simp linarith
  with z(5) have r: "length s + 2 \<le> length (D @ ext)" by simp
  let ?r = "drop (length s + 2) (D @ ext)"
  have p1: "put_chars (length x) s ((x @ D) @ ext) = Ret (x @ s @ drop (length s) (D @ ext))"
    using r put_chars_end [OF refl, of s "D @ ext" x] by simp
  have p2: "put_chars (length s + length x) [0, 0] (x @ s @ drop (length s) (D @ ext)) = Ret (x @ s @ 0 # 0 # ?r)"
    using r put_chars_end [of "length s + length x" "x @ s" "[0, 0]" "drop (length s) (D @ ext)"]
    by (simp del: drop_append)
  let ?g' = "?g\<lparr>yy_buf_size := z, yy_ch_buf := x @ s @ 0 # 0 # ?r, buffer_n_chars := length s,
    yy_n_chars := length s + length x, yytext_ptr := 0\<rparr>"
  have "yy_refill junk (length x) ?g (k @ k2) = Ret (?g\<lparr>yy_buf_size := z, yy_ch_buf := x @ s @ drop (length s) (D @ ext),
      buffer_n_chars := length s, yy_n_chars := length s\<rparr>, k' @ k2)"
    unfolding yy_refill_def yy_read_def using z(1) i(1) p1 g(6) by (simp add: Let_def del: drop_append)
  moreover have "\<not> z < int (length s + length x)" using sx by simp
  ultimately have "yy_get_next_buffer junk g (k @ k2) = Ret (EOB_ACT_CONTINUE_SCAN, ?g', k' @ k2)"
    using g(3-5) wf(2) i(2) p2 by (simp add: yy_get_next_buffer_def mv Let_def del: drop_append)
  moreover have "int (length (x @ s @ 0 # 0 # ?r)) = z + 2" using z(5) r by simp
  then have "wf_guts L ?g'" using wf z(3,4) x g(6) by (simp add: wf_guts_def del: drop_append)
  ultimately show ?thesis
    using i g(6) by (intro exI [of _ ?g'] exI [of _ s] exI [of _ k'] exI [of _ ?r]) (simp add: add.commute del: drop_append)
qed

text \<open>At the end of the file.\<close>

lemma get_next_end:
  assumes g: "wf_guts L g" "yy_ch_buf g = pre @ x @ 0 # 0 # post" "yytext_ptr g = length pre"
      "yy_c_buf_p g = length pre + length x + 1" "yy_n_chars g = length pre + length x" "yy_buffer_status g \<noteq> 0"
    and k: "live k" "stream k = []" and L: "length x \<le> L" "int L < 2 ^ 30 - 1"
  shows "if x = [] then \<exists>g' k'. yy_get_next_buffer junk g k = Ret (EOB_ACT_END_OF_FILE, g', k')
    else \<exists>g' k' post'. yy_get_next_buffer junk g k = Ret (EOB_ACT_LAST_MATCH, g', k') \<and>
      live k' \<and> stream k' = [] \<and> yy_ch_buf g' = x @ 0 # 0 # post' \<and>
      yy_n_chars g' = length x \<and> yytext_ptr g' = 0 \<and> wf_guts L g' \<and> yy_buffer_status g' = 2"
proof -
  define D where "D = drop (length x) (pre @ x @ 0 # 0 # post)"
  let ?g = "g\<lparr>yy_ch_buf := x @ D\<rparr>"
  have wf: "yy_start g = 1" "yy_fill_buffer g \<noteq> 0" "yy_is_our_buffer g \<noteq> 0"
    "int (length (yy_ch_buf g)) = yy_buf_size g + 2" "16384 \<le> yy_buf_size g"
    "yy_buf_size g \<le> max 16384 (2 * int L + 2)" "yy_buffer_status g \<le> 2"
    using g(1) by (simp_all add: wf_guts_def)
  have D: "length x + length D = length (yy_ch_buf g)" "2 \<le> length D" using g(2) by (simp_all add: D_def)
  have mv: "yy_move 0 (length pre) (length x) (yy_ch_buf g) = Ret (x @ D)"
    using yy_move_front [of pre x "0 # 0 # post"] g by (simp add: D_def)
  obtain z ext where z: "yy_grow (Suc 31) junk (length x) ?g = Ret (?g\<lparr>yy_buf_size := z, yy_ch_buf := (x @ D) @ ext\<rparr>)"
    "int (length x) + 1 < z" "yy_buf_size g \<le> z" "z \<le> max (yy_buf_size g) (2 * int (length x) + 2)"
    "int (length ((x @ D) @ ext)) = z + 2"
    using yy_grow_room [of "length x" ?g 31 junk] L wf(3-5) D by auto
  obtain z' E k' where rd: "yy_refill junk (length x) ?g k =
      Ret (?g\<lparr>yy_buf_size := z', yy_ch_buf := x @ E, yy_n_chars := 0, buffer_n_chars := 0\<rparr>, k')"
    "2 \<le> length E" "int (length x) \<le> z'" "int (length (x @ E)) = z' + 2" "yy_buf_size g \<le> z'"
    "z' \<le> max 16384 (2 * int L + 2)" "live k'" "stream k' = []"
  proof (cases "yy_buffer_status g = 2")
    case True
    then show ?thesis using D g(2) wf k
      by (intro that [where z' = "yy_buf_size g" and E = D and k' = k]) (simp_all add: yy_refill_def)
  next
    case False
    have "put_chars (length x) [] ((x @ D) @ ext) = Ret ((x @ D) @ ext)" by (simp add: put_chars_def)
    with False show ?thesis
      using z D wf yy_input_end [OF k] L
      by (intro that [where z' = z and E = "D @ ext" and k' = "[]"]) (simp_all add: yy_refill_def yy_read_def Let_def)
  qed
  have p2: "put_chars (length x) [0, 0] (x @ E) = Ret (x @ 0 # 0 # drop 2 E)"
    using rd(2) put_chars_end [of "length x" x "[0, 0]" E] by (simp add: numeral_2_eq_2)
  note gn = yy_get_next_buffer_def [of junk g k] mv
  show ?thesis
  proof (cases "x = []")
    case True
    obtain g2 where r: "yyrestart (?g\<lparr>yy_buf_size := z', yy_ch_buf := E, yy_n_chars := 0, buffer_n_chars := 0\<rparr>) = Ret g2"
      "yy_n_chars g2 = 0" "2 \<le> length (yy_ch_buf g2)" "0 \<le> yy_buf_size g2"
      using rd(2,3) True
      by (auto simp: yyrestart_def yy_init_buffer_def yy_flush_buffer_def yy_load_buffer_state_def Let_def
          put_chars_def byte_at_def)
    have "put_chars 0 [0, 0] (yy_ch_buf g2) = Ret (0 # 0 # drop 2 (yy_ch_buf g2))"
      using r(3) by (simp add: put_chars_def numeral_2_eq_2)
    moreover have "D = yy_ch_buf g" using True g(2) by (simp add: D_def)
    ultimately show ?thesis
      using True g(3-5) wf(2) rd(1) r by (simp add: gn Let_def)
  next
    case False
    let ?g' = "?g\<lparr>yy_buf_size := z', yy_ch_buf := x @ 0 # 0 # drop 2 E, yy_n_chars := length x, buffer_n_chars := 0,
      yy_buffer_status := 2, yytext_ptr := 0\<rparr>"
    have "yy_get_next_buffer junk g k = Ret (EOB_ACT_LAST_MATCH, ?g', k')"
      using False g(3-5) wf(2) rd(1,3) p2 by (simp add: gn Let_def)
    moreover have "wf_guts L ?g'" using wf rd(2-6) by (simp add: wf_guts_def)
    ultimately show ?thesis using False rd(7,8) by auto
  qed
qed

text \<open>Where the connection fails, the scanner ends the process.\<close>

lemma yy_input_fails: "live k \<Longrightarrow> stream k = [] \<Longrightarrow> yy_input n (k @ Failure # k') = Exit 2"
proof (induction k)
  case (Cons r k)
  then show ?case by (cases r) auto
qed simp

lemma get_next_fails:
  assumes g: "wf_guts L g" "yy_ch_buf g = pre @ x @ 0 # 0 # post" "yytext_ptr g = length pre"
      "yy_c_buf_p g = length pre + length x + 1" "yy_n_chars g = length pre + length x" "yy_buffer_status g \<noteq> 2"
    and k: "live k" "stream k = []" and L: "length x \<le> L" "int L < 2 ^ 30 - 1"
  shows "yy_get_next_buffer junk g (k @ Failure # k') = Exit 2"
proof -
  define D where "D = drop (length x) (pre @ x @ 0 # 0 # post)"
  let ?g = "g\<lparr>yy_ch_buf := x @ D\<rparr>"
  have wf: "yy_fill_buffer g \<noteq> 0" "yy_is_our_buffer g \<noteq> 0"
    "int (length (yy_ch_buf g)) = yy_buf_size g + 2" "16384 \<le> yy_buf_size g"
    using g(1) by (simp_all add: wf_guts_def)
  have D: "length x + length D = length (yy_ch_buf g)" using g(2) by (simp add: D_def)
  have mv: "yy_move 0 (length pre) (length x) (yy_ch_buf g) = Ret (x @ D)"
    using yy_move_front [of pre x "0 # 0 # post"] g by (simp add: D_def)
  obtain z ext where "yy_grow (Suc 31) junk (length x) ?g = Ret (?g\<lparr>yy_buf_size := z, yy_ch_buf := (x @ D) @ ext\<rparr>)"
    using yy_grow_room [of "length x" ?g 31 junk] L wf(2-4) D by auto
  then have "yy_refill junk (length x) ?g (k @ Failure # k') = Exit 2"
    using g(6) yy_input_fails [OF k] by (simp add: yy_refill_def yy_read_def Let_def)
  moreover have "x = [] \<Longrightarrow> D = yy_ch_buf g" using g(2) by (simp add: D_def)
  ultimately show ?thesis
    using g(3-5) wf(1) by (cases "x = []") (simp_all add: yy_get_next_buffer_def mv Let_def)
qed

end
