(* ===== verification/Scan_Stream.thy ===== *)
theory Scan_Stream
  imports Scan_Window Scan_Fill
begin

unbundle bit_operations_syntax

text \<open>
  The buffered scanner against the scanner of the whole stream: whatever pieces the connection
  delivers, the same tokens are found, and a packet is handled as soon as its last character has
  been read.
\<close>

section \<open>One token\<close>

text \<open>
  Between the calls of \<open>read\<close>: the connection is \<open>k\<close>, which is live, and then \<open>k2\<close>, of which
  nothing is known.
\<close>

definition readable :: "nat \<Rightarrow> read_result list \<Rightarrow> read_result list \<Rightarrow> yyguts_t \<Rightarrow> bool" where
  "readable L k k2 g \<longleftrightarrow> wf_guts L g \<and> live k \<and> (yy_buffer_status g = 2 \<longrightarrow> stream k = [] \<and> k2 = [])"

text \<open>Between two tokens, with \<open>rest\<close> still to scan.\<close>

definition resting :: "nat \<Rightarrow> read_result list \<Rightarrow> read_result list \<Rightarrow> yyguts_t \<Rightarrow> u8 list \<Rightarrow> bool" where
  "resting L k k2 g rest \<longleftrightarrow> readable L k k2 g \<and> length rest \<le> L \<and>
     (\<exists>pre u post. put_chars (yy_c_buf_p g) [yy_hold_char g] (yy_ch_buf g) = Ret (pre @ u @ 0 # 0 # post) \<and>
       yy_c_buf_p g = length pre \<and> yy_n_chars g = length pre + length u \<and> rest = u @ stream k)"

text \<open>The state in which the text \<open>t\<close> has been read and \<open>u\<close> is left in the buffer.\<close>

definition scanning :: "nat \<Rightarrow> read_result list \<Rightarrow> read_result list \<Rightarrow> yyguts_t \<Rightarrow> u8 list \<Rightarrow> u8 list \<Rightarrow> u8 list \<Rightarrow> bool" where
  "scanning L k k2 g pre t u \<longleftrightarrow> readable L k k2 g \<and> length (t @ u @ stream k) \<le> L \<and>
     (\<exists>post. yy_ch_buf g = pre @ t @ u @ 0 # 0 # post) \<and> yy_n_chars g = length pre + length t + length u"

text \<open>The last accepting state recorded for the text \<open>t\<close> at \<open>bp\<close>, after which the state is \<open>s\<close>.\<close>

definition recorded :: "nat \<Rightarrow> u8 list \<Rightarrow> nat \<Rightarrow> nat \<times> nat \<Rightarrow> bool" where
  "recorded bp t s acc \<longleftrightarrow> at_state t s \<and>
     (\<exists>a. \<forall>v. find_from 1 a bp (t @ v) = find_from s acc (bp + length t) v)"

lemma recorded_token:
  "recorded bp t s acc \<Longrightarrow> t @ v = c # cs \<Longrightarrow> rule_token c cs = (act, m) \<Longrightarrow>
     find_from s acc (bp + length t) v = Some (act, bp + m)"
  unfolding recorded_def by (metis find_from_rule)

lemma scan_found:
  assumes "yy_find_action (s, cp, last_accepting g) = (act, q)" "act \<noteq> 0" "act \<noteq> 6" "q < length (yy_ch_buf g)"
  shows "yy_scan (Suc n) junk (Find_action s cp bp) g k =
    Ret (Token act (take (q - bp) (drop bp ((yy_ch_buf g)[q := 0]))),
      g\<lparr>yytext_ptr := bp, yyleng := q - bp, yy_hold_char := yy_ch_buf g ! q,
        yy_ch_buf := (yy_ch_buf g)[q := 0], yy_c_buf_p := q\<rparr>, k)"
  using assms
  by (auto simp: yy_find_action_def yy_do_before_action_def byte_at_def split: if_splits)

lemma rule_token_act: "rule_token c cs = (act, m) \<Longrightarrow> act \<noteq> 0 \<and> act \<noteq> 6"
  by (auto simp: rule_token_def split: if_splits option.splits)

lemma put_char_back: "q < length buf \<Longrightarrow> put_chars q [buf ! q] (buf[q := 0]) = Ret buf"
  by (simp add: put_chars_def id_take_nth_drop [symmetric])

text \<open>A token found inside the buffer.\<close>

lemma scan_inside:
  assumes g: "scanning L k k2 g pre t u" and c: "t @ u @ stream k = c # cs" "rule_token c cs = (act, m)"
    and f: "yy_find_action (s, cp, last_accepting g) = (act, length pre + m)" and m: "m \<le> length (t @ u)"
  shows "\<exists>g'. yy_scan (Suc n) junk (Find_action s cp (length pre)) g (k @ k2) =
      Ret (Token act (take m (c # cs)), g', k @ k2) \<and>
    resting L k k2 g' (drop m (c # cs)) \<and> yytext_ptr g' + m = yy_c_buf_p g'"
proof -
  obtain post where b: "yy_ch_buf g = pre @ t @ u @ 0 # 0 # post" using g by (auto simp: scanning_def)
  let ?q = "length pre + m"
  let ?g = "g\<lparr>yytext_ptr := length pre, yyleng := m, yy_hold_char := yy_ch_buf g ! ?q,
    yy_ch_buf := (yy_ch_buf g)[?q := 0], yy_c_buf_p := ?q\<rparr>"
  have q: "?q < length (yy_ch_buf g)" using m b by simp
  have "take m (drop (length pre) ((yy_ch_buf g)[?q := 0])) = take m (t @ u)"
    using m by (simp add: b drop_update_swap take_update_cancel)
  then have tx: "take (?q - length pre) (drop (length pre) ((yy_ch_buf g)[?q := 0])) = take m (c # cs)"
    using m c(1) [symmetric] by simp
  have "yy_scan (Suc n) junk (Find_action s cp (length pre)) g (k @ k2) =
      Ret (Token act (take m (c # cs)), ?g, k @ k2)"
    using scan_found [OF f _ _ q, of n junk "length pre" "k @ k2"] rule_token_act [OF c(2)] tx by simp
  moreover have "resting L k k2 ?g (drop m (c # cs))"
  proof -
    let ?pre = "pre @ take m (t @ u)" and ?u = "drop m (t @ u)"
    have "yy_ch_buf g = ?pre @ ?u @ 0 # 0 # post" unfolding b by (metis append.assoc append_take_drop_id)
    then have "put_chars (yy_c_buf_p ?g) [yy_hold_char ?g] (yy_ch_buf ?g) = Ret (?pre @ ?u @ 0 # 0 # post)"
      using put_char_back [OF q] by simp
    moreover have "yy_c_buf_p ?g = length ?pre" using m by simp
    moreover have "yy_n_chars ?g = length ?pre + length ?u" using g m by (simp add: scanning_def)
    moreover have "drop m (c # cs) = ?u @ stream k" using m c(1) [symmetric] by simp
    moreover have "readable L k k2 ?g" using g by (simp add: scanning_def readable_def wf_guts_def)
    moreover have "length (drop m (c # cs)) \<le> L"
      using g c(1) unfolding scanning_def by (metis diff_le_self le_trans length_drop)
    ultimately show ?thesis unfolding resting_def by blast
  qed
  ultimately show ?thesis by auto
qed

section \<open>The end of the buffer\<close>

lemma recorded_step:
  assumes "recorded bp t s acc" "moves s (class_of c) \<in> {6, 9, 10, 11}" "i = bp + length t"
  shows "recorded bp (t @ [c]) (moves s (class_of c)) (if yy_accept ! s \<noteq> 0 then (s, i) else acc)"
proof -
  have s: "open_run 1 t = Some s" "s \<in> open_states"
    using assms(1,2) open_run_state [of 1 t s] by (auto simp: recorded_def at_state_def moves_def)
  then have "at_state (t @ [c]) (moves s (class_of c))"
    using assms(2) by (simp add: at_state_def open_run_append Let_def)
  moreover have "yy_next s c = Some (moves s (class_of c))" using s(2) by (intro next_moves) auto
  moreover have "yy_base ! moves s (class_of c) \<noteq> 14" using assms(2) by auto
  moreover obtain a where "find_from 1 a bp (t @ c # v) = find_from s acc (bp + length t) (c # v)" for v
    using assms(1) by (auto simp: recorded_def)
  ultimately have "find_from 1 a bp ((t @ [c]) @ v) = find_from (moves s (class_of c))
      (if yy_accept ! s \<noteq> 0 then (s, i) else acc) (bp + length (t @ [c])) v" for v
    using assms(3) by (simp add: find_from_def Let_def)
  with \<open>at_state (t @ [c]) (moves s (class_of c))\<close> show ?thesis unfolding recorded_def by blast
qed

lemma yy_previous_text:
  assumes "yy_start g = 1" "yy_ch_buf g = pre @ t @ rest" "yytext_ptr g = length pre"
    "yy_c_buf_p g = length pre + length t" "at_state t s"
  shows "\<exists>acc. yy_previous g = Ret (s, set_accepting acc g) \<and> recorded (length pre) t s acc"
proof -
  obtain acc where acc: "yy_get_previous_state 1 (last_accepting g) (length pre) t = Some (s, acc)"
    "\<forall>v. find_from 1 (last_accepting g) (length pre) (t @ v) = find_from s acc (length pre + length t) v"
    using at_state_previous [OF assms(5), of "last_accepting g" "length pre"] by blast
  then have "recorded (length pre) t s acc" using assms(5) by (auto simp: recorded_def)
  with acc(1) assms(1-4) show ?thesis by (intro exI [of _ acc]) (simp add: yy_previous_def)
qed

text \<open>The state at the action for the end of the buffer, met at position \<open>i\<close>.\<close>

definition eob_state :: "nat \<Rightarrow> nat \<Rightarrow> yyguts_t \<Rightarrow> yyguts_t" where
  "eob_state i bp g = g\<lparr>yy_last_accepting_state := 3, yy_last_accepting_cpos := i + 1, yytext_ptr := bp,
     yyleng := i + 1 - bp, yy_hold_char := yy_ch_buf g ! (i + 1), yy_c_buf_p := i + 1,
     yy_buffer_status := if yy_buffer_status g = 0 then 1 else yy_buffer_status g\<rparr>"

definition resume :: "nat \<Rightarrow> (nat \<Rightarrow> u8) \<Rightarrow> resumption \<times> yyguts_t \<times> read_result list \<Rightarrow>
    (token \<times> yyguts_t \<times> read_result list) outcome" where
  "resume n junk = (\<lambda>(r, g, k). case r of
     Resume s cp \<Rightarrow> yy_scan n junk (Match s cp (yytext_ptr g)) g k
   | Resolve s cp \<Rightarrow> yy_scan n junk (Find_action s cp (yytext_ptr g)) g k
   | End_of_file \<Rightarrow> Ret (Eof, g, k))"

lemma scan_eob:
  assumes "i + 1 < length (yy_ch_buf g)" "yy_buffer_status g = 0 \<longrightarrow> buffer_n_chars g = yy_n_chars g"
  shows "yy_scan (Suc n) junk (Find_action 13 (i + 2) bp) (set_accepting (3, i + 1) g) k =
    obind (if i + 1 \<le> yy_n_chars g
      then obind (yy_really_NUL (i - bp) (eob_state i bp g)) (\<lambda>(r, g). Ret (r, g, k))
      else yy_next_buffer junk (i - bp) (eob_state i bp g) k) (resume n junk)"
  using assms
  by (simp add: yy_do_before_action_def byte_at_def set_accepting_def yy_end_of_buffer_def Let_def
      eob_state_def resume_def del: obind_if)

lemma eob_state_simps [simp]:
  "yy_ch_buf (eob_state i bp g) = yy_ch_buf g" "yy_n_chars (eob_state i bp g) = yy_n_chars g"
  "yytext_ptr (eob_state i bp g) = bp" "yy_c_buf_p (eob_state i bp g) = i + 1"
  "yy_start (eob_state i bp g) = yy_start g" "yy_buffer_status (eob_state i bp g) \<noteq> 0"
  by (simp_all add: eob_state_def)

lemma set_accepting_simps [simp]:
  "yy_ch_buf (set_accepting acc g) = yy_ch_buf g" "yy_n_chars (set_accepting acc g) = yy_n_chars g"
  "yytext_ptr (set_accepting acc g) = yytext_ptr g" "yy_c_buf_p (set_accepting acc g) = yy_c_buf_p g"
  "last_accepting (set_accepting acc g) = acc" "readable L k k2 (set_accepting acc g) = readable L k k2 g"
  "set_accepting a (set_accepting b g) = set_accepting a g"
  by (simp_all add: set_accepting_def readable_def wf_guts_def)

lemma readable_simps [simp]:
  "readable L k k2 (g\<lparr>yy_c_buf_p := p\<rparr>) = readable L k k2 g"
  "readable L k k2 g \<Longrightarrow> readable L k k2 (eob_state i bp g)"
  by (auto simp: readable_def wf_guts_def eob_state_def split: if_splits)

lemma scanning_accepting [simp]:
  "scanning L k k2 (set_accepting acc g) pre t u = scanning L k k2 g pre t u"
  "scanning L k k2 (g\<lparr>yy_c_buf_p := p\<rparr>) pre t u = scanning L k k2 g pre t u"
  "scanning L k k2 g pre t u \<Longrightarrow> scanning L k k2 (eob_state i bp g) pre t u"
  by (auto simp: scanning_def)

lemma scanning_step: "scanning L k k2 g pre t (c # u) \<Longrightarrow> scanning L k k2 g pre (t @ [c]) u"
  by (simp add: scanning_def)

lemma scanning_start: "scanning L k k2 g pre t u \<Longrightarrow> yy_start g = 1"
  by (simp add: scanning_def readable_def wf_guts_def)

lemma NUL_trans:
  "s \<in> {1, 4, 6, 9, 10, 11} \<Longrightarrow> yy_try_NUL_trans s = Some (if s = 1 then 4 else if s = 6 \<or> s = 9 then 9 else 0)"
  by (auto simp: yy_try_NUL_trans_def follow_moves moves_def)

lemma class_zero [simp]: "class_of 0 = 1"
  by (simp add: class_of_def is_hex_def is_digit_def)

lemma open_run_inside: "open_run s t = Some s' \<Longrightarrow> s \<in> {6, 9, 10, 11} \<Longrightarrow> s' \<in> {6, 9, 10, 11}"
proof (induction t arbitrary: s)
  case (Cons c t)
  let ?s = "moves s (class_of c)"
  have "?s \<in> {6, 9, 10, 11}" "open_run ?s t = Some s'"
    using Cons.prems(1) by (simp_all add: Let_def split: if_split_asm)
  then show ?case using Cons.IH by blast
qed simp

lemma at_state_start: "at_state t 1 \<longleftrightarrow> t = []"
proof (cases t)
  case (Cons c ds)
  have "open_run 1 (c # ds) \<noteq> Some 1"
    using open_run_inside [of "moves 1 (class_of c)" ds 1] by (auto simp: Let_def)
  with Cons show ?thesis by (simp add: at_state_def)
qed (simp add: at_state_def)

text \<open>What the action does with a NUL of the input.\<close>

lemma really_NUL:
  assumes g: "scanning L k k2 g pre t (0 # w)" and s: "at_state t s" and i: "i = length pre + length t"
  shows "\<exists>g'. yytext_ptr g' = length pre \<and>
    ((\<exists>s'. yy_really_NUL (length t) (eob_state i (length pre) g) = Ret (Resume s' (i + 1), g') \<and>
      scanning L k k2 g' pre (t @ [0]) w \<and> recorded (length pre) (t @ [0]) s' (last_accepting g')) \<or>
     yy_really_NUL (length t) (eob_state i (length pre) g) = Ret (Resolve s i, g') \<and>
      scanning L k k2 g' pre t (0 # w) \<and>
      (\<exists>a. \<forall>v. find_from 1 a (length pre) (t @ 0 # v) = Some (yy_find_action (s, i, last_accepting g'))))"
proof -
  let ?g = "(eob_state i (length pre) g)\<lparr>yy_c_buf_p := i\<rparr>"
  obtain post where b: "yy_ch_buf g = pre @ t @ (0 # w) @ 0 # 0 # post" using g by (auto simp: scanning_def)
  have "\<exists>acc. yy_previous ?g = Ret (s, set_accepting acc ?g) \<and> recorded (length pre) t s acc"
    by (rule yy_previous_text [where rest = "(0 # w) @ 0 # 0 # post"])
      (use g s i b in \<open>simp_all add: scanning_start\<close>)
  then obtain acc where p: "yy_previous ?g = Ret (s, set_accepting acc ?g)" "recorded (length pre) t s acc" by blast
  let ?acc = "if yy_accept ! s \<noteq> 0 then (s, i) else acc"
  let ?h = "set_accepting ?acc ?g"
  have run: "yy_really_NUL (length t) (eob_state i (length pre) g) =
      (case yy_try_NUL_trans s of None \<Rightarrow> Pending
       | Some s' \<Rightarrow> if s' \<noteq> 0 then Ret (Resume s' (i + 1), ?h\<lparr>yy_c_buf_p := i + 1\<rparr>) else Ret (Resolve s i, ?h))"
    by (cases "yy_accept ! s = 0"; cases "yy_try_NUL_trans s")
      (simp_all add: yy_really_NUL_def i [symmetric] p(1) Let_def)
  have sc: "scanning L k k2 ?h pre t (0 # w)" "yytext_ptr ?h = length pre" using g by simp_all
  let ?h' = "?h\<lparr>yy_c_buf_p := i + 1\<rparr>"
  have sc': "scanning L k k2 ?h' pre (t @ [0]) w" "yytext_ptr ?h' = length pre" "last_accepting ?h' = ?acc"
    using scanning_step [OF sc(1)] sc(2) by simp_all
  have s_in: "s \<in> {1, 4, 6, 9, 10, 11}" using s open_run_state [of 1 t s] by (auto simp: at_state_def)
  consider "s = 1" | "s = 6 \<or> s = 9" | "s = 4 \<or> s = 10 \<or> s = 11" using s_in by auto
  then show ?thesis
  proof cases
    case 1
    with s have "t = []" using at_state_start by blast
    moreover have "recorded (length pre) [0] 4 acc" for acc
    proof -
      have "find_from 1 a n ([0] @ v) = find_from 4 acc (n + length [0 :: u8]) v" for a n v
        using find_from_rule [of 0 v 4 1 a n] by (simp add: rule_token_def find_from_4)
      then show ?thesis by (auto simp: recorded_def at_state_def)
    qed
    ultimately have "recorded (length pre) (t @ [0]) 4 (last_accepting ?h')" by simp
    moreover have "yy_really_NUL (length t) (eob_state i (length pre) g) = Ret (Resume 4 (i + 1), ?h')"
      using 1 run NUL_trans [OF s_in] by simp
    ultimately show ?thesis using sc'(1,2) by blast
  next
    case 2
    then have "moves s (class_of 0) = 9" by (auto simp: moves_def)
    then have "recorded (length pre) (t @ [0]) 9 (last_accepting ?h')"
      using recorded_step [OF p(2), of 0 i] i sc'(3) by simp
    moreover have "yy_really_NUL (length t) (eob_state i (length pre) g) = Ret (Resume 9 (i + 1), ?h')"
      using 2 run NUL_trans [OF s_in] by auto
    ultimately show ?thesis using sc'(1,2) by blast
  next
    case 3
    then have "yy_next s 0 = Some 13" by (auto simp: next_moves moves_def)
    then have "find_from s acc i (0 # v) = Some (yy_find_action (s, i, ?acc))" for v
      by (simp add: find_from_def Let_def yy_find_action_def)
    then have "\<exists>a. \<forall>v. find_from 1 a (length pre) (t @ 0 # v) = Some (yy_find_action (s, i, last_accepting ?h))"
      unfolding set_accepting_simps using p(2) i unfolding recorded_def by metis
    moreover have "yy_really_NUL (length t) (eob_state i (length pre) g) = Ret (Resolve s i, ?h)"
      using 3 run NUL_trans [OF s_in] by auto
    ultimately show ?thesis using sc by blast
  qed
qed

text \<open>What it does at the end of the buffer: with more to read, and at the end of the file.\<close>

lemma eob_ready:
  assumes "scanning L k k2 g pre t []" "i = length pre + length t" "G = eob_state i (length pre) g"
  shows "wf_guts L G" "\<exists>post. yy_ch_buf G = pre @ t @ 0 # 0 # post" "yytext_ptr G = length pre"
    "yy_c_buf_p G = length pre + length t + 1" "yy_n_chars G = length pre + length t"
    "yy_buffer_status G \<noteq> 0" "yy_buffer_status G \<noteq> 2 \<or> stream k = []" "yy_buffer_status G \<le> 2" "live k"
    "length (t @ stream k) \<le> L"
  using assms by (auto simp: scanning_def readable_def wf_guts_def eob_state_def)

lemma next_buffer_more:
  assumes g: "scanning L k k2 g pre t []" and s: "at_state t s" and i: "i = length pre + length t"
    and k: "stream k \<noteq> []" and L: "int L < 2 ^ 30 - 1"
  shows "\<exists>g' x k'. yy_next_buffer junk (length t) (eob_state i (length pre) g) (k @ k2) = Ret (Resume s (length t), g', k' @ k2) \<and>
    yytext_ptr g' = 0 \<and> x \<noteq> [] \<and> stream k = x @ stream k' \<and> scanning L k' k2 g' [] t x \<and> recorded 0 t s (last_accepting g')"
proof -
  let ?G = "eob_state i (length pre) g"
  note e = eob_ready [OF g i refl]
  obtain post where b: "yy_ch_buf ?G = pre @ t @ 0 # 0 # post" using e(2) by blast
  have one: "yy_buffer_status ?G = 1" using e(6-8) k by linarith
  from get_next_more [OF e(1) b e(3-5) one e(9) k e(10) L, of junk k2] obtain g' x k' post' where
    n: "yy_get_next_buffer junk ?G (k @ k2) = Ret (EOB_ACT_CONTINUE_SCAN, g', k' @ k2)"
    "x \<noteq> []" "stream k = x @ stream k'" "live k'" "yy_ch_buf g' = t @ x @ 0 # 0 # post'"
    "yy_n_chars g' = length t + length x" "yytext_ptr g' = 0" "wf_guts L g'" "yy_buffer_status g' = 1" by blast
  let ?g = "g'\<lparr>yy_c_buf_p := length t\<rparr>"
  have "\<exists>acc. yy_previous ?g = Ret (s, set_accepting acc ?g) \<and> recorded (length ([] :: u8 list)) t s acc"
    by (rule yy_previous_text [where rest = "x @ 0 # 0 # post'"]) (use n s in \<open>simp_all add: wf_guts_def\<close>)
  then obtain acc where p: "yy_previous ?g = Ret (s, set_accepting acc ?g)" "recorded 0 t s acc" by auto
  have "yy_next_buffer junk (length t) ?G (k @ k2) = Ret (Resume s (length t), set_accepting acc ?g, k' @ k2)"
    by (simp add: yy_next_buffer_def n(1,7) p(1))
  moreover have "scanning L k' k2 (set_accepting acc ?g) [] t x"
    unfolding scanning_accepting using n e(10) by (simp add: scanning_def readable_def)
  moreover have "yytext_ptr (set_accepting acc ?g) = 0" "recorded 0 t s (last_accepting (set_accepting acc ?g))"
    using n(7) p(2) by simp_all
  ultimately show ?thesis using n(2,3) by blast
qed

lemma next_buffer_last:
  assumes g: "scanning L k [] g pre t []" and s: "at_state t s" and i: "i = length pre + length t"
    and k: "stream k = []" and L: "int L < 2 ^ 30 - 1" and t: "t \<noteq> []"
  shows "\<exists>g' k'. yy_next_buffer junk (length t) (eob_state i (length pre) g) k = Ret (Resolve s (length t), g', k') \<and>
    yytext_ptr g' = 0 \<and> stream k' = [] \<and> scanning L k' [] g' [] t [] \<and> recorded 0 t s (last_accepting g')"
proof -
  let ?G = "eob_state i (length pre) g"
  note e = eob_ready [OF g i refl]
  obtain post where b: "yy_ch_buf ?G = pre @ t @ 0 # 0 # post" using e(2) by blast
  have l: "length t \<le> L" using e(10) by simp
  from get_next_end [OF e(1) b e(3-6,9) k l L, of junk] t obtain g' k' post' where
    n: "yy_get_next_buffer junk ?G k = Ret (EOB_ACT_LAST_MATCH, g', k')"
    "live k'" "stream k' = []" "yy_ch_buf g' = t @ 0 # 0 # post'"
    "yy_n_chars g' = length t" "yytext_ptr g' = 0" "wf_guts L g'" "yy_buffer_status g' = 2" by auto
  let ?g = "g'\<lparr>yy_c_buf_p := length t\<rparr>"
  have "\<exists>acc. yy_previous ?g = Ret (s, set_accepting acc ?g) \<and> recorded (length ([] :: u8 list)) t s acc"
    by (rule yy_previous_text [where rest = "0 # 0 # post'"]) (use n s in \<open>simp_all add: wf_guts_def\<close>)
  then obtain acc where p: "yy_previous ?g = Ret (s, set_accepting acc ?g)" "recorded 0 t s acc" by auto
  have "yy_next_buffer junk (length t) ?G k = Ret (Resolve s (length t), set_accepting acc ?g, k')"
    by (simp add: yy_next_buffer_def n(1,5,6) p(1))
  moreover have "scanning L k' [] (set_accepting acc ?g) [] t []"
    unfolding scanning_accepting using n l by (simp add: scanning_def readable_def)
  moreover have "yytext_ptr (set_accepting acc ?g) = 0" "recorded 0 t s (last_accepting (set_accepting acc ?g))"
    using n(6) p(2) by simp_all
  ultimately show ?thesis using n(3) by blast
qed

lemma next_buffer_eof:
  assumes g: "scanning L k [] g pre [] []" and i: "i = length pre" and k: "stream k = []" and L: "int L < 2 ^ 30 - 1"
  shows "\<exists>g' k'. yy_next_buffer junk 0 (eob_state i (length pre) g) k = Ret (End_of_file, g', k')"
proof -
  let ?G = "eob_state i (length pre) g"
  have i': "i = length pre + length []" using i by simp
  note e = eob_ready [OF g i' refl]
  obtain post where b: "yy_ch_buf ?G = pre @ [] @ 0 # 0 # post" using e(2) by auto
  from get_next_end [OF e(1) b e(3-6,9) k _ L, of junk] show ?thesis
    by (auto simp: yy_next_buffer_def)
qed

section \<open>One token\<close>

text \<open>
  \<open>undecided\<close> texts are those after which the scanner looks for more: what is read so far of a
  packet, and a NUL.
\<close>

definition undecided :: "u8 list \<Rightarrow> bool" where
  "undecided t \<longleftrightarrow> (\<exists>s. at_state t s)"

text \<open>The result of scanning: the token \<open>act\<close>, \<open>text\<close> in front of \<open>rest\<close>.\<close>

definition found :: "nat \<Rightarrow> read_result list \<Rightarrow> nat \<Rightarrow> u8 list \<Rightarrow> u8 list \<Rightarrow>
    (token \<times> yyguts_t \<times> read_result list) outcome \<Rightarrow> bool" where
  "found L k2 act txt rest r \<longleftrightarrow> (\<exists>g k. r = Ret (Token act txt, g, k @ k2) \<and>
     resting L k k2 g rest \<and> yytext_ptr g + length txt = yy_c_buf_p g)"

lemma scan_resolve:
  assumes g: "scanning L k k2 g pre t u" and c: "t @ u @ stream k = c # cs" "rule_token c cs = (act, m)"
    and f: "\<And>v. v = [] \<or> v = stream k \<Longrightarrow> \<exists>a. find_from 1 a (length pre) (t @ u @ v) = Some (yy_find_action (s, cp, last_accepting g))"
    and u: "t @ u \<noteq> []"
  shows "found L k2 act (take m (c # cs)) (drop m (c # cs))
    (yy_scan (Suc n) junk (Find_action s cp (length pre)) g (k @ k2))"
proof -
  obtain a where "find_from 1 a (length pre) (c # cs) = Some (yy_find_action (s, cp, last_accepting g))"
    using f [of "stream k"] c(1) by auto
  with find_from_rule [OF c(2), of a "length pre"]
  have fa: "yy_find_action (s, cp, last_accepting g) = (act, length pre + m)" by simp
  obtain d ds where d: "t @ u = d # ds" using u by (cases "t @ u") auto
  obtain act' m' where r: "rule_token d ds = (act', m')" by fastforce
  obtain a where "find_from 1 a (length pre) (d # ds) = Some (yy_find_action (s, cp, last_accepting g))"
    using f [of "[]"] d by auto
  with find_from_rule [OF r, of a "length pre"] fa have "m = m'" by simp
  with rule_token_length [OF r] d have m: "m \<le> length (t @ u)" by simp
  have "m \<le> length (c # cs)" using rule_token_length [OF c(2)] by simp
  then have "length (take m (c # cs)) = m" by simp
  with scan_inside [OF g c fa m, of n junk] show ?thesis unfolding found_def by (metis (no_types))
qed

lemma scan_token:
  assumes L: "int L < 2 ^ 30 - 1"
  shows "scanning L k k2 g pre t u \<Longrightarrow> recorded (length pre) t s (last_accepting g) \<Longrightarrow>
    k2 = [] \<or> \<not> undecided (t @ u @ stream k) \<Longrightarrow> t @ u @ stream k = c # cs \<Longrightarrow> rule_token c cs = (act, m) \<Longrightarrow>
    2 * length u + 4 * length (stream k) + 3 \<le> n \<Longrightarrow>
    found L k2 act (take m (c # cs)) (drop m (c # cs))
      (yy_scan n junk (Match s (length pre + length t) (length pre)) g (k @ k2))"
proof (induction n arbitrary: k g pre t u s rule: less_induct)
  case (less n)
  note g = less.prems(1) and rec = less.prems(2) and c = less.prems(4,5)
  let ?cp = "length pre + length t"
  obtain n' where n: "n = Suc (Suc n')" "0 < n'" using less.prems(6) by (cases n; cases "n - 1") auto
  obtain n'' where n'': "n' = Suc n''" using n(2) by (cases n') auto
  have at: "at_state t s" using rec by (simp add: recorded_def)
  then have s: "s \<in> {1, 4, 6, 9, 10, 11}" using open_run_state [of 1 t s] by (auto simp: at_state_def)
  obtain a where a: "find_from 1 a (length pre) (t @ v) = find_from s (last_accepting g) ?cp v" for v
    using rec by (auto simp: recorded_def)
  obtain post where b: "yy_ch_buf g = (pre @ t) @ u @ 0 # 0 # post" using g by (auto simp: scanning_def)
  from match_window [OF s, of u "pre @ t" post "last_accepting g"] consider
      s' acc' cp' where "u \<noteq> []" "yy_match_buffer (yy_ch_buf g) s (last_accepting g) ?cp = Ret (s', acc', cp')"
        "\<forall>v. yy_match s (last_accepting g) ?cp (u @ v) = Some (s', cp', acc')"
    | t2 w s' where "u = t2 @ w" "w = [] \<or> hd w = 0" "open_run s t2 = Some s'"
        "yy_match_buffer (yy_ch_buf g) s (last_accepting g) ?cp =
          Ret (13, (3, ?cp + length t2 + 1), ?cp + length t2 + 2)"
    unfolding b length_append by blast
  then show ?case
  proof cases
    case 1
    have "yy_scan n junk (Match s ?cp (length pre)) g (k @ k2) =
        yy_scan (Suc n') junk (Find_action s' cp' (length pre)) (set_accepting acc' g) (k @ k2)"
      using 1(2) n(1) by simp
    moreover have "find_from 1 a (length pre) (t @ u @ v) =
        Some (yy_find_action (s', cp', last_accepting (set_accepting acc' g)))" for v
      using a [of "u @ v"] 1(3) by (simp add: find_from_def)
    moreover have "scanning L k k2 (set_accepting acc' g) pre t u" using g by simp
    ultimately show ?thesis using scan_resolve [OF _ c] 1(1) by (metis append_is_Nil_conv)
  next
    case 2
    define i where "i = length pre + length (t @ t2)"
    have at': "at_state (t @ t2) s'"
    proof (cases "open_run 1 t = Some s")
      case True
      with 2(3) show ?thesis by (simp add: at_state_def open_run_append)
    next
      case False
      with at have "t = [0]" "s = 4" by (auto simp: at_state_def)
      with 2(3) show ?thesis by (cases t2) (auto simp: at_state_def moves_def split: if_splits)
    qed
    have g2: "scanning L k k2 g pre (t @ t2) w" using g 2(1) by (simp add: scanning_def)
    have ch: "(t @ t2) @ w @ stream k = c # cs" using c(1) 2(1) by simp
    have nc: "yy_n_chars g = i + length w" using g2 by (simp add: scanning_def i_def)
    have st: "yy_buffer_status g = 0 \<longrightarrow> buffer_n_chars g = yy_n_chars g" "i + 1 < length (yy_ch_buf g)"
      using g 2(1) b by (simp_all add: scanning_def readable_def wf_guts_def i_def)
    have "yy_scan n junk (Match s ?cp (length pre)) g K =
        yy_scan (Suc n') junk (Find_action 13 (i + 2) (length pre)) (set_accepting (3, i + 1) g) K" for K
      using 2(4) n(1) by (simp add: i_def add.assoc)
    note run = this [unfolded scan_eob [OF st(2,1)], of "k @ k2"]
    have l: "i - length pre = length (t @ t2)" by (simp add: i_def)
    show ?thesis
    proof (cases w)
      case (Cons z w')
      with 2(2) have w: "w = 0 # w'" by simp
      have le: "i + 1 \<le> yy_n_chars g" using nc w by simp
      from really_NUL [OF g2 [unfolded w] at' i_def] consider
          g' s1 where "yytext_ptr g' = length pre"
            "yy_really_NUL (length (t @ t2)) (eob_state i (length pre) g) = Ret (Resume s1 (i + 1), g')"
            "scanning L k k2 g' pre ((t @ t2) @ [0]) w'" "recorded (length pre) ((t @ t2) @ [0]) s1 (last_accepting g')"
        | g' a' where "yytext_ptr g' = length pre"
            "yy_really_NUL (length (t @ t2)) (eob_state i (length pre) g) = Ret (Resolve s' i, g')"
            "scanning L k k2 g' pre (t @ t2) (0 # w')"
            "\<forall>v. find_from 1 a' (length pre) ((t @ t2) @ 0 # v) = Some (yy_find_action (s', i, last_accepting g'))"
        by blast
      then show ?thesis
      proof cases
        case 1
        have "yy_scan n junk (Match s ?cp (length pre)) g (k @ k2) =
            yy_scan n' junk (Match s1 (length pre + length ((t @ t2) @ [0])) (length pre)) g' (k @ k2)"
          using run le l 1(1,2) by (simp add: resume_def i_def)
        moreover have "((t @ t2) @ [0]) @ w' @ stream k = t @ u @ stream k" using w 2(1) by simp
        moreover have "n' < n" "2 * length w' + 4 * length (stream k) + 3 \<le> n'" using less.prems(6) n(1) 2(1) w by auto
        ultimately show ?thesis using less.IH [OF _ 1(3,4)] less.prems(3-5) by metis
      next
        case 2
        have "yy_scan n junk (Match s ?cp (length pre)) g (k @ k2) =
            yy_scan (Suc n'') junk (Find_action s' i (length pre)) g' (k @ k2)"
          using run le l 2(1,2) unfolding n'' by (simp add: resume_def del: yy_scan.simps)
        moreover have "found L k2 act (take m (c # cs)) (drop m (c # cs))
            (yy_scan (Suc n'') junk (Find_action s' i (length pre)) g' (k @ k2))"
        proof (rule scan_resolve [OF 2(3) _ c(2)])
          show "(t @ t2) @ (0 # w') @ stream k = c # cs" using ch w by simp
          show "\<exists>a. find_from 1 a (length pre) ((t @ t2) @ (0 # w') @ v) =
              Some (yy_find_action (s', i, last_accepting g'))" for v
            using 2(4) by (metis append_Cons)
        qed simp
        ultimately show ?thesis by (simp only:)
      qed
    next
      case Nil
      have gt: "\<not> i + 1 \<le> yy_n_chars g" using nc Nil by simp
      show ?thesis
      proof (cases "stream k = []")
        case False
        from next_buffer_more [OF g2 [unfolded Nil] at' i_def False L, of junk] obtain g' x k' where
          m: "yy_next_buffer junk (length (t @ t2)) (eob_state i (length pre) g) (k @ k2) =
              Ret (Resume s' (length (t @ t2)), g', k' @ k2)"
            "yytext_ptr g' = 0" "x \<noteq> []" "stream k = x @ stream k'" "scanning L k' k2 g' [] (t @ t2) x"
            "recorded 0 (t @ t2) s' (last_accepting g')" by blast
        have "yy_scan n junk (Match s ?cp (length pre)) g (k @ k2) =
            yy_scan n' junk (Match s' (length ([] :: u8 list) + length (t @ t2)) (length ([] :: u8 list))) g' (k' @ k2)"
          using run gt l m(1,2) by (simp add: resume_def)
        moreover have "(t @ t2) @ x @ stream k' = t @ u @ stream k" using Nil 2(1) m(4) by simp
        moreover have "n' < n" "2 * length x + 4 * length (stream k') + 3 \<le> n'"
          using less.prems(6) n(1) m(3,4) by (cases x; simp)+
        moreover have "recorded (length ([] :: u8 list)) (t @ t2) s' (last_accepting g')" using m(6) by simp
        ultimately show ?thesis using less.IH [OF _ m(5)] less.prems(3-5) by metis
      next
        case True
        then have "undecided (t @ u @ stream k)" using at' 2(1) Nil by (auto simp: undecided_def)
        with less.prems(3) have k2: "k2 = []" by simp
        have t: "t @ t2 \<noteq> []" using ch Nil True by auto
        from next_buffer_last [OF g2 [unfolded Nil k2] at' i_def True L t, of junk] obtain g' k' where
          m: "yy_next_buffer junk (length (t @ t2)) (eob_state i (length pre) g) k =
              Ret (Resolve s' (length (t @ t2)), g', k')"
            "yytext_ptr g' = 0" "stream k' = []" "scanning L k' [] g' [] (t @ t2) []"
            "recorded 0 (t @ t2) s' (last_accepting g')" by blast
        have "yy_scan n junk (Match s ?cp (length pre)) g (k @ k2) =
            yy_scan (Suc n'') junk (Find_action s' (length (t @ t2)) (length ([] :: u8 list))) g' (k' @ [])"
          using run gt l m(1,2) k2 unfolding n'' by (simp add: resume_def del: yy_scan.simps)
        moreover have "found L [] act (take m (c # cs)) (drop m (c # cs))
            (yy_scan (Suc n'') junk (Find_action s' (length (t @ t2)) (length ([] :: u8 list))) g' (k' @ []))"
        proof (rule scan_resolve [OF m(4) _ c(2)])
          show "(t @ t2) @ [] @ stream k' = c # cs" using ch Nil True m(3) by simp
          obtain a' where "find_from 1 a' 0 ((t @ t2) @ []) = find_from s' (last_accepting g') (length (t @ t2)) []"
            using m(5) unfolding recorded_def by (metis append_Nil add_0)
          then have "find_from 1 a' (length ([] :: u8 list)) ((t @ t2) @ [] @ v) =
              Some (yy_find_action (s', length (t @ t2), last_accepting g'))" if "v = [] \<or> v = stream k'" for v
            using that m(3) by (auto simp: find_from_def)
          then show "\<exists>a. find_from 1 a (length ([] :: u8 list)) ((t @ t2) @ [] @ v) =
              Some (yy_find_action (s', length (t @ t2), last_accepting g'))" if "v = [] \<or> v = stream k'" for v
            using that by blast
          show "(t @ t2) @ [] \<noteq> []" using t by simp
        qed
        ultimately show ?thesis unfolding k2 by (simp only:)
      qed
    qed
  qed
qed

lemma put_chars_length: "put_chars i s buf = Ret b \<Longrightarrow> length b = length buf"
  by (auto simp: put_chars_def split: if_splits)

lemma scanning_rest:
  assumes "resting L k k2 g rest"
  obtains pre u post where "put_chars (yy_c_buf_p g) [yy_hold_char g] (yy_ch_buf g) = Ret (pre @ u @ 0 # 0 # post)"
    "yy_c_buf_p g = length pre" "rest = u @ stream k"
    "scanning L k k2 (g\<lparr>yy_ch_buf := pre @ u @ 0 # 0 # post\<rparr>) pre [] u"
proof -
  obtain pre u post where r: "put_chars (yy_c_buf_p g) [yy_hold_char g] (yy_ch_buf g) = Ret (pre @ u @ 0 # 0 # post)"
    "yy_c_buf_p g = length pre" "yy_n_chars g = length pre + length u" "rest = u @ stream k"
    using assms by (auto simp: resting_def)
  have "length (pre @ u @ 0 # 0 # post) = length (yy_ch_buf g)"
    using put_chars_length [OF r(1)] by simp
  then have "scanning L k k2 (g\<lparr>yy_ch_buf := pre @ u @ 0 # 0 # post\<rparr>) pre [] u"
    using assms r by (auto simp: resting_def scanning_def readable_def wf_guts_def)
  with r that show ?thesis by blast
qed

lemma recorded_start: "recorded bp [] 1 acc"
  unfolding recorded_def by (intro conjI exI [of _ acc]) (simp_all add: at_state_def)

lemma next_token:
  assumes "resting L k k2 g (c # cs)" "int L < 2 ^ 30 - 1" "k2 = [] \<or> \<not> undecided (c # cs)"
    "rule_token c cs = (act, m)" "4 * length (c # cs) + 3 \<le> n"
  shows "found L k2 act (take m (c # cs)) (drop m (c # cs)) (yy_next_token n junk g (k @ k2))"
proof -
  obtain pre u post where r: "put_chars (yy_c_buf_p g) [yy_hold_char g] (yy_ch_buf g) = Ret (pre @ u @ 0 # 0 # post)"
    "yy_c_buf_p g = length pre" "c # cs = u @ stream k"
    "scanning L k k2 (g\<lparr>yy_ch_buf := pre @ u @ 0 # 0 # post\<rparr>) pre [] u"
    using assms(1) by (rule scanning_rest)
  have l: "length u + length (stream k) = length (c # cs)" using arg_cong [OF r(3), where f = length] by simp
  have "yy_start g = 1" using scanning_start [OF r(4)] by simp
  then have "yy_next_token n junk g (k @ k2) =
      yy_scan n junk (Match 1 (length pre + length ([] :: u8 list)) (length pre)) (g\<lparr>yy_ch_buf := pre @ u @ 0 # 0 # post\<rparr>) (k @ k2)"
    using r(1) by (simp add: yy_next_token_def r(2) Let_def)
  moreover have "found L k2 act (take m (c # cs)) (drop m (c # cs))
      (yy_scan n junk (Match 1 (length pre + length ([] :: u8 list)) (length pre)) (g\<lparr>yy_ch_buf := pre @ u @ 0 # 0 # post\<rparr>) (k @ k2))"
    using assms(3,5) l by (intro scan_token [OF assms(2) r(4) recorded_start _ _ assms(4)]) (simp_all flip: r(3))
  ultimately show ?thesis by (simp only:)
qed

lemma next_at_end:
  assumes "resting L k k2 g []" "2 \<le> n"
  shows "\<exists>pre G n'. scanning L k k2 G pre [] [] \<and> stream k = [] \<and>
    (\<forall>K. yy_next_token n junk g K =
      obind (yy_next_buffer junk 0 (eob_state (length pre) (length pre) G) K) (resume n' junk))"
proof -
  obtain pre u post where r: "put_chars (yy_c_buf_p g) [yy_hold_char g] (yy_ch_buf g) = Ret (pre @ u @ 0 # 0 # post)"
    "yy_c_buf_p g = length pre" "[] = u @ stream k"
    "scanning L k k2 (g\<lparr>yy_ch_buf := pre @ u @ 0 # 0 # post\<rparr>) pre [] u"
    using assms(1) by (rule scanning_rest)
  let ?g = "g\<lparr>yy_ch_buf := pre @ 0 # 0 # post\<rparr>"
  have g: "scanning L k k2 ?g pre [] []" "stream k = []" using r(3,4) by simp_all
  obtain n' where n: "n = Suc (Suc n')" using assms(2) by (cases n; cases "n - 1") auto
  have st: "yy_buffer_status ?g = 0 \<longrightarrow> buffer_n_chars ?g = yy_n_chars ?g" "length pre + 1 < length (yy_ch_buf ?g)"
    "yy_n_chars ?g = length pre"
    using g by (simp_all add: scanning_def readable_def wf_guts_def)
  have "yy_match_buffer (yy_ch_buf ?g) 1 acc (length pre) = Ret (13, (3, length pre + 1), length pre + 2)" for acc
    by (rule match_zero) (simp_all del: One_nat_def)
  then have "yy_next_token n junk g K =
      yy_scan (Suc n') junk (Find_action 13 (length pre + 2) (length pre)) (set_accepting (3, length pre + 1) ?g) K" for K
    using r(1-3) scanning_start [OF g(1)] by (simp add: yy_next_token_def Let_def n)
  then have "yy_next_token n junk g K =
      obind (yy_next_buffer junk 0 (eob_state (length pre) (length pre) ?g) K) (resume n' junk)" for K
    using st(3) unfolding scan_eob [OF st(2,1)] by simp
  with g show ?thesis by blast
qed

lemma next_eof:
  assumes "resting L k [] g []" "int L < 2 ^ 30 - 1" "2 \<le> n"
  shows "\<exists>g' k'. yy_next_token n junk g k = Ret (Eof, g', k')"
proof -
  obtain pre G n' where g: "scanning L k [] G pre [] []" "stream k = []"
    "\<And>K. yy_next_token n junk g K =
      obind (yy_next_buffer junk 0 (eob_state (length pre) (length pre) G) K) (resume n' junk)"
    using next_at_end [OF assms(1,3), of junk] by blast
  show ?thesis
    using next_buffer_eof [OF g(1) refl g(2) assms(2), of junk] by (auto simp: g(3) resume_def)
qed

section \<open>The session\<close>

lemma length_text_after [simp]: "length (text_after act txt) = length txt"
  by (simp add: text_after_def split: outcome.split option.split)

text \<open>What an action writes over its text is never scanned again.\<close>

lemma resting_overwrite:
  assumes "resting L k k2 g rest" "yytext_ptr g + length txt = yy_c_buf_p g"
  shows "\<exists>buf. put_chars (yytext_ptr g) txt (yy_ch_buf g) = Ret buf \<and> resting L k k2 (g\<lparr>yy_ch_buf := buf\<rparr>) rest"
proof -
  let ?q = "yy_c_buf_p g" and ?h = "yy_hold_char g" and ?b = "yy_ch_buf g"
  obtain pre u post where r: "put_chars ?q [?h] ?b = Ret (pre @ u @ 0 # 0 # post)"
    "?q = length pre" "yy_n_chars g = length pre + length u" "rest = u @ stream k"
    using assms(1) by (auto simp: resting_def)
  then have q: "?q + 1 \<le> length ?b" "take ?q ?b @ ?h # drop (?q + 1) ?b = pre @ u @ 0 # 0 # post"
    by (auto simp: put_chars_def split: if_splits)
  then have d: "?h # drop (?q + 1) ?b = u @ 0 # 0 # post" using r(2) by (subst (asm) append_eq_append_conv) simp_all
  let ?pre = "take (yytext_ptr g) ?b @ txt" and ?buf = "take (yytext_ptr g) ?b @ txt @ drop ?q ?b"
  have l: "length ?pre = ?q" using assms(2) q(1) by simp
  have "put_chars (yytext_ptr g) txt ?b = Ret ?buf" using assms(2) q(1) by (simp add: put_chars_def)
  moreover have "put_chars ?q [?h] ?buf = Ret (?pre @ u @ 0 # 0 # post)"
  proof -
    have "put_chars ?q [?h] (?pre @ drop ?q ?b) = Ret (?pre @ [?h] @ drop (length [?h]) (drop ?q ?b))"
      by (rule put_chars_end) (use l q(1) in \<open>simp_all del: length_append\<close>)
    also have "[?h] @ drop (length [?h]) (drop ?q ?b) = u @ 0 # 0 # post" using d by simp
    finally show ?thesis by simp
  qed
  moreover have "length ?buf = length ?b" using l q(1) by simp
  then have "readable L k k2 (g\<lparr>yy_ch_buf := ?buf\<rparr>)"
    using assms(1) by (simp add: resting_def readable_def wf_guts_def)
  moreover have "?q = length ?pre \<and> yy_n_chars g = length ?pre + length u" using l r(2,3) by simp
  ultimately have "resting L k k2 (g\<lparr>yy_ch_buf := ?buf\<rparr>) rest"
    unfolding resting_def using assms(1) r(4)
    by (intro conjI exI [of _ ?pre] exI [of _ u] exI [of _ post]) (simp_all add: resting_def)
  with \<open>put_chars (yytext_ptr g) txt ?b = Ret ?buf\<close> show ?thesis by blast
qed

lemma yylex_loop_yylex:
  assumes "int L < 2 ^ 30 - 1"
  shows "resting L k [] g rest \<Longrightarrow> 4 * length rest + 4 \<le> n \<Longrightarrow> yylex_loop n junk handler g k = yylex handler rest"
proof (induction n arbitrary: k g rest)
  case (Suc n)
  show ?case
  proof (cases rest)
    case Nil
    with Suc.prems next_eof [OF _ assms, of k g n junk] show ?thesis by auto
  next
    case (Cons c cs)
    obtain act m where t: "rule_token c cs = (act, m)" by fastforce
    note m = rule_token_length [OF t]
    let ?t = "take m (c # cs)"
    have "found L [] act ?t (drop m (c # cs)) (yy_next_token n junk g (k @ []))"
      using Suc.prems Cons by (intro next_token assms t) simp_all
    then obtain g' k' where g': "yy_next_token n junk g k = Ret (Token act ?t, g', k')"
      "resting L k' [] g' (drop m (c # cs))" "yytext_ptr g' + length ?t = yy_c_buf_p g'"
      by (auto simp: found_def)
    obtain buf where b: "put_chars (yytext_ptr g') (text_after act ?t) (yy_ch_buf g') = Ret buf"
      "resting L k' [] (g'\<lparr>yy_ch_buf := buf\<rparr>) (drop m (c # cs))"
      using resting_overwrite [OF g'(2), of "text_after act ?t"] g'(3) by auto
    have "length (drop m (c # cs)) \<le> length cs" using m by (cases m) simp_all
    then have "4 * length (drop m (c # cs)) + 4 \<le> n" using Suc.prems(2) Cons by simp
    from Suc.IH [OF b(2) this] show ?thesis
      unfolding Cons yylex_token [OF t] by (simp add: g'(1) b(1))
  qed
qed simp

text \<open>The start of \<open>yylex\<close>.\<close>

lemma length_yyalloc [simp]: "length (yyalloc junk n) = n"
  by (simp add: yyalloc_def)

lemma resting_start:
  "\<exists>g. yylex_enter junk yylex_init_extra = Ret g \<and>
    (\<forall>L k k2. live k \<longrightarrow> length (stream k) \<le> L \<longrightarrow> resting L k k2 g (stream k))"
proof -
  let ?b = "yyalloc junk 16386"
  let ?g = "yylex_init_extra\<lparr>yy_init := 1, yy_start := 1, yy_buf_size := 16384, yy_ch_buf := 0 # 0 # drop 2 ?b,
    yy_is_our_buffer := 1, yy_fill_buffer := 1\<rparr>"
  have "put_chars 0 [0, 0] ?b = Ret (0 # 0 # drop 2 ?b)"
    by (simp add: put_chars_def numeral_2_eq_2)
  then have "yylex_enter junk yylex_init_extra = Ret ?g"
    by (simp add: yylex_enter_def yylex_init_extra_def yy_create_buffer_def yy_init_buffer_def yy_flush_buffer_def
        yy_load_buffer_state_def YY_BUF_SIZE_def byte_at_def Let_def)
  moreover have "resting L k k2 ?g (stream k)" if "live k" "length (stream k) \<le> L" for L k k2
  proof -
    have "put_chars 0 [0] (0 # 0 # drop 2 ?b) = Ret ([] @ [] @ 0 # 0 # drop 2 ?b)" by (simp add: put_chars_def)
    with that show ?thesis
      unfolding resting_def
      by (intro conjI exI [of _ "[]"] exI [of _ "drop 2 ?b"])
        (simp_all add: yylex_init_extra_def readable_def wf_guts_def)
  qed
  ultimately show ?thesis by blast
qed

section \<open>Packets are answered at once\<close>

lemma open_run_clean: "clean s \<Longrightarrow> q \<in> {6, 9} \<Longrightarrow> open_run q (s @ v) = open_run (if s = [] then q else 9) v"
proof (induction s arbitrary: q)
  case (Cons c s)
  then have "moves q (class_of c) = 9" by (auto simp: moves_def class_of_iff clean_def)
  with Cons show ?case by (simp add: clean_def)
qed simp

lemma decided_frame:
  assumes "clean s"
  shows "\<not> undecided (frame s @ v)"
proof -
  obtain x y where h: "hex2 (sum_list s) = [x, y]" "is_hex x" "is_hex y" using hex2_hex by blast
  have "open_run q (hash # x # y # v) = None" if "q \<in> {6, 9}" for q
    using that h(2,3) by (auto simp: moves_def class_of_iff)
  then have "open_run 6 (s @ hash # x # y # v) = None" using open_run_clean [OF assms, of 6 "hash # x # y # v"] by simp
  moreover have "moves 1 (class_of dollar) = 6" by (simp add: moves_def class_of_def)
  moreover have f: "frame s @ v = dollar # s @ hash # x # y # v" using h by (simp add: frame_def)
  ultimately show ?thesis by (simp add: undecided_def at_state_def)
qed

lemma frames_first:
  assumes "int L < 2 ^ 30 - 1"
  shows "\<forall>s \<in> set ps. clean s \<Longrightarrow> resting L k k2 g (concat (map frame ps)) \<Longrightarrow>
    4 * length (concat (map frame ps)) + 4 \<le> n \<Longrightarrow>
    \<exists>n' g' k'. yylex_loop n junk handler g (k @ k2) =
        foldr (\<lambda>s m. mseq (take_packet handler s) m) ps (yylex_loop n' junk handler g' (k' @ k2)) \<and>
      resting L k' k2 g' [] \<and> 4 \<le> n'"
proof (induction ps arbitrary: n k g)
  case (Cons s ps)
  let ?rest = "concat (map frame ps)"
  have s: "clean s" using Cons.prems(1) by simp
  let ?cs = "s @ hash # hex2 (sum_list s) @ ?rest" and ?m = "length s + 4"
  have f: "concat (map frame (s # ps)) = dollar # ?cs" by (simp add: frame_def)
  have "dollar # ?cs = frame s @ ?rest" by (simp add: frame_def)
  then have d: "take ?m (dollar # ?cs) = frame s" "drop ?m (dollar # ?cs) = ?rest"
    by (simp_all only: take_length_append length_frame [symmetric] append_eq_conv_conj [THEN iffD1, OF refl, THEN conjunct2]) simp
  obtain n1 where n: "n = Suc n1" using Cons.prems(3) by (cases n) auto
  have "\<not> undecided (dollar # ?cs)" using decided_frame [OF s, of ?rest] f by simp
  moreover have "4 * length (dollar # ?cs) + 3 \<le> n1" using Cons.prems(3) n unfolding f by simp
  ultimately have "found L k2 3 (frame s) ?rest (yy_next_token n1 junk g (k @ k2))"
    using next_token [OF Cons.prems(2) [unfolded f] assms _ token_frame [OF s]] unfolding d by blast
  then obtain g' k' where g': "yy_next_token n1 junk g (k @ k2) = Ret (Token 3 (frame s), g', k' @ k2)"
    "resting L k' k2 g' ?rest" "yytext_ptr g' + length (frame s) = yy_c_buf_p g'"
    by (auto simp: found_def)
  obtain buf where b: "put_chars (yytext_ptr g') (text_after 3 (frame s)) (yy_ch_buf g') = Ret buf"
    "resting L k' k2 (g'\<lparr>yy_ch_buf := buf\<rparr>) ?rest"
    using resting_overwrite [OF g'(2), of "text_after 3 (frame s)"] g'(3) by auto
  have "4 * length ?rest + 4 \<le> n1" using Cons.prems(3) n by simp
  with Cons.IH [OF _ b(2) this] Cons.prems(1) obtain n' g'' k'' where
    i: "yylex_loop n1 junk handler (g'\<lparr>yy_ch_buf := buf\<rparr>) (k' @ k2) =
        foldr (\<lambda>s m. mseq (take_packet handler s) m) ps (yylex_loop n' junk handler g'' (k'' @ k2))"
      "resting L k'' k2 g'' []" "4 \<le> n'" by (auto simp del: length_concat)
  have "yylex_loop n junk handler g (k @ k2) =
      mseq (take_packet handler s) (yylex_loop n1 junk handler (g'\<lparr>yy_ch_buf := buf\<rparr>) (k' @ k2))"
    by (simp add: n g'(1) b(1) yy_action_def take_packet_def mbind_assoc)
  with i show ?case by auto
next
  case Nil
  then show ?case by auto
qed

text \<open>Where the connection fails, the process ends.\<close>

lemma next_fails:
  assumes "resting L k (Failure # k') g []" "int L < 2 ^ 30 - 1" "2 \<le> n"
  shows "yy_next_token n junk g (k @ Failure # k') = Exit 2"
proof -
  obtain pre G n' where g: "scanning L k (Failure # k') G pre [] []" "stream k = []"
    "\<And>K. yy_next_token n junk g K =
      obind (yy_next_buffer junk 0 (eob_state (length pre) (length pre) G) K) (resume n' junk)"
    using next_at_end [OF assms(1,3), of junk] by blast
  let ?G = "eob_state (length pre) (length pre) G"
  have "length pre = length pre + length ([] :: u8 list)" by simp
  note e = eob_ready [OF g(1) this refl]
  obtain post where b: "yy_ch_buf ?G = pre @ [] @ 0 # 0 # post" using e(2) by auto
  have "yy_buffer_status G \<noteq> 2" using g(1) by (auto simp: scanning_def readable_def)
  then have "yy_buffer_status ?G \<noteq> 2" by (simp add: eob_state_def)
  with get_next_fails [OF e(1) b e(3-5) _ e(9) g(2)] have "yy_get_next_buffer junk ?G (k @ Failure # k') = Exit 2"
    using assms(2) by simp
  then show ?thesis by (simp add: g(3) yy_next_buffer_def)
qed

section \<open>Properties\<close>

lemma buffered_stream:
  assumes "live k" "int (length (stream k)) < 2 ^ 30 - 1" "4 * length (stream k) + 4 \<le> n"
  shows "yylex_buffered n junk handler k = yylex handler (stream k)"
proof -
  obtain g where g: "yylex_enter junk yylex_init_extra = Ret g"
    "\<And>L k k2. live k \<Longrightarrow> length (stream k) \<le> L \<Longrightarrow> resting L k k2 g (stream k)" using resting_start [of junk] by blast
  from yylex_loop_yylex [OF assms(2) g(2) [OF assms(1) order.refl] assms(3)] g(1)
  show ?thesis by (simp add: yylex_buffered_def)
qed

text \<open>
  C8: The buffered scanner handles a stream as the scanner that sees it at once, in whatever pieces
  the connection delivers it and whatever interrupts the reads: the tokens, the actions and their
  order are the same, no access leaves the buffer, and no packet is lost where the buffer is
  moved or grows. The stream has fewer than a gigabyte of characters.
\<close>

theorem buffered_scanner:
  assumes "live k" "int (length (stream k)) < 2 ^ 30 - 1" "4 * length (stream k) + 4 \<le> n"
  shows "yylex_buffered n junk handler k = yylex handler (stream k)"
  using buffered_stream [OF assms] .

theorem buffered_scanner_witness:
  "yylex_buffered 50 (\<lambda>i. 255) (gdb_init 0) [Chunk (bytes ''$g#''), Interruption, Chunk (bytes ''6''), Chunk (bytes ''7+'')] =
     yylex (gdb_init 0) (bytes ''$g#67+'')"
  using buffered_scanner [of "[Chunk (bytes ''$g#''), Interruption, Chunk (bytes ''6''), Chunk (bytes ''7+'')]" 50
      "\<lambda>i. 255" "gdb_init 0"]
  by simp

text \<open>
  C16: A packet is handled as soon as its last character has been read, and before the scanner reads
  again: where the connection fails behind some packets, each of them has been executed and
  answered, in their order, before the failure ends the process with status 2.
\<close>

theorem packets_before_failure:
  assumes "live k" "stream k = concat (map frame ps)" "\<forall>s \<in> set ps. clean s"
    and "int (length (stream k)) < 2 ^ 30 - 1" "4 * length (stream k) + 5 \<le> n"
  shows "yylex_buffered n junk handler (k @ Failure # k') =
    foldr (\<lambda>s m. mseq (take_packet handler s) m) ps (exit_with 2)"
proof -
  obtain g where g: "yylex_enter junk yylex_init_extra = Ret g"
    "\<And>L k k2. live k \<Longrightarrow> length (stream k) \<le> L \<Longrightarrow> resting L k k2 g (stream k)" using resting_start [of junk] by blast
  have L: "int (length (concat (map frame ps))) < 2 ^ 30 - 1" "4 * length (concat (map frame ps)) + 4 \<le> n"
    using assms(4,5) unfolding assms(2) by simp_all
  have "resting (length (concat (map frame ps))) k (Failure # k') g (concat (map frame ps))"
    using g(2) [OF assms(1) order.refl, of "Failure # k'"] unfolding assms(2) .
  from frames_first [OF L(1) assms(3) this L(2), of junk handler]
  obtain n' g' k'' where f: "yylex_loop n junk handler g (k @ Failure # k') =
        foldr (\<lambda>s m. mseq (take_packet handler s) m) ps (yylex_loop n' junk handler g' (k'' @ Failure # k'))"
      "resting (length (concat (map frame ps))) k'' (Failure # k') g' []" "4 \<le> n'" by blast
  obtain n'' where n: "n' = Suc n''" "2 \<le> n''" using f(3) by (cases n') auto
  have "yylex_loop n' junk handler g' (k'' @ Failure # k') = exit_with 2"
    using next_fails [OF f(2) L(1) n(2), of junk]
    by (simp add: n(1) lift_o_def mbind_def exit_with_def fun_eq_iff)
  with f(1) g(1) show ?thesis by (simp add: yylex_buffered_def)
qed

theorem packets_before_failure_witness:
  "yylex_buffered 100 (\<lambda>i. 0) (gdb_init 3) [Chunk (bytes ''$s#''), Chunk (bytes ''73''), Failure] =
     mseq (take_packet (gdb_init 3) (bytes ''s'')) (exit_with 2)"
  using packets_before_failure [of "[Chunk (bytes ''$s#''), Chunk (bytes ''73'')]" "[bytes ''s'']" 100 "\<lambda>i. 0" "gdb_init 3" "[]"]
  by (simp add: frame_def hex2_def hex_char_def clean_def)

end
