(* ===== verification/Robust_Writes.thy ===== *)
theory Robust_Writes
  imports Gdb_Registers
begin

text \<open>
  The part of \<open>csapp.c\<close> through which the server writes to the connection, \<open>rio_writen\<close> and its
  wrapper: what reaches the debugger of the writes the server asks for. The results of the system
  call \<open>write\<close> are a list, in the order of the calls.
\<close>

section \<open>Writing a buffer\<close>

text \<open>
  A call of \<open>write\<close> takes some of the bytes, at least one and at most as many as are left, is
  interrupted by a signal, or fails.
\<close>

datatype write_result = Wrote nat | Interrupted | Failed

text \<open>
  The loop: \<open>bufp\<close> is what is left to write, \<open>sent\<close> what has been written; \<open>Wrote k\<close> takes
  \<open>k + 1\<close> bytes, or all if fewer are left. Without further results the call has not returned.
\<close>

fun rio_loop ::
  "write_result list \<Rightarrow> u8 list \<Rightarrow> u8 list \<Rightarrow> (bool \<times> u8 list \<times> write_result list) outcome" where
  "rio_loop ws [] sent = Ret (True, sent, ws)"
| "rio_loop [] (b # bufp) sent = Pending"
| "rio_loop (Wrote k # ws) (b # bufp) sent = rio_loop ws (drop k bufp) (sent @ b # take k bufp)"
| "rio_loop (Interrupted # ws) (b # bufp) sent = rio_loop ws (b # bufp) sent"
| "rio_loop (Failed # ws) (b # bufp) sent = Ret (False, sent, ws)"

definition rio_writen ::
  "write_result list \<Rightarrow> u8 list \<Rightarrow> (int \<times> u8 list \<times> write_result list) outcome" where
  "rio_writen ws usrbuf = obind (rio_loop ws usrbuf []) (\<lambda>(ok, sent, ws).
     Ret (if ok then int (length usrbuf) else -1, sent, ws))"

text \<open>\<open>unix_error\<close> prints a message and ends the process, with status 0.\<close>

definition unix_error :: "'a outcome" where
  "unix_error = Exit 0"

definition rio_writen_checked ::
  "write_result list \<Rightarrow> u8 list \<Rightarrow> (u8 list \<times> write_result list) outcome" where
  "rio_writen_checked ws usrbuf = obind (rio_writen ws usrbuf) (\<lambda>(r, sent, ws).
     if r \<noteq> int (length usrbuf) then unix_error else Ret (sent, ws))"

text \<open>The bytes the calls of a run put on the connection.\<close>

fun deliver :: "write_result list \<Rightarrow> io list \<Rightarrow> u8 list outcome" where
  "deliver ws [] = Ret []"
| "deliver ws (Rio_writen s # cs) = obind (rio_writen_checked ws s) (\<lambda>(t, ws).
     obind (deliver ws cs) (\<lambda>u. Ret (t @ u)))"
| "deliver ws (c # cs) = deliver ws cs"

section \<open>Delivery\<close>

fun written :: "io \<Rightarrow> u8 list" where
  "written (Rio_writen s) = s"
| "written c = []"

definition successes :: "write_result list \<Rightarrow> nat" where
  "successes ws = length (filter (\<lambda>w. \<exists>k. w = Wrote k) ws)"

lemma successes_simps [simp]:
  "successes [] = 0" "successes (Wrote k # ws) = Suc (successes ws)"
  "successes (Interrupted # ws) = successes ws" "successes (Failed # ws) = successes ws"
  by (simp_all add: successes_def)

lemma rio_loop_complete:
  assumes "Failed \<notin> set ws" "length bufp \<le> successes ws"
  shows "\<exists>ws'. rio_loop ws bufp sent = Ret (True, sent @ bufp, ws') \<and> Failed \<notin> set ws' \<and>
    successes ws \<le> successes ws' + length bufp"
  using assms
proof (induction ws bufp sent rule: rio_loop.induct)
  case (3 k ws b bufp sent)
  then obtain ws' where "rio_loop ws (drop k bufp) (sent @ b # take k bufp) =
      Ret (True, (sent @ b # take k bufp) @ drop k bufp, ws')" "Failed \<notin> set ws'"
    "successes ws \<le> successes ws' + length (drop k bufp)" by fastforce
  then show ?case by auto
qed auto

lemma checked_complete:
  assumes "Failed \<notin> set ws" "length s \<le> successes ws"
  shows "\<exists>ws'. rio_writen_checked ws s = Ret (s, ws') \<and> Failed \<notin> set ws' \<and>
    successes ws \<le> successes ws' + length s"
  using rio_loop_complete [OF assms, of "[]"] by (auto simp: rio_writen_checked_def rio_writen_def)

section \<open>Properties\<close>

text \<open>
  However the connection splits the writes and however often signals interrupt them: as long
  as none fails and enough of them succeed, the bytes the debugger receives are those of the
  server's writes, complete and in their order.
\<close>

theorem writes_delivered:
  assumes "Failed \<notin> set ws" "length (concat (map written cs)) \<le> successes ws"
  shows "deliver ws cs = Ret (concat (map written cs))"
  using assms
proof (induction ws cs rule: deliver.induct)
  case (2 ws s cs)
  then obtain ws' where "rio_writen_checked ws s = Ret (s, ws')" "Failed \<notin> set ws'"
    "successes ws \<le> successes ws' + length s" using checked_complete [of ws s] by auto
  with 2 show ?case by simp
qed simp_all

theorem writes_delivered_witness:
  "deliver [Interrupted, Wrote 0, Wrote 0, Interrupted, Interrupted, Wrote 9, Wrote 1]
     [Rio_writen (bytes ''+''), Mutex_lock, Rio_writen (bytes ''OK''), Mutex_unlock] = Ret (bytes ''+OK'')"
  using writes_delivered [of "[Interrupted, Wrote 0, Wrote 0, Interrupted, Interrupted, Wrote 9, Wrote 1]"
     "[Rio_writen (bytes ''+''), Mutex_lock, Rio_writen (bytes ''OK''), Mutex_unlock]"]
  by simp

text \<open>
  A failing write ends the simulator with status 0; what had been written before is a prefix of
  the buffer.
\<close>

theorem write_failure:
  assumes "rio_loop ws s [] = Ret (False, sent, ws')"
  shows "rio_writen_checked ws s = Exit 0 \<and> (\<exists>t. s = sent @ t \<and> t \<noteq> [])"
proof -
  have "\<exists>t. sent0 @ bufp = sent @ t \<and> t \<noteq> []" if "rio_loop ws bufp sent0 = Ret (False, sent, ws')" for bufp sent0
    using that by (induction ws bufp sent0 rule: rio_loop.induct) auto
  from this [OF assms] assms show ?thesis
    by (simp add: rio_writen_checked_def rio_writen_def unix_error_def)
qed

theorem write_failure_witness:
  "rio_writen_checked [Wrote 0, Failed] (bytes ''OK'') = Exit 0"
  using write_failure [of "[Wrote 0, Failed]" "bytes ''OK''"] by simp

end
