(* ===== verification/Dialogues.thy ===== *)
theory Dialogues
  imports Scan_Stream Robust_Writes
begin

unbundle bit_operations_syntax

text \<open>
  The server against an abstract one: a debugger that reads and writes memory and registers sees
  a list of octets and a list of words, whatever lies between its connection and the simulator.
\<close>

section \<open>The abstract server\<close>

text \<open>\<open>shown_regs\<close>: r0 to r15 and the status register.\<close>

record view =
  shown_octets :: "u8 list"
  shown_regs :: "u32 list"

datatype command = Store u32 "u8 list" | Fetch u32 nat | Registers | Assign nat u32

text \<open>The address of the next instruction, as the server computes it from the program counter.\<close>

definition shown_pc :: "u32 \<Rightarrow> u32" where
  "shown_pc w = ((w + 4) AND 0xFFFFFFFD) - 4"

text \<open>The reply to a command, and the view after it.\<close>

fun serve :: "host \<Rightarrow> command \<Rightarrow> view \<Rightarrow> u8 list \<times> view" where
  "serve h (Store a bs) s = (bytes ''OK'', s\<lparr>shown_octets :=
     take (unat a) (shown_octets s) @ bs @ drop (unat a + length bs) (shown_octets s)\<rparr>)"
| "serve h (Fetch a n) s = (hex_octets (take n (drop (unat a) (shown_octets s))), s)"
| "serve h Registers s = (hex_words h (take 15 (shown_regs s) @ [shown_pc (shown_regs s ! 15)]) @
     unavailable 25 @ hex_word h (shown_regs s ! 16), s)"
| "serve h (Assign n v) s = (bytes ''OK'', s\<lparr>shown_regs := (shown_regs s)[n := v]\<rparr>)"

primrec serve_all :: "host \<Rightarrow> command list \<Rightarrow> view \<Rightarrow> u8 list list \<times> view" where
  "serve_all h [] s = ([], s)"
| "serve_all h (c # cs) s =
     (let (r, s) = serve h c s; (rs, s) = serve_all h cs s in (r # rs, s))"

text \<open>The commands that name existing octets and registers, and whose reply fits into a packet.\<close>

fun admissible :: "nat \<Rightarrow> command \<Rightarrow> bool" where
  "admissible len (Store a bs) \<longleftrightarrow> unat a < len \<and> unat a + length bs \<le> len"
| "admissible len (Fetch a n) \<longleftrightarrow> unat a + n \<le> len \<and> n < 510"
| "admissible len Registers \<longleftrightarrow> True"
| "admissible len (Assign n v) \<longleftrightarrow> n < 16"

text \<open>How the debugger writes a command.\<close>

definition put_hex :: "u32 \<Rightarrow> u8 list" where
  "put_hex w = hex_octets (word_octets 1 w)"

definition range_text :: "u32 \<Rightarrow> nat \<Rightarrow> u8 list" where
  "range_text a n = put_hex a @ bytes '','' @ put_hex (of_nat n)"

fun encode :: "host \<Rightarrow> command \<Rightarrow> u8 list" where
  "encode h (Store a bs) = bytes ''X'' @ range_text a (length bs) @ bytes '':'' @ escape bs"
| "encode h (Fetch a n) = bytes ''m'' @ range_text a n"
| "encode h Registers = bytes ''g''"
| "encode h (Assign n v) = bytes ''P'' @ put_hex (of_nat n) @ bytes ''='' @ hex_word h v"

section \<open>Numbers\<close>

lemma hex_char_range: "is_hex c \<Longrightarrow> c \<notin> {0, 10, 35, 36, 44, 58, 61, 88, 120, 43, 45}"
  by (auto simp: is_hex_def is_digit_def)

lemma is_hex_octets: "c \<in> set (hex_octets bs) \<Longrightarrow> is_hex c"
proof (induction bs)
  case (Cons b bs)
  obtain x y where "hex2 b = [hex_char x, hex_char y]" "x < 16" "y < 16" by (rule hex2_nibbles)
  with Cons show ?case by auto
qed simp

lemma number_hex_octets:
  "number 16 (hex_octets bs) = foldl (\<lambda>n b. 256 * n + unat b) 0 bs"
proof -
  have "foldl (\<lambda>n d. 16 * n + digit_value d) k (hex_octets bs) = foldl (\<lambda>n b. 256 * n + unat b) k bs" for k
  proof (induction bs arbitrary: k)
    case (Cons b bs)
    obtain x y where "hex2 b = [hex_char x, hex_char y]" "x < 16" "y < 16" "unat b = 16 * x + y"
      by (rule hex2_nibbles)
    with Cons show ?case by (simp add: algebra_simps)
  qed simp
  then show ?thesis by (simp add: number_def)
qed

lemma unat_octet: "unat (ucast (drop_bit k w :: u32) :: u8) = unat w div 2 ^ k mod 256"
proof -
  have "unat (ucast v :: u8) = unat v mod 256" for v :: u32
    by (simp add: unsigned_ucast_eq take_bit_eq_mod)
  then show ?thesis by (simp only: unat_drop_bit_eq drop_bit_eq_div [where ?'a = nat])
qed

lemma base_256:
  assumes "n < 2 ^ 32"
  shows "256 * (256 * (256 * (n div 2 ^ 24 mod 256) + n div 2 ^ 16 mod 256) + n div 2 ^ 8 mod 256) +
    n mod 256 = (n :: nat)"
proof -
  let ?q = "n div 256"
  have d: "n div 2 ^ 8 = ?q" "n div 2 ^ 16 = ?q div 256" "n div 2 ^ 24 = ?q div 256 div 256"
    by (simp_all flip: div_mult2_eq)
  have "?q div 256 div 256 < 256" using assms by (simp add: less_mult_imp_div_less)
  then have "?q div 256 div 256 mod 256 = ?q div 256 div 256" by simp
  then show ?thesis unfolding d by (simp only: mult_div_mod_eq)
qed

lemma number_put_hex: "number 16 (put_hex w) = unat w"
proof -
  have "number 16 (put_hex w) = foldl (\<lambda>n b. 256 * n + unat b) 0 (word_octets 1 w)"
    by (simp only: put_hex_def number_hex_octets)
  also have "\<dots> = unat w"
    using base_256 [of "unat w"] unsigned_less [of w, where 'a = nat] unat_octet [of 24 w]
      unat_octet [of 16 w] unat_octet [of 8 w] unat_octet [of 0 w]
    by (simp add: word_octets_def)
  finally show ?thesis .
qed

lemma put_hex_simps [simp]: "length (put_hex w) = 8" "0 \<notin> set (put_hex w)" "c \<in> set (put_hex w) \<Longrightarrow> is_hex c"
  by (simp_all add: put_hex_def word_octets_def is_hex_octets del: hex_octets_simps(2))

lemma scan_put_hex:
  assumes "rest = [] \<or> \<not> is_hex (hd rest)"
  shows "scan_hex None (put_hex w @ rest) = Ret (Some (w, rest))"
proof -
  obtain b bs where "word_octets 1 w = b # bs" by (simp add: word_octets_def)
  moreover obtain k l where "hex2 b = [hex_char k, hex_char l]" "k < 16" "l < 16" by (rule hex2_nibbles)
  ultimately obtain ds where d: "put_hex w = hex_char k # hex_char l # ds" "k < 16" "l < 16"
    by (simp add: put_hex_def)
  then have "dropWhile is_space (put_hex w @ rest) = put_hex w @ rest"
    "split_sign (put_hex w @ rest) = (False, put_hex w @ rest)" "skip_0x (put_hex w @ rest) = put_hex w @ rest"
    by (simp_all add: split_sign_def skip_0x_def)
  moreover have "takeWhile is_hex (put_hex w @ rest) = put_hex w"
    using assms by (cases rest) (auto simp: takeWhile_append)
  moreover have "put_hex w \<noteq> []" using put_hex_simps(1) [of w] by fastforce
  ultimately show ?thesis
    using unsigned_less [of w, where 'a = nat] by (simp add: scan_hex_def number_put_hex Let_def)
qed

lemma scan_range:
  assumes "rest = [] \<or> \<not> is_hex (hd rest)" "rest = 0 # r \<or> rest = 58 # r" "0 \<in> set rest"
  shows "scan_x_x (range_text a n @ rest) None None = Ret (Some a, Some (of_nat n))"
proof -
  let ?s = "takeWhile (\<lambda>c. c \<noteq> 0) rest"
  have c: "cstring (range_text a n @ rest) = Ret (range_text a n @ ?s)"
    using assms(3) by (intro cstring_append) (auto simp: range_text_def)
  have "?s = [] \<or> \<not> is_hex (hd ?s)" using assms(2) by (auto simp: is_hex_def is_digit_def)
  from scan_put_hex [OF this, of "of_nat n"] scan_put_hex [of "44 # put_hex (of_nat n) @ ?s" a]
  show ?thesis by (simp add: scan_x_x_def c) (simp add: range_text_def is_hex_def is_digit_def)
qed

lemma is_hex_word: "c \<in> set (hex_word h v) \<Longrightarrow> is_hex c"
  unfolding hex_word_def by (rule is_hex_octets)

lemma encode_clean: "clean (encode h c)"
proof -
  have h: "hash \<notin> set (put_hex w)" "dollar \<notin> set (put_hex w)" for w
    by (auto dest!: put_hex_simps(3) hex_char_range)
  have "hash \<notin> set (escape_byte b)" "dollar \<notin> set (escape_byte b)" for b
    by (auto simp: escape_byte_def)
  then have "hash \<notin> set (escape bs)" "dollar \<notin> set (escape bs)" for bs
    by (auto simp: escape_def)
  moreover have "hash \<notin> set (hex_word h v)" "dollar \<notin> set (hex_word h v)" for v
    by (auto dest!: is_hex_word hex_char_range)
  ultimately show ?thesis using h by (cases c) (auto simp: clean_def range_text_def)
qed

lemma encode_writes:
  assumes "length bs < 2 ^ 32" "0 \<in> set t"
  shows "writes (range_text a (length bs) @ bytes '':'' @ escape bs @ t) a bs"
proof -
  let ?r = "58 # escape bs @ t"
  have "58 \<notin> set (range_text a n)" "0 \<notin> set (range_text a n)" for n
    by (auto simp: range_text_def dest!: put_hex_simps(3) hex_char_range)
  moreover from this have "dropWhile (\<lambda>d. d \<noteq> 58) (range_text a (length bs) @ ?r) = ?r"
    by (subst dropWhile_append2) auto
  ultimately have "c_index 58 (range_text a (length bs) @ ?r) = Ret (Some ?r)"
    using assms(2) by (simp add: c_index_def cstring_append)
  moreover have "scan_x_x (range_text a (length bs) @ ?r) None None = Ret (Some a, Some (of_nat (length bs)))"
    using assms(2) by (intro scan_range) (auto simp: is_hex_def is_digit_def)
  ultimately show ?thesis using assms(1) by (simp add: writes_def)
qed

lemma encode_assigns:
  assumes "n < 16" "0 \<in> set t"
  shows "assigns h (put_hex (of_nat n) @ bytes ''='' @ hex_word h v @ t) n v"
proof -
  let ?r = "61 # hex_word h v @ t"
  have c: "61 \<notin> set (put_hex w)" "0 \<notin> set (put_hex w)" for w
    by (auto dest!: put_hex_simps(3) hex_char_range)
  moreover from this have "dropWhile (\<lambda>d. d \<noteq> 61) (put_hex w @ ?r) = ?r" for w
    by (subst dropWhile_append2) auto
  ultimately have "c_index 61 (put_hex (of_nat n) @ ?r) = Ret (Some ?r)"
    using assms(2) by (simp add: c_index_def cstring_append)
  moreover have "scan_x None (put_hex (of_nat n) @ ?r) None = Ret (Some (of_nat n))"
    using assms(2) c by (simp add: scan_x_def cstring_append scan_put_hex is_hex_def is_digit_def)
  ultimately show ?thesis using assms by (auto simp: assigns_def)
qed

section \<open>The block as part of the list of octets\<close>

lemma unat_offset: "unat (a :: u32) + i < 2 ^ 32 \<Longrightarrow> unat (a + of_nat i) = unat a + i"
  by (subst unat_add_lem [THEN iffD1]) (simp_all add: unat_of_nat)

lemma block_slice:
  assumes "unat a + n \<le> length (octets m)" "length (octets m) \<le> 2 ^ 32"
  shows "in_block m a n" "block_bytes m a n = take n (drop (unat a) (octets m))"
proof -
  have u: "unat (a + of_nat i) = unat a + i" if "i < n" for i
    using that assms by (intro unat_offset) linarith
  then show "in_block m a n" using assms(1) by (simp add: in_block_def)
  show "block_bytes m a n = take n (drop (unat a) (octets m))"
    using assms u by (intro nth_equalityI) (simp_all add: block_bytes_def addresses_def)
qed

lemma put_bytes_slice:
  assumes "unat a + length bs \<le> length (octets m)" "length (octets m) \<le> 2 ^ 32"
  shows "put_bytes m a bs = Ret (m\<lparr>octets :=
    take (unat a) (octets m) @ bs @ drop (unat a + length bs) (octets m)\<rparr>)"
  using assms
proof (induction bs arbitrary: a m)
  case (Cons b bs)
  let ?os = "octets m"
  let ?m = "m\<lparr>octets := ?os[unat a := b]\<rparr>"
  have p: "put_octet m a b = Ret ?m" using Cons.prems(1) by (simp add: put_octet_def)
  show ?case
  proof (cases "bs = []")
    case True
    with p Cons.prems(1) show ?thesis by (simp add: upd_conv_take_nth_drop)
  next
    case False
    then have u: "unat (a + 1) = unat a + 1"
      using Cons.prems unat_offset [of a 1] by (cases bs) auto
    from Cons.IH [of "a + 1" ?m] Cons.prems
    have "put_bytes ?m (a + 1) bs = Ret (?m\<lparr>octets :=
        take (unat a + 1) (?os[unat a := b]) @ bs @ drop (unat a + 1 + length bs) (?os[unat a := b])\<rparr>)"
      by (simp add: u)
    with p Cons.prems(1) show ?thesis by (simp add: take_Suc_conv_app_nth)
  qed
qed (simp add: append_take_drop_id)

section \<open>One command\<close>

text \<open>The calls of one exchange, and what the debugger sees of the simulator.\<close>

definition exchange :: "u8 list \<Rightarrow> io list" where
  "exchange r = [ack, Mutex_lock, Rio_writen (frame r), Mutex_unlock]"

definition view_of :: "'z gdb_scheme \<Rightarrow> view" where
  "view_of p = \<lparr>shown_octets = octets (mem p), shown_regs = take 17 (regs (reg p))\<rparr>"

lemma view_locked [simp]: "view_of (locked p) = view_of p" "regs (reg (locked p)) = regs (reg p)"
  by (simp_all add: view_of_def locked_def)

text \<open>The states between two packets.\<close>

definition serving :: "'z parser_scheme \<Rightarrow> bool" where
  "serving p \<longleftrightarrow> (\<exists>n b. session_inv n b p) \<and> error_len p = 0"

lemma servingD:
  assumes "serving p"
  shows "wf_server p" "wf_parser p" "error_len p = 0" "wf_memory (mem p)" "length (regs (reg p)) = 37"
  using assms by (auto simp: serving_def session_inv_def server_inv_def sim_inv_def wf_server_def
      user_state_def wf_registers_def)

text \<open>Where the handler runs to a reply, so does the whole exchange.\<close>

lemma take_packet_exchange:
  fixes p :: "'z parser_scheme"
  assumes "serving p" "gdb_init fuel c = Some f"
    and r: "runs (f (d @ 0 # hex2 (sum_list (c # d)) @ [0])) h (locked p) () (reply r g')"
    and "calls g' = calls (locked p)"
  shows "\<exists>t. take_packet (gdb_init fuel) (c # d) h p = Ret ((), t) \<and> serving t \<and>
    view_of t = view_of g' \<and> calls t = calls p @ exchange r"
proof -
  let ?g = "after_call Mutex_unlock (reply r g')"
  obtain t where t: "request fuel c d h p = Ret ((), t)" "same_core t ?g"
    using runs_request [OF assms(2) r] by (auto simp: runs_def)
  have "take_packet (gdb_init fuel) (c # d) h p = request fuel c d h p"
    unfolding take_packet_def request_def using servingD [OF assms(1)]
    by (subst ret_run [where s' = p]) (simp_all add: wp_handle_error reported_def ac_simps)
  moreover from assms(1) obtain n b where "session_inv n b p" by (auto simp: serving_def)
  then have "session_inv n b t"
    using t(1) preservesD [OF session.preserves_analysis] unfolding request_def by blast
  moreover have "gdb.more t = gdb.more p"
    using preservesD [OF outside.preserves_analysis t(1) [unfolded request_def] refl] .
  then have "error_len t = error_len p" by (cases t; cases p) simp
  moreover have "mem t = mem ?g" "reg t = reg ?g" "calls t = calls ?g"
    using t(2) by (simp_all add: same_core_gets same_core_server)
  ultimately show ?thesis
    using t(1) assms(4) servingD(3) [OF assms(1)]
    by (auto simp: serving_def view_of_def exchange_def reply_def)
qed

lemma hex_words_append: "hex_words h (vs @ ws) = hex_words h vs @ hex_words h ws"
  by (induction vs) simp_all

lemma registers_text_view:
  assumes "length (regs (reg g)) = 37"
  shows "registers_text h g = fst (serve h Registers (view_of g))"
proof -
  have "register_words h is g = hex_words h (map (\<lambda>i. take 17 (regs (reg g)) ! i) is)"
    if "\<forall>i \<in> set is. i < 15" for "is"
    using that by (induction "is") (auto simp: usr_reg_def unat_of_nat word_eq_15 word_unat_eq_iff)
  moreover have "map (\<lambda>i. take 17 (regs (reg g)) ! i) [0..<15] = take 15 (regs (reg g))"
    using assms by (intro nth_equalityI) (simp_all del: upt_Suc)
  ultimately have "register_words h [0..<15] g = hex_words h (take 15 (regs (reg g)))"
    by (simp del: upt_Suc)
  then show ?thesis
    using assms by (simp add: registers_text_def view_of_def shown_pc_def usr_reg_def cpsr_def
        hex_words_append del: upt_Suc)
qed

lemma serve_exchange:
  fixes p :: "'z parser_scheme"
  assumes p: "serving p" and a: "admissible (length (octets (mem p))) c" "length (octets (mem p)) < 2 ^ 32"
    and s: "serve h c (view_of p) = (r, s')"
  shows "\<exists>t. take_packet (gdb_init fuel) (encode h c) h p = Ret ((), t) \<and> serving t \<and>
    view_of t = s' \<and> calls t = calls p @ exchange r"
proof (cases c)
  case (Fetch a n)
  note w = servingD [OF p]
  let ?d = "range_text a n"
  have "scan_x_x (?d @ 0 # t) None None = Ret (Some a, Some (of_nat n))" for t
    by (rule scan_range) (auto simp: is_hex_def is_digit_def)
  moreover have n: "unat (of_nat n :: u32) = n" using a Fetch by (simp add: unat_of_nat)
  moreover note block_slice [of a n "mem p"]
  ultimately have "runs (read_memory (?d @ 0 # t)) h (locked p) () (reply r (locked p))" for t
    using runs_read_memory [of "locked p" "?d @ 0 # t" a "of_nat n" h] a s Fetch w
    by (auto simp: view_of_def)
  from take_packet_exchange [where c = 109 and d = "?d" and f = read_memory, OF p _ this] s Fetch
  show ?thesis by (auto simp: view_of_def locked_def)
next
  case (Store a bs)
  note w = servingD [OF p]
  let ?d = "range_text a (length bs) @ bytes '':'' @ escape bs"
  let ?g = "(locked p)\<lparr>mem := (mem p)\<lparr>octets := shown_octets s'\<rparr>\<rparr>"
  have "length bs < 2 ^ 32" using a Store by simp
  then have "writes (?d @ 0 # t) a bs" for t
    using encode_writes [of bs "0 # t" a] by simp
  moreover note put_bytes_slice [of a bs "mem p"]
  ultimately have "runs (write_memory_binary (?d @ 0 # t)) h (locked p) () (reply r ?g)" for t
    using runs_write_memory [of "locked p" "?d @ 0 # t" a bs _ h] a s Store w
    by (auto simp: view_of_def)
  from take_packet_exchange [where c = 88 and d = "?d" and f = write_memory_binary, OF p _ this] s Store
  show ?thesis by (auto simp: view_of_def locked_def)
next
  case Registers
  note w = servingD [OF p]
  have "runs (read_general_registers d) h (locked p) () (reply r (locked p))" for d
    using runs_read_general [of "locked p" d h] registers_text_view [of "locked p" h] s Registers w
    by auto
  from take_packet_exchange [where c = 103 and d = "[]" and f = read_general_registers, OF p _ this] s Registers
  show ?thesis by (auto simp: view_of_def locked_def)
next
  case (Assign n v)
  note w = servingD [OF p]
  let ?d = "put_hex (of_nat n) @ bytes ''='' @ hex_word h v"
  have "assigns h (?d @ 0 # t) n v" for t
    using encode_assigns [of n "0 # t" h v] a Assign by simp
  then have "runs (gdb_write_register (?d @ 0 # t)) h (locked p) () (reply r (set_reg n v (locked p)))" for t
    using runs_write_register [of "locked p" h "?d @ 0 # t" n v] a s Assign w by (auto simp: view_of_def)
  from take_packet_exchange [where c = 80 and d = "?d" and f = gdb_write_register, OF p _ this] s Assign a
  show ?thesis by (auto simp: view_of_def locked_def take_update_swap)
qed

section \<open>Dialogues\<close>

lemma serve_length:
  "admissible (length (shown_octets s)) c \<Longrightarrow>
     length (shown_octets (snd (serve h c s))) = length (shown_octets s)"
  by (cases c) auto

lemma yylex_end: "serving p \<Longrightarrow> yylex handler [] h p = Ret ((), p)"
  using wp_handle_error [of p h "\<lambda>_ t. t = p"] servingD [of p] by (auto simp: reported_def wp_iff)

lemma dialogue:
  fixes p :: "'z parser_scheme"
  assumes "serving p" "\<forall>c \<in> set cs. admissible (length (octets (mem p))) c" "length (octets (mem p)) < 2 ^ 32"
  shows "\<exists>t. yylex (gdb_init fuel) (concat (map (\<lambda>c. frame (encode h c)) cs)) h p = Ret ((), t) \<and>
    serving t \<and> view_of t = snd (serve_all h cs (view_of p)) \<and>
    calls t = calls p @ concat (map exchange (fst (serve_all h cs (view_of p))))"
  using assms
proof (induction cs arbitrary: p)
  case Nil
  then show ?case using yylex_end [of p] by simp
next
  case (Cons c cs)
  obtain r s' where s: "serve h c (view_of p) = (r, s')" by fastforce
  with serve_exchange [OF Cons.prems(1) _ Cons.prems(3) s, of fuel] Cons.prems(2)
  obtain t where t: "take_packet (gdb_init fuel) (encode h c) h p = Ret ((), t)" "serving t"
    "view_of t = s'" "calls t = calls p @ exchange r" by auto
  have "length (octets (mem t)) = length (octets (mem p))"
    using serve_length [of "view_of p" c h] s t(3) Cons.prems(2) by (auto simp: view_of_def)
  with Cons.IH [OF t(2)] Cons.prems
  obtain u where u: "yylex (gdb_init fuel) (concat (map (\<lambda>c. frame (encode h c)) cs)) h t = Ret ((), u)"
    "serving u" "view_of u = snd (serve_all h cs (view_of t))"
    "calls u = calls t @ concat (map exchange (fst (serve_all h cs (view_of t))))" by auto
  with s t show ?case
    by (auto simp: yylex_frame [OF encode_clean] mbind_def split: prod.splits)
qed

lemma exchanges_written: "concat (map written (concat (map exchange rs))) = concat (map (\<lambda>r. bytes ''+'' @ frame r) rs)"
  by (induction rs) (simp_all add: exchange_def)

section \<open>Properties\<close>

text \<open>
  The simulator implements the abstract server: a debugger that sends the packets of any
  sequence of admissible commands gets, for each of them and in their order, an acknowledgement
  and a packet with the reply of the abstract server, and the memory and the registers are
  then those of the abstract server. This holds for every way the connection splits the
  writes, as long as none of them fails.
\<close>

theorem debugger_view:
  fixes p :: "'z parser_scheme"
  assumes "serving p" "calls p = []" "length (octets (mem p)) < 2 ^ 32"
    and "\<forall>c \<in> set cs. admissible (length (octets (mem p))) c"
    and "serve_all h cs (view_of p) = (rs, s')"
    and "live k" "stream k = concat (map (\<lambda>c. frame (encode h c)) cs)"
    and "int (length (stream k)) < 2 ^ 30 - 1" "4 * length (stream k) + 4 \<le> n"
    and "Failed \<notin> set ws" "length (concat (map (\<lambda>r. bytes ''+'' @ frame r) rs)) \<le> successes ws"
  shows "\<exists>t. yylex_buffered n junk (gdb_init fuel) k h p = Ret ((), t) \<and>
    view_of t = s' \<and> deliver ws (calls t) = Ret (concat (map (\<lambda>r. bytes ''+'' @ frame r) rs))"
proof -
  from dialogue [OF assms(1,4,3), where h = h and fuel = fuel] assms(2,5)
  obtain t where t: "yylex (gdb_init fuel) (concat (map (\<lambda>c. frame (encode h c)) cs)) h p = Ret ((), t)"
    "view_of t = s'" "calls t = concat (map exchange rs)" by auto
  have b: "yylex_buffered n junk (gdb_init fuel) k = yylex (gdb_init fuel) (stream k)"
    by (rule buffered_stream [OF assms(6,8,9)])
  have d: "deliver ws (concat (map exchange rs)) = Ret (concat (map (\<lambda>r. bytes ''+'' @ frame r) rs))"
    using writes_delivered [of ws "concat (map exchange rs)"] assms(10,11) unfolding exchanges_written .
  show ?thesis unfolding b assms(7) using t(1,2) d unfolding t(3) [symmetric] by blast
qed

lemma length_put_hex: "length (put_hex w) = 8"
  by (simp add: put_hex_def word_octets_def)

lemma length_frame_nonempty: "frame s \<noteq> []"
  by (simp add: frame_def)

lemma sample_serving: "serving (sample_parser bs)" if "length bs \<le> 64"
proof -
  have "wf_server (sample_server bs)" by simp
  then have "session_inv 64 1 (sample_parser bs)"
    using that sample_parser_simps(1) [of bs] sample_server_simps(3) [of bs]
    by (simp add: session_inv_def server_inv_def sim_inv_def wf_server_def sample_parser_def gdb.defs
      user_state_def wf_memory_def memory_create_def)
  then show ?thesis by (auto simp: serving_def)
qed

lemma sample_view: "view_of (sample_parser []) = \<lparr>shown_octets = replicate 64 0, shown_regs = replicate 17 0\<rparr>"
  "calls (sample_parser bs) = []" "octets (mem (sample_parser [])) = replicate 64 0"
  using sample_server_simps(2) [of bs] sample_server_simps(3,4) [of "[]"]
  by (simp_all add: view_of_def sample_parser_def gdb.defs memory_create_def)

theorem debugger_view_witness:
  "\<exists>t. yylex_buffered 500 (\<lambda>i. 0) (gdb_init 0) [Chunk (frame (encode x86_host (Store 0 [1, 35]))), Interruption,
      Chunk (frame (encode x86_host (Assign 3 7)) @ frame (encode x86_host (Fetch 0 2)))] x86_host (sample_parser []) = Ret ((), t) \<and>
    take 2 (shown_octets (view_of t)) = [1, 35] \<and> shown_regs (view_of t) ! 3 = 7 \<and>
    deliver (replicate 40 (Wrote 0)) (calls t) = Ret (bytes ''+$OK#9a+$OK#9a+$0123#c6'')"
proof -
  let ?p = "sample_parser []" and ?cs = "[Store 0 [1, 35], Assign 3 7, Fetch 0 2]"
  let ?rs = "[bytes ''OK'', bytes ''OK'', hex_octets [1, 35]]"
  obtain s' where s: "serve_all x86_host ?cs (view_of ?p) = (?rs, s')"
    "take 2 (shown_octets s') = [1, 35]" "shown_regs s' ! 3 = 7" by (simp add: sample_view)
  have r: "concat (map (\<lambda>r. bytes ''+'' @ frame r) ?rs) = bytes ''+$OK#9a+$OK#9a+$0123#c6''"
    by (simp add: frame_def hex2_def hex_char_def)
  have w: "Failed \<notin> set (replicate 40 (Wrote 0))"
    "length (concat (map (\<lambda>r. bytes ''+'' @ frame r) ?rs)) \<le> successes (replicate 40 (Wrote 0))"
    by (simp_all add: successes_def)
  let ?k = "[Chunk (frame (encode x86_host (Store 0 [1, 35]))), Interruption,
    Chunk (frame (encode x86_host (Assign 3 7)) @ frame (encode x86_host (Fetch 0 2)))]"
  have k: "live ?k" "stream ?k = concat (map (\<lambda>c. frame (encode x86_host c)) ?cs)"
    "int (length (stream ?k)) < 2 ^ 30 - 1" "4 * length (stream ?k) + 4 \<le> 500"
    by (simp_all add: length_frame_nonempty range_text_def length_put_hex escape_def escape_byte_def)
  have "\<exists>t. yylex_buffered 500 (\<lambda>i. 0) (gdb_init 0) ?k x86_host ?p = Ret ((), t) \<and>
      view_of t = s' \<and> deliver (replicate 40 (Wrote 0)) (calls t) = Ret (concat (map (\<lambda>r. bytes ''+'' @ frame r) ?rs))"
    by (rule debugger_view [OF sample_serving sample_view(2) _ _ s(1) k w]) (simp_all add: sample_view)
  with s(2,3) show ?thesis unfolding r by (auto simp only: list.map concat.simps append_Nil2)
qed

end
