(* ===== verification/Approximation.thy ===== *)
theory Approximation
  imports Sessions
begin

text \<open>
  The order of information on outcomes: a run that is still going may turn into any other
  outcome, and every other outcome is final. The fuel of the server is an approximation in
  this order: with more of it, a session that has an outcome keeps it.
\<close>

section \<open>The order\<close>

instantiation outcome :: (type) order_bot
begin

definition less_eq_outcome :: "'a outcome \<Rightarrow> 'a outcome \<Rightarrow> bool" where
  "x \<le> y \<longleftrightarrow> x = Pending \<or> x = y"

definition less_outcome :: "'a outcome \<Rightarrow> 'a outcome \<Rightarrow> bool" where
  "(x :: 'a outcome) < y \<longleftrightarrow> x = Pending \<and> y \<noteq> Pending"

definition bot_outcome :: "'a outcome" where
  "bot_outcome = Pending"

instance
  by standard (auto simp: less_eq_outcome_def less_outcome_def bot_outcome_def)

end

lemma obind_mono: "x \<le> y \<Longrightarrow> (\<And>v. f v \<le> g v) \<Longrightarrow> obind x f \<le> obind y g"
  unfolding less_eq_outcome_def by (cases x) (auto, metis)

text \<open>Programs are ordered as functions.\<close>

named_theorems mono_rules

lemma mbind_mono [mono_rules]:
  fixes m m' :: "('s, 'a) prog"
  shows "m \<le> m' \<Longrightarrow> (\<And>v. f v \<le> f' v) \<Longrightarrow> mbind m f \<le> mbind m' f'"
  by (auto simp: mbind_def le_fun_def intro!: obind_mono)

lemma if_mono [mono_rules]:
  fixes m :: "('s, 'a) prog"
  shows "(b \<Longrightarrow> m \<le> m') \<Longrightarrow> (\<not> b \<Longrightarrow> k \<le> k') \<Longrightarrow> (if b then m else k) \<le> (if b then m' else k')"
  by simp

lemma case_prod_mono [mono_rules]:
  fixes f :: "'b \<Rightarrow> 'c \<Rightarrow> ('s, 'a) prog"
  shows "(\<And>a b. f a b \<le> g a b) \<Longrightarrow> (case p of (a, b) \<Rightarrow> f a b) \<le> (case p of (a, b) \<Rightarrow> g a b)"
  by (cases p) simp

section \<open>The fuel of the server\<close>

lemma cont_loop_body:
  assumes "\<And>v. cont_loop n v \<le> (cont_loop m v :: ('z, unit) server)"
  shows "cont_loop (Suc n) v \<le> (cont_loop (Suc m) v :: ('z, unit) server)"
  unfolding cont_loop.simps Let_def by (intro mono_rules order.refl assms)

lemma cont_loop_mono: "cont_loop n v \<le> (cont_loop (n + k) v :: ('z, unit) server)"
proof (induction n arbitrary: v)
  case 0
  show ?case by (simp add: still_running_def le_fun_def less_eq_outcome_def)
next
  case (Suc n)
  show ?case
    using cont_loop_body [of n "n + k" v, OF Suc] by (simp only: add_Suc)
qed

lemma cont_mono: "n \<le> m \<Longrightarrow> cont n d \<le> (cont m d :: ('z, unit) server)"
  unfolding cont_def using cont_loop_mono [of n None "m - n"] by (intro mbind_mono order.refl) simp

text \<open>Tables of handlers, entry by entry.\<close>

definition table_le :: "(u8 \<Rightarrow> 'z gdb_handler_t option) \<Rightarrow> (u8 \<Rightarrow> 'z gdb_handler_t option) \<Rightarrow> bool" where
  "table_le H K \<longleftrightarrow> (\<forall>c. rel_option (\<lambda>f g. \<forall>d. f d \<le> g d) (H c) (K c))"

lemma gdb_init_mono: "n \<le> m \<Longrightarrow> table_le (gdb_init n) (gdb_init m)"
  unfolding table_le_def gdb_init_def fun_upd_apply by (intro allI) (simp add: cont_mono)

lemma analysis_mono:
  assumes "table_le H K"
  shows "gdb_packet_analysis H p k \<le> gdb_packet_analysis K p k"
proof -
  have "(case H c of Some f \<Rightarrow> mseq (call Mutex_lock) (mseq (f d) (call Mutex_unlock)) | None \<Rightarrow> gdb_send_data '''')
      \<le> (case K c of Some f \<Rightarrow> mseq (call Mutex_lock) (mseq (f d) (call Mutex_unlock)) | None \<Rightarrow> gdb_send_data '''')"
    for c d
    using assms unfolding table_le_def
    by (cases "H c"; cases "K c") (force intro!: mbind_mono dest: spec [of _ c])+
  then show ?thesis
    unfolding gdb_packet_analysis_def Let_def by (intro mono_rules order.refl)
qed

lemma yy_action_mono: "table_le H K \<Longrightarrow> yy_action H act text \<le> yy_action K act text"
  unfolding yy_action_def by (intro mono_rules order.refl analysis_mono)

lemma yylex_mono: "table_le H K \<Longrightarrow> yylex H input \<le> yylex K input"
proof (induction H input rule: yylex.induct)
  case (2 H c cs)
  obtain act k where "rule_token c cs = (act, k)" by fastforce
  with 2 show ?case by (auto simp: yy_token_rule yylex_token intro!: mbind_mono yy_action_mono)
qed simp

section \<open>Properties\<close>

text \<open>
  The fuel does not influence what a session does: once it is enough for the session to have an
  outcome, every larger amount gives the same outcome.
\<close>

theorem fuel_independent:
  assumes "yylex (gdb_init n) input h p \<noteq> Pending" "n \<le> m"
  shows "yylex (gdb_init m) input h p = yylex (gdb_init n) input h p"
  using yylex_mono [OF gdb_init_mono [OF assms(2)], of input] assms(1)
  unfolding le_fun_def less_eq_outcome_def by metis

theorem fuel_independent_witness:
  "yylex (gdb_init 7) [] x86_host (sample_parser []) = yylex (gdb_init 0) [] x86_host (sample_parser [])"
proof -
  have "yylex (gdb_init 0) [] x86_host (sample_parser []) \<noteq> Pending"
    using wp_handle_error [of "sample_parser []" x86_host "\<lambda>_ _. True"] by (auto simp: wp_iff)
  with fuel_independent [of 0 "[]" x86_host "sample_parser []" 7] show ?thesis by simp
qed

end
