(* ===== verification/Trace_Location.thy ===== *)
theory Trace_Location
  imports Arm_Core
begin

unbundle bit_operations_syntax

text \<open>
  \<open>trace_location.h\<close>: the macros that wrap each access to registers and memory made outside
  \<open>arm_core.c\<close> between two calls of the trace module, which push and pop the file and the line
  of the access. The macros have the same shape for the fifteen accesses; \<open>located\<close> is that shape.
\<close>

section \<open>The macros\<close>

definition LOCATION :: "string \<Rightarrow> int \<Rightarrow> ('z, unit) arm" where
  "LOCATION file line = update_o (\<lambda>s.
     obind (trace_start_location file line (trc s)) (\<lambda>t. Ret (s\<lparr>trc := t\<rparr>)))"

definition END_LOCATION :: "('z, u8) arm" where
  "END_LOCATION = (\<lambda>h s. let (r, t) = trace_end_location (trc s) in Ret (r, s\<lparr>trc := t\<rparr>))"

text \<open>\<open>(LOCATION, m + END_LOCATION)\<close>, where the second call adds 0, and \<open>(LOCATION, m, END_LOCATION)\<close>.\<close>

definition located :: "string \<Rightarrow> int \<Rightarrow> ('z, 'a) arm \<Rightarrow> ('z, 'a) arm" where
  "located file line m = mseq (LOCATION file line) (mbind m (\<lambda>v. mseq END_LOCATION (ret v)))"

section \<open>The contract of an access\<close>

definition stack :: "int \<Rightarrow> int \<Rightarrow> 'z machine_scheme \<Rightarrow> bool" where
  "stack n e s \<longleftrightarrow> location_stack_top (trc s) = n \<and> enabled (trc s) = e"

lemma stack_upd [simp]:
  "stack n e (s\<lparr>reg := r\<rparr>) = stack n e s" "stack n e (s\<lparr>mem := m\<rparr>) = stack n e s"
  "stack n e (s\<lparr>cycle_count := c\<rparr>) = stack n e s"
  by (simp_all add: stack_def)

lemma trace_keeps_stack:
  "trace_print_location t = Ret t' \<Longrightarrow> location_stack_top t' = location_stack_top t \<and> enabled t' = enabled t"
  "trace_register cycle type rg md v t = Ret t' \<Longrightarrow>
     location_stack_top t' = location_stack_top t \<and> enabled t' = enabled t"
  "trace_memory cycle type sz cause address v t = Ret t' \<Longrightarrow>
     location_stack_top t' = location_stack_top t \<and> enabled t' = enabled t"
proof -
  show loc: "trace_print_location t = Ret t' \<Longrightarrow> location_stack_top t' = location_stack_top t \<and> enabled t' = enabled t"
    for t t' by (auto simp: trace_print_location_def print_item_def split: if_splits)
  show "trace_register cycle type rg md v t = Ret t' \<Longrightarrow>
     location_stack_top t' = location_stack_top t \<and> enabled t' = enabled t"
    by (auto simp: trace_register_def obind_Ret_iff print_item_def Let_def dest: loc split: if_splits)
  show "trace_memory cycle type sz cause address v t = Ret t' \<Longrightarrow>
     location_stack_top t' = location_stack_top t \<and> enabled t' = enabled t"
    by (auto simp: trace_memory_def obind_Ret_iff print_item_def Let_def dest!: loc split: if_splits)
qed

lemma preserves_stack_elementary [pres]:
  "preserves (stack n e) (tr_register type rg md v)" "preserves (stack n e) (tr_memory type sz cause address w)"
  "preserves (stack n e) (upd_reg f)" "preserves (stack n e) (modify (\<lambda>s. s\<lparr>mem := m\<rparr>))"
  "preserves (stack n e) (modify (\<lambda>s. s\<lparr>cycle_count := cycle_count s + 1\<rparr>))"
proof -
  show "preserves (stack n e) (tr_register type rg md v)"
    unfolding tr_register_def
    by (rule preserves_update_o) (auto simp: obind_Ret_iff stack_def dest: trace_keeps_stack(2))
  show "preserves (stack n e) (tr_memory type sz cause address w)"
    unfolding tr_memory_def
    by (rule preserves_update_o) (auto simp: obind_Ret_iff stack_def dest: trace_keeps_stack(3))
  show "preserves (stack n e) (upd_reg f)"
    unfolding upd_reg_def by (rule preserves_update_o) (auto simp: obind_Ret_iff)
qed (rule preserves_modify, simp)+

lemma wp_LOCATION:
  assumes "user_state s" "location_stack_top (trc s) < 127"
  shows "\<exists>s'. LOCATION file line h s = Ret ((), s') \<and> same_core s s' \<and> enabled (trc s') = enabled (trc s) \<and>
    location_stack_top (trc s') = location_stack_top (trc s) + (if enabled (trc s) \<noteq> 0 then 1 else 0)"
  using assms
  by (auto simp: LOCATION_def update_o_def trace_start_location_def same_core_def user_state_def wf_trace_def Let_def)

lemma END_LOCATION_run:
  "END_LOCATION h s = Ret (0, s\<lparr>trc := (trc s)\<lparr>location_stack_top :=
     location_stack_top (trc s) - (if enabled (trc s) \<noteq> 0 then 1 else 0)\<rparr>\<rparr>)"
  by (auto simp: END_LOCATION_def trace_end_location_def)

lemma preserves_stack_access [pres]:
  "preserves (stack n e) (arm_read_register rg)" "preserves (stack n e) (arm_read_usr_register rg)"
  "preserves (stack n e) arm_read_cpsr" "preserves (stack n e) arm_read_spsr"
  "preserves (stack n e) (arm_write_register rg w)" "preserves (stack n e) (arm_write_usr_register rg w)"
  "preserves (stack n e) (arm_write_cpsr w)" "preserves (stack n e) (arm_write_spsr w)"
  "preserves (stack n e) (arm_read_byte address b)" "preserves (stack n e) (arm_read_half address y)"
  "preserves (stack n e) (arm_read_word address v)" "preserves (stack n e) (arm_write_byte address b')"
  "preserves (stack n e) (arm_write_half address y')" "preserves (stack n e) (arm_write_word address w)"
  unfolding arm_read_register_def arm_read_usr_register_def arm_read_cpsr_def arm_read_spsr_def
    arm_write_register_def arm_write_usr_register_def arm_write_cpsr_def arm_write_spsr_def
    arm_read_byte_def arm_read_half_def arm_read_word_def arm_write_byte_def arm_write_half_def arm_write_word_def Let_def
  by (auto intro!: pres)

lemma preserves_stack_fetch [pres]: "preserves (stack n e) (arm_fetch v)"
  unfolding arm_fetch_def Let_def by (auto intro!: pres)

locale access =
  fixes m :: "('z, 'a) arm"
  assumes core: "respecting same_core m"
    and keeps_stack: "\<And>n e. preserves (stack n e) m"
begin

text \<open>Recording the location changes nothing but the trace, and pops what it pushed.\<close>

lemma located_invisible:
  assumes s: "user_state s" "location_stack_top (trc s) < 127"
  shows "outcome_rel same_core (located file line m h s) (m h s)"
    and "located file line m h s = Ret (v, t) \<Longrightarrow>
      location_stack_top (trc t) = location_stack_top (trc s) \<and> enabled (trc t) = enabled (trc s)"
proof -
  let ?top = "location_stack_top (trc s)" and ?e = "enabled (trc s)"
  let ?up = "?top + (if ?e \<noteq> 0 then 1 else 0)"
  obtain s' where l: "LOCATION file line h s = Ret ((), s')" "same_core s s'" "stack ?up ?e s'"
    using wp_LOCATION [OF s] unfolding stack_def by blast
  have r: "outcome_rel same_core (m h s) (m h s')" using core l(2) by (auto simp: respecting_def)
  have run: "located file line m h s = obind (m h s') (\<lambda>(v, u). Ret (v, u\<lparr>trc := (trc u)\<lparr>location_stack_top :=
      location_stack_top (trc u) - (if enabled (trc u) \<noteq> 0 then 1 else 0)\<rparr>\<rparr>))"
    by (simp add: located_def mbind_def l(1) END_LOCATION_run ret_def)
  have keep: "m h s' = Ret (v, u) \<Longrightarrow> stack ?up ?e u" for v u
    using preservesD [OF keeps_stack _ l(3)] .
  have top: "-1 \<le> ?top" using s(1) by (simp add: user_state_def wf_trace_def)
  show "outcome_rel same_core (located file line m h s) (m h s)"
  proof (cases "m h s'")
    case (Ret w)
    obtain v u where w: "w = (v, u)" by (cases w)
    from r Ret w obtain u' where u: "m h s = Ret (v, u')" "same_core u' u"
      by (cases "m h s") (auto simp: outcome_rel_def)
    from u(2) keep [OF Ret [unfolded w]] top s(2)
    have "same_core (u\<lparr>trc := (trc u)\<lparr>location_stack_top :=
        location_stack_top (trc u) - (if enabled (trc u) \<noteq> 0 then 1 else 0)\<rparr>\<rparr>) u'"
      by (auto simp: same_core_def stack_def user_state_def wf_trace_def)
    with run Ret w u(1) show ?thesis by simp
  qed (use r run in \<open>cases "m h s"; simp add: outcome_rel_def\<close>)+
  assume "located file line m h s = Ret (v, t)"
  then obtain u where "m h s' = Ret (v, u)" "t = u\<lparr>trc := (trc u)\<lparr>location_stack_top :=
      location_stack_top (trc u) - (if enabled (trc u) \<noteq> 0 then 1 else 0)\<rparr>\<rparr>"
    unfolding run by (cases "m h s'") auto
  with keep [of v u] show "location_stack_top (trc t) = ?top \<and> enabled (trc t) = ?e"
    by (auto simp: stack_def)
qed

end

interpretation fetch: access "arm_fetch v"
  by unfold_locales (rule resp pres)+

interpretation read_register: access "arm_read_register rg"
  by unfold_locales (rule resp pres)+

interpretation read_usr_register: access "arm_read_usr_register rg"
  by unfold_locales (rule resp pres)+

interpretation read_cpsr: access arm_read_cpsr
  by unfold_locales (rule resp pres)+

interpretation read_spsr: access arm_read_spsr
  by unfold_locales (rule resp pres)+

interpretation write_register: access "arm_write_register rg w"
  by unfold_locales (rule resp pres)+

interpretation write_usr_register: access "arm_write_usr_register rg w"
  by unfold_locales (rule resp pres)+

interpretation write_cpsr: access "arm_write_cpsr w"
  by unfold_locales (rule resp pres)+

interpretation write_spsr: access "arm_write_spsr w"
  by unfold_locales (rule resp pres)+

interpretation read_byte: access "arm_read_byte address b"
  by unfold_locales (rule resp pres)+

interpretation read_half: access "arm_read_half address y"
  by unfold_locales (rule resp pres)+

interpretation read_word: access "arm_read_word address v"
  by unfold_locales (rule resp pres)+

interpretation write_byte: access "arm_write_byte address b'"
  by unfold_locales (rule resp pres)+

interpretation write_half: access "arm_write_half address y'"
  by unfold_locales (rule resp pres)+

interpretation write_word: access "arm_write_word address w"
  by unfold_locales (rule resp pres)+

section \<open>Properties\<close>

text \<open>
  C38: With the positions traced, an access made through a macro of \<open>trace_location.h\<close> prints the file
  and the line of the macro in front of what it prints itself, does to registers and memory what the
  access does, and leaves the stack of locations as it was: here for a read of a word of memory
  and a write of a register.
\<close>

theorem positions_traced:
  assumes "user_state s" "location_stack_top (trc s) < 127" "enabled (trc s) \<noteq> 0"
    and "trace_flags (trc s) AND POSITION \<noteq> 0" "trace_flags (trc s) AND MEMORY \<noteq> 0"
    and "trace_flags (trc s) AND REGISTERS \<noteq> 0" "load_word (mem s) a = Ret w" "rg \<le> 15"
  shows "(\<exists>t. located file line (arm_read_word a v) h s = Ret ((0, w), t) \<and> same_core t s \<and>
      printed (trc t) = printed (trc s) @ [Location file line, Memory_access (cycle_count s) [] ''read'' 4 [] a w] \<and>
      location_stack_top (trc t) = location_stack_top (trc s)) \<and>
    (\<exists>t. located file line (arm_write_register rg x) h s = Ret ((), t) \<and> same_core t (set_reg (unat rg) x s) \<and>
      printed (trc t) = printed (trc s) @
        [Location file line, Register_access (cycle_count s) ''write'' (arm_register_names ! unat rg) ''_USR'' x] \<and>
      location_stack_top (trc t) = location_stack_top (trc s))"
  (is "?memory \<and> ?register")
proof
  note loc = assms(1-4)
  have wf: "wf_trace (trc s)" and u: "user_state s" using assms(1) by (auto simp: user_state_def)
  let ?top = "location_stack_top (trc s) + 1"
  define T where "T = (trc s)\<lparr>location_stack_top := ?top, location_file_stack := (location_file_stack (trc s))[nat ?top := file],
    location_line_stack := (location_line_stack (trc s))[nat ?top := line]\<rparr>"
  have T: "enabled T = enabled (trc s)" "trace_flags T = trace_flags (trc s)" "printed T = printed (trc s)"
    "location_stack_top T = ?top" "wf_trace T"
    using wf assms(2) by (simp_all add: T_def wf_trace_def)
  have start: "LOCATION file line h s = Ret ((), s\<lparr>trc := T\<rparr>)"
    using wf assms(2,3) by (simp add: LOCATION_def update_o_def trace_start_location_def wf_trace_def Let_def T_def)
  have "location_file_stack T ! nat ?top = file" "location_line_stack T ! nat ?top = line"
    using wf assms(2) by (simp_all add: T_def wf_trace_def)
  then have print: "trace_print_location (T\<lparr>last_address := la\<rparr>) = Ret (print_item (Location file line) (T\<lparr>last_address := la\<rparr>))"
    "trace_print_location T = Ret (print_item (Location file line) T)" for la
    using wf assms(2-4) T by (simp_all add: trace_print_location_def wf_trace_def)
  have seq: "table_at trace_memory_seq (if b then 1 else 0) = Ret []" for b
    by (simp add: table_at_def trace_memory_seq_def)
  have tables: "table_at trace_access_type READ = Ret ''read''" "table_at trace_access_type WRITE = Ret ''write''"
    "table_at trace_memory_cause OTHER_ACCESS = Ret []"
    by (simp_all add: table_at_def trace_access_type_def trace_memory_cause_def)
  have mem: "trace_memory (cycle_count s) READ 4 OTHER_ACCESS a w T =
      Ret (print_item (Memory_access (cycle_count s) [] ''read'' 4 [] a w)
        (print_item (Location file line) (T\<lparr>last_address := a\<rparr>)))"
    using assms(3,5) T(1,2) by (simp add: trace_memory_def seq tables print(1) Let_def)
  show ?memory
    using assms(3,7) T u wf
    by (simp add: located_def mbind_def start END_LOCATION_run arm_read_word_def gets_def lift_o_def memory_read_word_load
        tr_memory_def update_o_def mem ret_def)
      (simp add: print_item_def same_core_def user_state_def wf_trace_def)
  have md: "mode (reg s) = USR" "wf_registers (reg s)" using u by (simp_all add: user_state_def)
  have names: "arm_get_mode_name USR = Ret (Some ''USR'')" "arm_get_register_name rg = Ret (arm_register_names ! unat rg)"
    using assms(8) unat_le_15(2) [of rg]
    by (simp_all add: arm_get_mode_name_def arm_get_register_name_def table_at_def arm_mode_names_def)
  have register: "trace_register (cycle_count s) WRITE rg USR x T =
      Ret (print_item (Register_access (cycle_count s) ''write'' (arm_register_names ! unat rg) ''_USR'' x)
        (print_item (Location file line) T))"
    using assms(3,6) T(1,2) by (simp add: trace_register_def tables print(2) names Let_def)
  show ?register
    using assms(3,8) T u wf md
    by (simp add: located_def mbind_def start END_LOCATION_run arm_write_register_def gets_def upd_reg_def
        tr_register_def update_o_def usr_mode_access get_mode_def register ret_def)
      (simp add: print_item_def same_core_def user_state_def wf_trace_def set_reg_def wf_registers_def)
qed

theorem positions_traced_witness:
  "\<exists>t. located ''arm_load_store.c'' 242 (arm_read_word 0 None) x86_host
       ((loaded [1, 2, 3, 4] [])\<lparr>trc := trace_add 11 trace_init\<rparr>) = Ret ((0, 0x01020304), t) \<and>
     printed (trc t) = [Location ''arm_load_store.c'' 242, Memory_access 0 [] ''read'' 4 [] 0 0x01020304]"
proof -
  let ?s = "(loaded [1, 2, 3, 4] [])\<lparr>trc := trace_add 11 trace_init\<rparr>"
  have "user_state ?s" using loaded_simps(1) [of "[]" "[1, 2, 3, 4]"]
    by (simp add: user_state_def trace_add_def trace_init_def wf_trace_def)
  moreover have "load_word (mem ?s) 0 = Ret 0x01020304"
    by (simp add: load_word_def memory_read_word_def octet_def memory_create_def)
  ultimately show ?thesis
    using positions_traced [of ?s 0 "0x01020304" 3 "''arm_load_store.c''" 242 None x86_host 0]
    by (auto simp: trace_add_def trace_init_def)
qed

end
