(* ===== verification/Threads.thy ===== *)
theory Threads
  imports Simulator
begin

unbundle bit_operations_syntax

text \<open>
  The two threads of the simulator with their mutex, in smaller steps than those of \<open>Simulator\<close>: each
  thread waits for the mutex, works, and releases it, and between any two of these steps the
  other one may run. The work under the mutex is no single step: it may be cut into parts
  wherever it can be, and what keeps the other thread from running between two of them is the mutex
  alone. What a thread does without the mutex touches nothing the other one uses.
\<close>

section \<open>A packet up to the mutex\<close>

text \<open>
  \<open>gdb_packet_analysis\<close> up to \<open>pthread_mutex_lock\<close>: its result is the call that is then made
  under the mutex, or \<open>None\<close> if the function returns without it.
\<close>

definition packet_head :: "(u8 \<Rightarrow> 'z gdb_handler_t option) \<Rightarrow> u8 list \<Rightarrow> int \<Rightarrow>
    ('z, ('z, unit) server option) server" where
  "packet_head handler packet len =
     (let i = max 1 (nat (len - 3)) in
      mbind (lift_o (sum_at [1..<i] packet 0)) (\<lambda>check.
      mbind (lift_o (scan_x None (drop (i + 1) packet) None)) (\<lambda>given.
      mbind (read_local given) (\<lambda>given.
      if ucast check = given then
        mseq gdb_send_ack
        (let packet = packet[i := 0] in
         mbind (lift_o (byte_at packet 1)) (\<lambda>index.
         case handler index of
           Some f \<Rightarrow> ret (Some (f (drop 2 packet)))
         | None \<Rightarrow> mseq (gdb_send_data '''') (ret None)))
      else mseq gdb_require_retransmission (ret None)))))"

text \<open>A token up to the mutex.\<close>

definition token_head :: "(u8 \<Rightarrow> 'z parser_ext gdb_handler_t option) \<Rightarrow> nat \<Rightarrow> u8 list \<Rightarrow>
    ('z, ('z, unit) lexer option) lexer" where
  "token_head handler act text =
     (if act = 3 then mseq handle_error (packet_head handler (text @ [0]) (int (length text)))
      else mseq (yy_action handler act text) (ret None))"

text \<open>The call under the mutex, and a token as its two parts.\<close>

definition under_mutex :: "('z, unit) server option \<Rightarrow> ('z, unit) server" where
  "under_mutex r = (case r of Some f \<Rightarrow> mseq (call Mutex_lock) (mseq f (call Mutex_unlock)) | None \<Rightarrow> ret ())"

lemma under_mutex_simps [simp]:
  "under_mutex None = ret ()" "under_mutex (Some f) = mseq (call Mutex_lock) (mseq f (call Mutex_unlock))"
  by (simp_all add: under_mutex_def)

lemma mbind_if: "mbind (if b then m else n) f = (if b then mbind m f else mbind n f)"
  by simp

lemma mseq_ret_unit [simp]: "mseq m (ret ()) = m"
proof -
  have "(\<lambda>_ :: unit. ret ()) = ret" by (auto simp: fun_eq_iff)
  then show ?thesis by (metis mbind_ret_right)
qed

lemma packet_split: "gdb_packet_analysis handler packet len = mbind (packet_head handler packet len) under_mutex"
proof -
  have case_option: "mbind (case x of Some f \<Rightarrow> m f | None \<Rightarrow> n) k = (case x of Some f \<Rightarrow> mbind (m f) k | None \<Rightarrow> mbind n k)"
    for x :: "'z gdb_handler_t option" and m n and k :: "('z, unit) server option \<Rightarrow> ('z, unit) server"
    by (cases x) simp_all
  show ?thesis
    unfolding gdb_packet_analysis_def packet_head_def Let_def
    by (simp add: mbind_assoc mbind_if case_option cong: if_cong option.case_cong)
qed

lemma token_split: "yy_action handler act text = mbind (token_head handler act text) under_mutex"
  by (simp add: token_head_def mbind_assoc) (simp add: yy_action_def packet_split mbind_assoc)

section \<open>What is shared, and what is private\<close>

text \<open>
  The machine is shared; the fields \<open>gdb_protocol_data\<close> and \<open>parser_data\<close> add belong to the thread
  of the debugger. States with the same machine, and states with the same private fields:
\<close>

definition same_machine :: "'z \<Rightarrow> 'z \<Rightarrow> 'z machine_scheme \<Rightarrow> 'z machine_scheme \<Rightarrow> bool" where
  "same_machine d d' s t \<longleftrightarrow> machine.truncate s = machine.truncate t \<and> machine.more s = d \<and> machine.more t = d'"

definition same_private :: "machine \<Rightarrow> machine \<Rightarrow> 'z machine_scheme \<Rightarrow> 'z machine_scheme \<Rightarrow> bool" where
  "same_private m m' s t \<longleftrightarrow> machine.more s = machine.more t \<and> machine.truncate s = m \<and> machine.truncate t = m'"

lemma machine_eqI: "machine.truncate s = machine.truncate t \<Longrightarrow> machine.more s = machine.more t \<Longrightarrow> s = t"
  for s t :: "'z machine_scheme"
  by (cases s; cases t) (auto simp: machine.defs)

text \<open>
  A program that leaves the private fields alone commutes with one that leaves the machine
  alone: what the second did before the first, it can do after it.
\<close>

locale mover =
  fixes shared :: "('z machine_scheme, 'a) prog" and own :: "('z machine_scheme, 'b) prog"
  assumes shared_only: "\<And>d d'. respecting (same_machine d d') shared"
    and own_only: "\<And>m m'. respecting (same_private m m') own"
begin

lemma postpone:
  assumes "own h s = Ret (v, t)" "shared h t = Ret (w, u)"
  shows "\<exists>s'. shared h s = Ret (w, s') \<and> own h s' = Ret (v, u)"
proof -
  have "same_private (machine.truncate s) (machine.truncate s) s s" by (simp add: same_private_def)
  with own_only have "outcome_rel (same_private (machine.truncate s) (machine.truncate s)) (own h s) (own h s)"
    by (simp add: respecting_def)
  with assms(1) have "same_private (machine.truncate s) (machine.truncate s) t t"
    by (simp add: outcome_rel_def)
  then have m: "machine.truncate t = machine.truncate s" by (simp add: same_private_def)
  then have "same_machine (machine.more t) (machine.more s) t s" by (simp add: same_machine_def)
  with shared_only have "outcome_rel (same_machine (machine.more t) (machine.more s)) (shared h t) (shared h s)"
    by (simp add: respecting_def)
  with assms(2) obtain s' where s': "shared h s = Ret (w, s')" "same_machine (machine.more t) (machine.more s) u s'"
    by (cases "shared h s") (auto simp: outcome_rel_def)
  then have "same_private (machine.truncate s) (machine.truncate s') s s'" 
    by (simp add: same_private_def same_machine_def)
  with own_only have "outcome_rel (same_private (machine.truncate s) (machine.truncate s')) (own h s) (own h s')"
    by (simp add: respecting_def)
  with assms(1) obtain u' where u': "own h s' = Ret (v, u')" "same_private (machine.truncate s) (machine.truncate s') t u'"
    by (cases "own h s'") (auto simp: outcome_rel_def)
  have "u' = u" 
    using u'(2) s'(2) by - (rule machine_eqI; simp add: same_private_def same_machine_def)
  with s'(1) u'(1) show ?thesis by blast
qed

end

subsection \<open>The machine\<close>

lemma same_machine_iff: "same_machine d d' s t \<longleftrightarrow> cycle_count s = cycle_count t \<and> reg s = reg t \<and>
    mem s = mem t \<and> trc s = trc t \<and> machine.more s = d \<and> machine.more t = d'"
  by (cases s; cases t) (auto simp: same_machine_def machine.defs)

lemma respecting_update_o:
  "(\<And>s t. R s t \<Longrightarrow> outcome_rel R (obind (f s) (\<lambda>s. Ret ((), s))) (obind (f t) (\<lambda>s. Ret ((), s)))) \<Longrightarrow> respecting R (update_o f)"
  by (simp add: respecting_def update_o_def)

lemma machine_elementary:
  "respecting (same_machine d d') (gets reg)" "respecting (same_machine d d') (upd_reg f)"
  "respecting (same_machine d d') (tr_register type rg md v)"
proof -
  show "respecting (same_machine d d') (gets reg)"
    by (rule respecting_gets) (simp add: same_machine_iff)
  show "respecting (same_machine d d') (upd_reg f)"
    unfolding upd_reg_def
  proof (rule respecting_update_o)
    fix s t :: "'a machine_scheme" assume "same_machine d d' s t"
    then show "outcome_rel (same_machine d d') (obind (obind (f (reg s)) (\<lambda>r. Ret (s\<lparr>reg := r\<rparr>))) (\<lambda>s. Ret ((), s)))
        (obind (obind (f (reg t)) (\<lambda>r. Ret (t\<lparr>reg := r\<rparr>))) (\<lambda>s. Ret ((), s)))"
      by (cases "f (reg t)") (auto simp: same_machine_iff outcome_rel_def)
  qed
  show "respecting (same_machine d d') (tr_register type rg md v)"
    unfolding tr_register_def
  proof (rule respecting_update_o)
    fix s t :: "'a machine_scheme" assume "same_machine d d' s t"
    then show "outcome_rel (same_machine d d')
        (obind (obind (trace_register (cycle_count s) type rg md v (trc s)) (\<lambda>x. Ret (s\<lparr>trc := x\<rparr>))) (\<lambda>s. Ret ((), s)))
        (obind (obind (trace_register (cycle_count t) type rg md v (trc t)) (\<lambda>x. Ret (t\<lparr>trc := x\<rparr>))) (\<lambda>s. Ret ((), s)))"
      by (cases "trace_register (cycle_count t) type rg md v (trc t)") (auto simp: same_machine_iff outcome_rel_def)
  qed
qed

lemma exception_shared_only: "respecting (same_machine d d') (irq_received ex)"
  unfolding irq_received_def arm_exception_def arm_write_cpsr_def arm_write_usr_register_def
  by (intro resp machine_elementary)

subsection \<open>The private fields\<close>

lemma same_private_iff: "same_private m m' s t \<longleftrightarrow> target_exception s = target_exception t \<and>
    gdb_packet s = gdb_packet t \<and> gdb_len s = gdb_len t \<and> calls s = calls t \<and> error_buffer s = error_buffer t \<and>
    error_len s = error_len t \<and> parser.more s = parser.more t \<and> machine.truncate s = m \<and> machine.truncate t = m'"
  by (cases s; cases t) (auto simp: same_private_def machine.defs)

lemma truncate_private [simp]:
  "machine.truncate (s\<lparr>calls := c\<rparr>) = machine.truncate s" "machine.truncate (s\<lparr>gdb_packet := b\<rparr>) = machine.truncate s"
  "machine.truncate (s\<lparr>gdb_len := n\<rparr>) = machine.truncate s" "machine.truncate (p\<lparr>error_buffer := b\<rparr>) = machine.truncate p"
  "machine.truncate (p\<lparr>error_len := n\<rparr>) = machine.truncate p"
  by (simp_all add: machine.defs)

lemma private_elementary:
  fixes m m' :: machine
  defines "R \<equiv> same_private m m' :: 'z parser_scheme \<Rightarrow> _"
  shows "respecting R (call c)" "respecting R (put_char i x)" "respecting R (put_string i w)" "respecting R (put_error k x)"
    "respecting R (gets gdb_packet)" "respecting R (gets error_len)" "respecting R (gets (\<lambda>g. take (nat (gdb_len g)) (gdb_packet g)))"
    "respecting R (modify (\<lambda>g. g\<lparr>gdb_len := n\<rparr>))" "respecting R (modify (\<lambda>p. p\<lparr>error_len := n\<rparr>))"
  unfolding R_def call_def put_char_def put_string_def put_error_def
  by (rule respecting_modify respecting_update_o respecting_gets; auto simp: same_private_iff outcome_rel_def)+

lemma token_private_only: "respecting (same_private m m') (token_head handler act text)"
  unfolding token_head_def packet_head_def yy_action_def handle_error_def add_character_to_error_def Let_def
    gdb_send_ack_def gdb_require_retransmission_def gdb_transmit_packet_def gdb_send_data_def gdb_send_buffer_def
  by (auto intro!: resp private_elementary split: option.split)

interpretation token: mover "irq_received irq" "token_head handler act text"
  by unfold_locales (rule exception_shared_only token_private_only)+

subsection \<open>An exception on the machine alone\<close>

text \<open>A program on the machine, in a state that has private fields.\<close>

definition on_machine :: "(machine, 'a) prog \<Rightarrow> ('z machine_scheme, 'a) prog" where
  "on_machine m = (\<lambda>h s. obind (m h (machine.truncate s)) (\<lambda>(v, q). Ret (v, machine.extend q (machine.more s))))"

lemma machine_extend [simp]:
  "machine.truncate (machine.extend (q :: machine) d) = q" "machine.more (machine.extend q d) = d"
  "machine.extend (machine.truncate s) (machine.more s) = s"
  by (cases q; cases s; simp add: machine.defs)+

lemma on_machine_bind: "on_machine (mbind m f) = mbind (on_machine m) (\<lambda>v. on_machine (f v))"
  by (intro ext) (auto simp: on_machine_def mbind_def obind_assoc split_def intro!: arg_cong2 [where f = obind])

lemma exception_on_machine: "arm_exception ex = on_machine (arm_exception ex)"
proof -
  have u: "upd_reg f = on_machine (upd_reg f)" for f
    by (intro ext, rename_tac h s, case_tac s)
      (simp add: upd_reg_def update_o_def on_machine_def machine.defs obind_assoc split_def)
  have t: "tr_register type rg md v = on_machine (tr_register type rg md v)" for type rg md v
    by (intro ext, rename_tac h s, case_tac s)
      (simp add: tr_register_def update_o_def on_machine_def machine.defs obind_assoc split_def)
  have r: "ret () = on_machine (ret ())"
    by (intro ext) (simp add: ret_def on_machine_def)
  show ?thesis
    unfolding arm_exception_def mwhen_def arm_write_cpsr_def arm_write_usr_register_def
    by (auto simp: on_machine_bind u [symmetric] t [symmetric] r [symmetric])
qed

section \<open>The threads\<close>

text \<open>
  Where a thread is. The debugger's thread scans a token up to the mutex, waits for it, makes the
  call and releases it; the interrupt thread reads a byte, waits for the mutex, calls
  \<open>arm_exception\<close>, which has the machine only, and releases it. In a call there is a program left
  to do, and a number of times it may still be cut.
\<close>

datatype gdb_place = Scanning | Wanting "(unit, unit) lexer" | Serving nat "(unit, unit) lexer" | Leaving
datatype irq_place = Listening | Requesting u8 | Raising u8 nat "(machine, unit) prog" | Releasing
datatype thread = Gdb_thread | Irq_thread

text \<open>\<open>mutex\<close> is the thread that holds the mutex.\<close>

record threads =
  gdb_input :: "u8 list"
  irq_input :: "u8 list"
  gdb_at :: gdb_place
  irq_at :: irq_place
  mutex :: "thread option"
  state :: parser

text \<open>
  To cut a program is to find any first part \<open>a\<close>, which hands over what is left to do, so that both
  together are the program: it may have read some of the state and not yet have written what it
  makes of it. The other thread may run between the parts. Every call is cut at most \<open>cuts\<close> times.
\<close>

inductive thread_step :: "nat \<Rightarrow> nat \<Rightarrow> host \<Rightarrow> threads \<Rightarrow> threads \<Rightarrow> bool" for cuts fuel h where
  scan: "gdb_at c = Scanning \<Longrightarrow> gdb_input c \<noteq> [] \<Longrightarrow> yy_token (gdb_input c) = Some (act, k) \<Longrightarrow>
     token_head (gdb_init fuel) act (take k (gdb_input c)) h (state c) = Ret (r, p) \<Longrightarrow>
     thread_step cuts fuel h c (c\<lparr>gdb_input := drop k (gdb_input c),
       gdb_at := (case r of None \<Rightarrow> Scanning | Some f \<Rightarrow> Wanting f), state := p\<rparr>)"
| gdb_lock: "gdb_at c = Wanting f \<Longrightarrow> mutex c = None \<Longrightarrow> call Mutex_lock h (state c) = Ret ((), p) \<Longrightarrow>
     thread_step cuts fuel h c (c\<lparr>gdb_at := Serving cuts f, mutex := Some Gdb_thread, state := p\<rparr>)"
| serve_part: "gdb_at c = Serving (Suc n) f \<Longrightarrow> f = mbind a (\<lambda>k. k) \<Longrightarrow> a h (state c) = Ret (k, p) \<Longrightarrow>
     thread_step cuts fuel h c (c\<lparr>gdb_at := Serving n k, state := p\<rparr>)"
| serve: "gdb_at c = Serving n f \<Longrightarrow> f h (state c) = Ret ((), p) \<Longrightarrow>
     thread_step cuts fuel h c (c\<lparr>gdb_at := Leaving, state := p\<rparr>)"
| gdb_unlock: "gdb_at c = Leaving \<Longrightarrow> call Mutex_unlock h (state c) = Ret ((), p) \<Longrightarrow>
     thread_step cuts fuel h c (c\<lparr>gdb_at := Scanning, mutex := None, state := p\<rparr>)"
| irq_read: "irq_at c = Listening \<Longrightarrow> irq_input c = irq # irqs \<Longrightarrow>
     thread_step cuts fuel h c (c\<lparr>irq_input := irqs, irq_at := Requesting irq\<rparr>)"
| irq_lock: "irq_at c = Requesting irq \<Longrightarrow> mutex c = None \<Longrightarrow>
     thread_step cuts fuel h c (c\<lparr>irq_at := Raising irq cuts (arm_exception irq), mutex := Some Irq_thread\<rparr>)"
| irq_part: "irq_at c = Raising irq (Suc n) m \<Longrightarrow> m = mbind a (\<lambda>k. k) \<Longrightarrow> on_machine a h (state c) = Ret (k, p) \<Longrightarrow>
     thread_step cuts fuel h c (c\<lparr>irq_at := Raising irq n k, state := p\<rparr>)"
| irq_raise: "irq_at c = Raising irq n m \<Longrightarrow> on_machine m h (state c) = Ret ((), p) \<Longrightarrow>
     thread_step cuts fuel h c (c\<lparr>irq_at := Releasing, state := p\<rparr>)"
| irq_unlock: "irq_at c = Releasing \<Longrightarrow> thread_step cuts fuel h c (c\<lparr>irq_at := Listening, mutex := None\<rparr>)"

definition started :: "u8 list \<Rightarrow> u8 list \<Rightarrow> parser \<Rightarrow> threads" where
  "started input irqs p = \<lparr>gdb_input = input, irq_input = irqs, gdb_at = Scanning, irq_at = Listening,
     mutex = None, state = p\<rparr>"

text \<open>
  What the mutex is for: if both threads were in their calls, an interrupt could be lost. The
  handler has read the state before the interrupt and writes what it makes of it behind it.
\<close>

lemma interrupt_lost:
  assumes "gdb_at c = Serving (Suc n) f" "irq_at c = Raising irq m e"
    and "f h (state c) = Ret ((), p)" "on_machine e h (state c) = Ret ((), q)"
  shows "(thread_step cuts fuel h)\<^sup>*\<^sup>* c (c\<lparr>gdb_at := Leaving, irq_at := Releasing, state := p\<rparr>)"
proof -
  let ?a = "\<lambda>h s. Ret (\<lambda>h' _. f h' s, s)" and ?k = "\<lambda>h' _. f h' (state c)"
  have "f = mbind ?a (\<lambda>k. k)" by (auto simp: fun_eq_iff mbind_def)
  from serve_part [OF assms(1) this refl] have "thread_step cuts fuel h c (c\<lparr>gdb_at := Serving n ?k, state := state c\<rparr>)" .
  then have 1: "thread_step cuts fuel h c (c\<lparr>gdb_at := Serving n ?k\<rparr>)" by (cases c) simp
  have 2: "thread_step cuts fuel h \<dots> (c\<lparr>gdb_at := Serving n ?k, irq_at := Releasing, state := q\<rparr>)"
    using irq_raise [of "c\<lparr>gdb_at := Serving n ?k\<rparr>" irq m e h q cuts fuel] assms(2,4) by simp
  have 3: "thread_step cuts fuel h \<dots> (c\<lparr>gdb_at := Leaving, irq_at := Releasing, state := p\<rparr>)"
    using serve [of "c\<lparr>gdb_at := Serving n ?k, irq_at := Releasing, state := q\<rparr>" n ?k h p cuts fuel] assms(3)
    by (cases c) simp
  from 1 2 3 show ?thesis by (meson converse_rtranclp_into_rtranclp rtranclp.rtrancl_refl)
qed

section \<open>The threads as whole actions\<close>

text \<open>
  A state of the threads against a state of \<open>sim_step\<close>, in which an action happens as a whole: a
  token when the mutex is released, an interrupt when \<open>arm_exception\<close> returns.
\<close>

definition irqs_left :: "threads \<Rightarrow> u8 list" where
  "irqs_left c = (case irq_at c of Requesting irq \<Rightarrow> irq # irq_input c | Raising irq n m \<Rightarrow> irq # irq_input c | _ \<Rightarrow> irq_input c)"

text \<open>
  The state \<open>x\<close> without what has been done of an interrupt: what is left of the exception makes of the
  machine what the whole of it makes of the machine in \<open>x\<close>.
\<close>

definition settled :: "host \<Rightarrow> threads \<Rightarrow> parser \<Rightarrow> bool" where
  "settled h c x \<longleftrightarrow> (case irq_at c of
     Raising irq n m \<Rightarrow> m h (machine.truncate (state c)) = arm_exception irq h (machine.truncate x) \<and>
       machine.more (state c) = machine.more x
   | _ \<Rightarrow> x = state c)"

text \<open>What has been done of a token, from the state \<open>p\<close>, up to the call \<open>f\<close> under the mutex.\<close>

definition scanned :: "nat \<Rightarrow> host \<Rightarrow> u8 list \<Rightarrow> parser \<Rightarrow> threads \<Rightarrow> (unit, unit) lexer \<Rightarrow> parser \<Rightarrow> bool" where
  "scanned fuel h input p c f q \<longleftrightarrow> input \<noteq> [] \<and> (\<exists>act k. yy_token input = Some (act, k) \<and>
     gdb_input c = drop k input \<and> token_head (gdb_init fuel) act (take k input) h p = Ret (Some f, q))"

text \<open>And up to the state \<open>x\<close>; what is left of the call makes of it what the whole call made of the state it began in.\<close>

definition progress :: "nat \<Rightarrow> host \<Rightarrow> u8 list \<Rightarrow> parser \<Rightarrow> threads \<Rightarrow> parser \<Rightarrow> bool" where
  "progress fuel h input p c x \<longleftrightarrow> (case gdb_at c of
     Scanning \<Rightarrow> gdb_input c = input \<and> x = p
   | Wanting f \<Rightarrow> scanned fuel h input p c f x
   | Serving n g \<Rightarrow> \<exists>f q r. scanned fuel h input p c f q \<and> call Mutex_lock h q = Ret ((), r) \<and> g h x = f h r
   | Leaving \<Rightarrow> \<exists>f q r. scanned fuel h input p c f q \<and> call Mutex_lock h q = Ret ((), r) \<and> f h r = Ret ((), x))"

definition exclusive :: "threads \<Rightarrow> bool" where
  "exclusive c \<longleftrightarrow> (mutex c = Some Gdb_thread \<longleftrightarrow> (\<exists>n f. gdb_at c = Serving n f) \<or> gdb_at c = Leaving) \<and>
     (mutex c = Some Irq_thread \<longleftrightarrow> (\<exists>irq n m. irq_at c = Raising irq n m) \<or> irq_at c = Releasing)"

definition follows :: "nat \<Rightarrow> host \<Rightarrow> config \<Rightarrow> threads \<Rightarrow> bool" where
  "follows fuel h s c \<longleftrightarrow> exclusive c \<and>
     (\<exists>input p x. sim_steps fuel h s (input, irqs_left c, p) \<and> settled h c x \<and> progress fuel h input p c x)"

lemma scanned_simps [simp]:
  "scanned fuel h input p (c\<lparr>gdb_at := a\<rparr>) f q = scanned fuel h input p c f q"
  "scanned fuel h input p (c\<lparr>irq_at := b\<rparr>) f q = scanned fuel h input p c f q"
  "scanned fuel h input p (c\<lparr>mutex := m\<rparr>) f q = scanned fuel h input p c f q"
  "scanned fuel h input p (c\<lparr>state := r\<rparr>) f q = scanned fuel h input p c f q"
  "scanned fuel h input p (c\<lparr>irq_input := i\<rparr>) f q = scanned fuel h input p c f q"
  by (simp_all add: scanned_def)

lemma progress_simps [simp]:
  "progress fuel h input p (c\<lparr>irq_at := b\<rparr>) x = progress fuel h input p c x"
  "progress fuel h input p (c\<lparr>mutex := m\<rparr>) x = progress fuel h input p c x"
  "progress fuel h input p (c\<lparr>state := r\<rparr>) x = progress fuel h input p c x"
  "progress fuel h input p (c\<lparr>irq_input := i\<rparr>) x = progress fuel h input p c x"
  by (simp_all add: progress_def split: gdb_place.split)

lemma irqs_left_simps [simp]:
  "irqs_left (c\<lparr>gdb_at := a\<rparr>) = irqs_left c" "irqs_left (c\<lparr>gdb_input := i\<rparr>) = irqs_left c"
  "irqs_left (c\<lparr>mutex := m\<rparr>) = irqs_left c" "irqs_left (c\<lparr>state := r\<rparr>) = irqs_left c"
  by (simp_all add: irqs_left_def split: irq_place.split)

lemma settled_simps [simp]:
  "settled h (c\<lparr>gdb_at := a\<rparr>) x = settled h c x" "settled h (c\<lparr>gdb_input := i\<rparr>) x = settled h c x"
  "settled h (c\<lparr>mutex := m\<rparr>) x = settled h c x" "settled h (c\<lparr>irq_input := i\<rparr>) x = settled h c x"
  by (simp_all add: settled_def split: irq_place.split)

text \<open>A token that needs no mutex, and the whole of one that does.\<close>

lemma token_done:
  assumes "input \<noteq> []" "yy_token input = Some (act, k)" "token_head (gdb_init fuel) act (take k input) h p = Ret (None, q)"
  shows "sim_step fuel h (input, irqs, p) (drop k input, irqs, q)"
proof -
  from assms(3) have "yy_action (gdb_init fuel) act (take k input) h p = Ret ((), q)"
    by (simp add: token_split mbind_def ret_def)
  with assms(1,2) show ?thesis by (rule gdb_token)
qed

lemma token_whole:
  assumes "scanned fuel h input p c f q" "call Mutex_lock h q = Ret ((), r)" "f h r = Ret ((), u)"
    "call Mutex_unlock h u = Ret ((), w)"
  shows "sim_step fuel h (input, irqs, p) (gdb_input c, irqs, w)"
proof -
  from assms(1) obtain act k where k: "input \<noteq> []" "yy_token input = Some (act, k)" "gdb_input c = drop k input"
    "token_head (gdb_init fuel) act (take k input) h p = Ret (Some f, q)" by (auto simp: scanned_def)
  with assms(2-4) have "yy_action (gdb_init fuel) act (take k input) h p = Ret ((), w)"
    by (simp add: token_split mbind_def)
  with k show ?thesis by (auto intro: gdb_token)
qed

text \<open>An interrupt between the scanning of a token and the call under the mutex comes before both.\<close>

lemma interrupt_first:
  assumes "scanned fuel h input p c f q" "irq_received irq h q = Ret ((), r)"
  shows "\<exists>p'. irq_received irq h p = Ret ((), p') \<and> scanned fuel h input p' c f r"
  using assms token.postpone unfolding scanned_def by blast

lemma exclusive_calm:
  assumes "exclusive c" "mutex c \<noteq> Some Irq_thread"
  shows "settled h c x \<longleftrightarrow> x = state c"
  using assms by (auto simp: exclusive_def settled_def split: irq_place.split)

text \<open>The scanning of a token between two parts of an exception, and without them.\<close>

lemma scan_anywhere:
  assumes "token_head handler act text h s = Ret (r, t)" "machine.more s = machine.more x"
  shows "\<exists>y. token_head handler act text h x = Ret (r, y) \<and> machine.more y = machine.more t \<and>
    machine.truncate y = machine.truncate x \<and> machine.truncate t = machine.truncate s"
proof -
  have "same_private (machine.truncate s) (machine.truncate x) s x" using assms(2) by (simp add: same_private_def)
  moreover have "respecting (same_private (machine.truncate s) (machine.truncate x)) (token_head handler act text)"
    by (rule token_private_only)
  ultimately have "outcome_rel (same_private (machine.truncate s) (machine.truncate x))
      (token_head handler act text h s) (token_head handler act text h x)"
    unfolding respecting_def by blast
  with assms(1) show ?thesis
    by (cases "token_head handler act text h x") (auto simp: outcome_rel_def same_private_def)
qed

lemma raised:
  assumes "settled h c x" "irq_at c = Raising irq n m" "on_machine m h (state c) = Ret ((), p)"
  shows "irq_received irq h x = Ret ((), p)"
proof -
  have "on_machine m h (state c) = on_machine (arm_exception irq) h x"
    using assms(1,2) by (simp add: settled_def on_machine_def)
  with assms(3) show ?thesis by (simp add: irq_received_def exception_on_machine [of irq, symmetric])
qed

lemma follows_intro:
  "exclusive d \<Longrightarrow> sim_steps fuel h s (input, irqs_left d, p) \<Longrightarrow> settled h d x \<Longrightarrow> progress fuel h input p d x \<Longrightarrow>
    follows fuel h s d"
  by (auto simp: follows_def)

text \<open>The steps of the debugger's thread.\<close>

lemma follows_scan:
  assumes "follows fuel h s c" "gdb_at c = Scanning" "gdb_input c \<noteq> []" "yy_token (gdb_input c) = Some (act, k)"
    and "token_head (gdb_init fuel) act (take k (gdb_input c)) h (state c) = Ret (r, q)"
  shows "follows fuel h s (c\<lparr>gdb_input := drop k (gdb_input c), gdb_at := (case r of None \<Rightarrow> Scanning | Some f \<Rightarrow> Wanting f), state := q\<rparr>)"
    (is "follows fuel h s ?d")
proof -
  from assms(1,2) obtain p where e: "exclusive c" and s: "sim_steps fuel h s (gdb_input c, irqs_left c, p)"
    and y: "settled h c p" by (auto simp: follows_def progress_def)
  have "machine.more (state c) = machine.more p" using y by (auto simp: settled_def split: irq_place.splits)
  from scan_anywhere [OF assms(5) this] obtain z where
    z: "token_head (gdb_init fuel) act (take k (gdb_input c)) h p = Ret (r, z)"
    "machine.more z = machine.more q" "machine.truncate z = machine.truncate p" "machine.truncate q = machine.truncate (state c)"
    by (elim exE conjE)
  have e': "exclusive ?d" using e assms(2) by (cases r) (simp_all add: exclusive_def)
  have "z = q" if "p = state c" using z(2-4) unfolding that by - (rule machine_eqI, simp_all)
  with y z(2-4) have y': "settled h ?d z" by (cases "irq_at c") (simp_all add: settled_def)
  show ?thesis
  proof (cases r)
    case None
    from token_done [OF assms(3,4) z(1) [unfolded None], of "irqs_left c"] s
    have "sim_steps fuel h s (drop k (gdb_input c), irqs_left c, z)" by (rule rtranclp.rtrancl_into_rtrancl [rotated])
    then have "sim_steps fuel h s (drop k (gdb_input c), irqs_left ?d, z)" by simp
    moreover have "progress fuel h (drop k (gdb_input c)) z ?d z" using None by (simp add: progress_def)
    ultimately show ?thesis using y' by (intro follows_intro [OF e'])
  next
    case (Some f)
    with z(1) assms(3,4) have "progress fuel h (gdb_input c) p ?d z" by (auto simp: progress_def scanned_def)
    moreover have "sim_steps fuel h s (gdb_input c, irqs_left ?d, p)" using s by simp
    ultimately show ?thesis using y' by (intro follows_intro [OF e'])
  qed
qed

text \<open>While the other thread has not the mutex, the state is settled.\<close>

lemma follows_calm:
  assumes "follows fuel h s c" "mutex c \<noteq> Some Irq_thread"
  obtains input p where "exclusive c" "sim_steps fuel h s (input, irqs_left c, p)" "progress fuel h input p c (state c)"
proof -
  from assms(1) obtain input p x where x: "exclusive c" "sim_steps fuel h s (input, irqs_left c, p)" "settled h c x"
    "progress fuel h input p c x" by (auto simp: follows_def)
  with exclusive_calm [OF x(1) assms(2)] have "x = state c" by simp
  with x that show thesis by blast
qed

lemma followsI:
  assumes "exclusive d" "mutex d \<noteq> Some Irq_thread" "sim_steps fuel h s (input, irqs_left d, p)" "progress fuel h input p d (state d)"
  shows "follows fuel h s d"
  using assms exclusive_calm [OF assms(1,2)] unfolding follows_def by blast

lemma follows_serving:
  assumes "follows fuel h s c"
  shows "gdb_at c = Wanting f \<Longrightarrow> mutex c = None \<Longrightarrow> call Mutex_lock h (state c) = Ret ((), q) \<Longrightarrow>
      follows fuel h s (c\<lparr>gdb_at := Serving n f, mutex := Some Gdb_thread, state := q\<rparr>)"
    and "gdb_at c = Serving (Suc n) f \<Longrightarrow> f = mbind a (\<lambda>k. k) \<Longrightarrow> a h (state c) = Ret (k, q) \<Longrightarrow>
      follows fuel h s (c\<lparr>gdb_at := Serving n k, state := q\<rparr>)"
    and "gdb_at c = Serving n f \<Longrightarrow> f h (state c) = Ret ((), q) \<Longrightarrow> follows fuel h s (c\<lparr>gdb_at := Leaving, state := q\<rparr>)"
    and "gdb_at c = Leaving \<Longrightarrow> call Mutex_unlock h (state c) = Ret ((), q) \<Longrightarrow>
      follows fuel h s (c\<lparr>gdb_at := Scanning, mutex := None, state := q\<rparr>)"
proof -
  have e: "exclusive c" using assms by (simp add: follows_def)
  then have held: "gdb_at c = Serving i g \<or> gdb_at c = Leaving \<Longrightarrow> mutex c = Some Gdb_thread" for i g
    by (auto simp: exclusive_def)
  {
    assume a: "gdb_at c = Wanting f" "mutex c = None" "call Mutex_lock h (state c) = Ret ((), q)"
    with assms obtain input p where x: "sim_steps fuel h s (input, irqs_left c, p)" "progress fuel h input p c (state c)"
      by (auto elim: follows_calm)
    show "follows fuel h s (c\<lparr>gdb_at := Serving n f, mutex := Some Gdb_thread, state := q\<rparr>)"
      using a e x by (intro followsI [of _ fuel h s input p]) (auto simp: exclusive_def progress_def)
  next
    assume a: "gdb_at c = Serving (Suc n) f" "f = mbind a (\<lambda>k. k)" "a h (state c) = Ret (k, q)"
    with assms held obtain input p where x: "sim_steps fuel h s (input, irqs_left c, p)" "progress fuel h input p c (state c)"
      by (auto elim: follows_calm)
    have "k h q = f h (state c)" using a(2,3) by (simp add: mbind_def)
    with a e x show "follows fuel h s (c\<lparr>gdb_at := Serving n k, state := q\<rparr>)"
      by (intro followsI [of _ fuel h s input p]) (auto simp: exclusive_def progress_def)
  next
    assume a: "gdb_at c = Serving n f" "f h (state c) = Ret ((), q)"
    with assms held obtain input p where x: "sim_steps fuel h s (input, irqs_left c, p)" "progress fuel h input p c (state c)"
      by (auto elim: follows_calm)
    then obtain f' q' r where r: "scanned fuel h input p c f' q'" "call Mutex_lock h q' = Ret ((), r)" "f h (state c) = f' h r"
      using a(1) by (auto simp: progress_def)
    with a(2) have "f' h r = Ret ((), q)" by simp
    with a(1) e x(1) r(1,2) show "follows fuel h s (c\<lparr>gdb_at := Leaving, state := q\<rparr>)"
      by (intro followsI [of _ fuel h s input p]) (auto simp: exclusive_def progress_def)
  next
    assume a: "gdb_at c = Leaving" "call Mutex_unlock h (state c) = Ret ((), q)"
    with assms held obtain input p where x: "sim_steps fuel h s (input, irqs_left c, p)" "progress fuel h input p c (state c)"
      by (auto elim: follows_calm)
    then obtain f q' r where "scanned fuel h input p c f q'" "call Mutex_lock h q' = Ret ((), r)" "f h r = Ret ((), state c)"
      using a(1) by (auto simp: progress_def)
    from token_whole [OF this a(2), of "irqs_left c"] x(1)
    have "sim_steps fuel h s (gdb_input c, irqs_left c, q)" by (rule rtranclp.rtrancl_into_rtrancl [rotated])
    with a e show "follows fuel h s (c\<lparr>gdb_at := Scanning, mutex := None, state := q\<rparr>)"
      by (intro followsI [of _ fuel h s "gdb_input c" q]) (auto simp: exclusive_def progress_def)
  }
qed

text \<open>The steps of the interrupt thread.\<close>

lemma follows_irq:
  assumes "follows fuel h s c"
  shows "irq_at c = Listening \<Longrightarrow> irq_input c = irq # irqs \<Longrightarrow> follows fuel h s (c\<lparr>irq_input := irqs, irq_at := Requesting irq\<rparr>)"
    and "irq_at c = Requesting irq \<Longrightarrow> mutex c = None \<Longrightarrow>
      follows fuel h s (c\<lparr>irq_at := Raising irq n (arm_exception irq), mutex := Some Irq_thread\<rparr>)"
    and "irq_at c = Raising irq (Suc n) m \<Longrightarrow> m = mbind a (\<lambda>k. k) \<Longrightarrow> on_machine a h (state c) = Ret (k, q) \<Longrightarrow>
      follows fuel h s (c\<lparr>irq_at := Raising irq n k, state := q\<rparr>)"
    and "irq_at c = Raising irq n m \<Longrightarrow> on_machine m h (state c) = Ret ((), q) \<Longrightarrow>
      follows fuel h s (c\<lparr>irq_at := Releasing, state := q\<rparr>)"
    and "irq_at c = Releasing \<Longrightarrow> follows fuel h s (c\<lparr>irq_at := Listening, mutex := None\<rparr>)"
proof -
  from assms obtain input p x where e: "exclusive c" and s: "sim_steps fuel h s (input, irqs_left c, p)"
    and y: "settled h c x" and g: "progress fuel h input p c x" by (auto simp: follows_def)
  have intro: "follows fuel h s d" if "exclusive d" "irqs_left d = irqs_left c" "settled h d x" "progress fuel h input p d x" for d
    using that s by (intro follows_intro [of d fuel h s input p x]) simp_all
  {
    assume a: "irq_at c = Listening" "irq_input c = irq # irqs"
    with e y g show "follows fuel h s (c\<lparr>irq_input := irqs, irq_at := Requesting irq\<rparr>)"
      by (intro intro) (auto simp: exclusive_def irqs_left_def settled_def)
  next
    assume a: "irq_at c = Requesting irq" "mutex c = None"
    with e y g show "follows fuel h s (c\<lparr>irq_at := Raising irq n (arm_exception irq), mutex := Some Irq_thread\<rparr>)"
      by (intro intro) (auto simp: exclusive_def irqs_left_def settled_def)
  next
    assume a: "irq_at c = Raising irq (Suc n) m" "m = mbind a (\<lambda>k. k)" "on_machine a h (state c) = Ret (k, q)"
    then obtain v where "a h (machine.truncate (state c)) = Ret (k, v)" "q = machine.extend v (machine.more (state c))"
      by (auto simp: on_machine_def obind_Ret_iff)
    with a(1,2) e y g show "follows fuel h s (c\<lparr>irq_at := Raising irq n k, state := q\<rparr>)"
      by (intro intro) (auto simp: exclusive_def irqs_left_def settled_def mbind_def)
  next
    assume a: "irq_at c = Raising irq n m" "on_machine m h (state c) = Ret ((), q)"
    let ?d = "c\<lparr>irq_at := Releasing, state := q\<rparr>"
    have r: "irq_received irq h x = Ret ((), q)" by (rule raised [OF y a])
    have m: "(\<forall>n f. gdb_at c \<noteq> Serving n f) \<and> gdb_at c \<noteq> Leaving" using e a(1) by (auto simp: exclusive_def)
    obtain p' where p': "irq_received irq h p = Ret ((), p')" "progress fuel h input p' ?d q"
    proof (cases "gdb_at c")
      case (Wanting f)
      with g have "scanned fuel h input p c f x" by (simp add: progress_def)
      from interrupt_first [OF this r] Wanting that show thesis by (auto simp: progress_def)
    qed (use g m r that in \<open>auto simp: progress_def\<close>)
    have l: "irqs_left c = irq # irqs_left ?d" using a(1) by (simp add: irqs_left_def)
    from s irq_byte [OF p'(1)] have "sim_steps fuel h s (input, irqs_left ?d, p')"
      unfolding l by (rule rtranclp.rtrancl_into_rtrancl)
    moreover have "exclusive ?d" "settled h ?d q" using e a(1) by (auto simp: exclusive_def settled_def)
    ultimately show "follows fuel h s ?d" using p'(2) by (intro follows_intro)
  next
    assume a: "irq_at c = Releasing"
    with e y g show "follows fuel h s (c\<lparr>irq_at := Listening, mutex := None\<rparr>)"
      by (intro intro) (auto simp: exclusive_def irqs_left_def settled_def)
  }
qed

lemma follows_step:
  assumes "thread_step cuts fuel h c d" "follows fuel h s c"
  shows "follows fuel h s d"
  using assms(1) by cases (auto intro: follows_scan follows_serving follows_irq assms(2))

lemma follows_steps:
  assumes "(thread_step cuts fuel h)\<^sup>*\<^sup>* (started input irqs p) c"
  shows "follows fuel h (input, irqs, p) c"
  using assms
proof (induction rule: rtranclp_induct)
  case base
  show ?case by (auto simp: follows_def started_def exclusive_def irqs_left_def settled_def progress_def)
qed (rule follows_step)

text \<open>A whole action as steps of its thread.\<close>

lemma started_simps [simp]:
  "gdb_input (started i q p) = i" "irq_input (started i q p) = q" "gdb_at (started i q p) = Scanning"
  "irq_at (started i q p) = Listening" "mutex (started i q p) = None" "state (started i q p) = p"
  by (simp_all add: started_def)

lemma action_steps:
  assumes "sim_step fuel h (i, q, p) (i', q', p')"
  shows "(thread_step cuts fuel h)\<^sup>*\<^sup>* (started i q p) (started i' q' p')"
  using assms
proof cases
  case (gdb_token act k)
  then obtain f s where f: "token_head (gdb_init fuel) act (take k i) h p = Ret (f, s)"
    and u: "under_mutex f h s = Ret ((), p')"
    by (auto simp: token_split mbind_def obind_Ret_iff)
  let ?c = "(started i q p)\<lparr>gdb_input := i', gdb_at := case f of None \<Rightarrow> Scanning | Some f \<Rightarrow> Wanting f, state := s\<rparr>"
  have 1: "thread_step cuts fuel h (started i q p) ?c"
    using gdb_token scan [of "started i q p" act k fuel h f s cuts] f by simp
  show ?thesis
  proof (cases f)
    case None
    with u have "?c = started i' q' p'" using gdb_token by (simp add: ret_def started_def)
    with 1 show ?thesis by auto
  next
    case (Some g)
    with u obtain t w where t: "call Mutex_lock h s = Ret ((), t)" "g h t = Ret ((), w)" "call Mutex_unlock h w = Ret ((), p')"
      by (auto simp: mbind_def obind_Ret_iff)
    have 2: "thread_step cuts fuel h ?c (?c\<lparr>gdb_at := Serving cuts g, mutex := Some Gdb_thread, state := t\<rparr>)"
      using Some t(1) by (intro gdb_lock) simp_all
    have 3: "thread_step cuts fuel h \<dots> (?c\<lparr>mutex := Some Gdb_thread, gdb_at := Leaving, state := w\<rparr>)"
      using serve [of "?c\<lparr>gdb_at := Serving cuts g, mutex := Some Gdb_thread, state := t\<rparr>" cuts g h w cuts fuel] t(2) by simp
    have 4: "thread_step cuts fuel h \<dots> (started i' q' p')"
      using gdb_unlock [of "?c\<lparr>mutex := Some Gdb_thread, gdb_at := Leaving, state := w\<rparr>" h p' cuts fuel] t(3) gdb_token
      by (simp add: started_def)
    from 1 2 3 4 show ?thesis by (meson converse_rtranclp_into_rtranclp rtranclp.rtrancl_refl)
  qed
next
  case (irq_byte irq)
  let ?c = "started i q p"
  have 1: "thread_step cuts fuel h ?c (?c\<lparr>irq_input := q', irq_at := Requesting irq\<rparr>)"
    using irq_byte by (intro irq_read) simp_all
  have 2: "thread_step cuts fuel h \<dots> (?c\<lparr>irq_input := q', irq_at := Raising irq cuts (arm_exception irq), mutex := Some Irq_thread\<rparr>)"
    using irq_lock [of "?c\<lparr>irq_input := q', irq_at := Requesting irq\<rparr>" irq cuts fuel h] by simp
  have 3: "thread_step cuts fuel h \<dots> (?c\<lparr>irq_input := q', mutex := Some Irq_thread, irq_at := Releasing, state := p'\<rparr>)"
    using irq_raise [of "?c\<lparr>irq_input := q', irq_at := Raising irq cuts (arm_exception irq), mutex := Some Irq_thread\<rparr>" irq cuts "arm_exception irq" h p' cuts fuel] irq_byte
    by (simp add: irq_received_def exception_on_machine [of irq, symmetric])
  have 4: "thread_step cuts fuel h \<dots> (started i' q' p')"
    using irq_unlock [of "?c\<lparr>irq_input := q', mutex := Some Irq_thread, irq_at := Releasing, state := p'\<rparr>" cuts fuel h] irq_byte
    by (simp add: started_def)
  from 1 2 3 4 show ?thesis by (meson converse_rtranclp_into_rtranclp rtranclp.rtrancl_refl)
qed

lemma actions_steps:
  assumes "sim_steps fuel h (input, irqs, p) d"
  shows "(thread_step cuts fuel h)\<^sup>*\<^sup>* (started input irqs p) (started (fst d) (fst (snd d)) (snd (snd d)))"
  using assms
proof (induction rule: rtranclp_induct)
  case (step d e)
  obtain i q r where d: "d = (i, q, r)" by (cases d)
  obtain i' q' r' where e: "e = (i', q', r')" by (cases e)
  from action_steps [of fuel h i q r i' q' r'] step.hyps(2) have "(thread_step cuts fuel h)\<^sup>*\<^sup>* (started i q r) (started i' q' r')"
    by (simp add: d e)
  with step.IH show ?case by (simp add: d e)
qed simp

section \<open>Properties\<close>

text \<open>
  C6: The mutex makes the calls under it whole, for every interleaving of the steps of the threads and
  wherever and however often (\<open>cuts\<close>) the calls may be cut into parts between which the other thread
  runs: what the threads can do together, between two waits of each, is what sequences of whole
  tokens and whole interrupts can do, and conversely. No state that a handler has read is
  stale when it writes: without the mutex a whole interrupt could be lost between two parts
  (\<open>interrupt_lost\<close>).
\<close>

theorem threads_atomic:
  "(\<exists>c. (thread_step cuts fuel h)\<^sup>*\<^sup>* (started input irqs p) c \<and> gdb_at c = Scanning \<and> irq_at c = Listening \<and>
      gdb_input c = input' \<and> irq_input c = irqs' \<and> state c = p') \<longleftrightarrow>
    sim_steps fuel h (input, irqs, p) (input', irqs', p')"
proof
  assume "\<exists>c. (thread_step cuts fuel h)\<^sup>*\<^sup>* (started input irqs p) c \<and> gdb_at c = Scanning \<and> irq_at c = Listening \<and>
      gdb_input c = input' \<and> irq_input c = irqs' \<and> state c = p'"
  then obtain c where c: "follows fuel h (input, irqs, p) c" "gdb_at c = Scanning" "irq_at c = Listening"
    "gdb_input c = input'" "irq_input c = irqs'" "state c = p'" using follows_steps by blast
  then show "sim_steps fuel h (input, irqs, p) (input', irqs', p')"
    by (auto simp: follows_def progress_def settled_def irqs_left_def)
next
  assume "sim_steps fuel h (input, irqs, p) (input', irqs', p')"
  from actions_steps [OF this]
  show "\<exists>c. (thread_step cuts fuel h)\<^sup>*\<^sup>* (started input irqs p) c \<and> gdb_at c = Scanning \<and> irq_at c = Listening \<and>
      gdb_input c = input' \<and> irq_input c = irqs' \<and> state c = p'"
    by (intro exI [of _ "started input' irqs' p'"]) simp
qed

text \<open>The threads are never both between the lock and the unlock of the mutex.\<close>

theorem mutual_exclusion:
  assumes "(thread_step cuts fuel h)\<^sup>*\<^sup>* (started input irqs p) c"
  shows "\<not> ((\<exists>n f. gdb_at c = Serving n f) \<and> (\<exists>irq n m. irq_at c = Raising irq n m))"
  using follows_steps [OF assms] by (auto simp: follows_def exclusive_def)

end
