(* ===== verification/Sockets.thy ===== *)
theory Sockets
  imports Simulator Robust_Writes Scan_Stream
begin

text \<open>
  The connections: the wrappers of \<open>csapp.c\<close> for the system calls on sockets, the two listeners of
  \<open>arm_simulator.c\<close>, and the program \<open>send_irq.c\<close> that sends an interrupt. What the system calls
  answer is a list, and a call without an answer blocks; the calls made are recorded. The mutex
  around \<open>arm_exception\<close> is in \<open>Threads\<close>.
\<close>

section \<open>System calls\<close>

text \<open>\<open>struct sockaddr_in\<close>, of the family \<open>AF_INET\<close>; the port is as the program stores it.\<close>

record sockaddr_in =
  sin_port :: u16
  sin_addr :: "u8 list"

datatype syscall =
    Sys_socket | Sys_setsockopt int | Sys_bind int sockaddr_in | Sys_getsockname int | Sys_listen int int
  | Sys_accept int | Sys_connect int sockaddr_in | Sys_gethostbyname string | Sys_read int
  | Sys_write int "u8 list" | Sys_shutdown int | Sys_close int

text \<open>
  An answer: the number returned, for \<open>gethostbyname\<close> 0 for the null pointer; the octets a \<open>read\<close>
  stores or the \<open>h_addr\<close> of a host; and the address \<open>getsockname\<close> stores.
\<close>

record answer =
  result :: int
  stored :: "u8 list"
  address :: sockaddr_in

text \<open>A thread or a process; \<open>shared\<close> is the state it works on besides.\<close>

record 's process =
  answers :: "answer list"
  system_calls :: "(syscall \<times> int) list"
  shared :: 's

type_synonym ('s, 'a) io_prog = "('s process, 'a) prog"

definition sys :: "syscall \<Rightarrow> ('s, answer) io_prog" where
  "sys c = (\<lambda>h w. case answers w of [] \<Rightarrow> Pending
     | a # as \<Rightarrow> Ret (a, w\<lparr>answers := as, system_calls := system_calls w @ [(c, result a)]\<rparr>))"

definition on_shared :: "('s, 'a) prog \<Rightarrow> ('s, 'a) io_prog" where
  "on_shared m = (\<lambda>h w. obind (m h (shared w)) (\<lambda>(v, s). Ret (v, w\<lparr>shared := s\<rparr>)))"

definition of_host :: "(host \<Rightarrow> 'a) \<Rightarrow> ('s, 'a) prog" where
  "of_host f = (\<lambda>h s. Ret (f h, s))"

section \<open>The wrappers\<close>

text \<open>All wrappers of system calls have one shape: a negative result ends the process.\<close>

definition checked :: "syscall \<Rightarrow> ('s, answer) io_prog" where
  "checked c = mbind (sys c) (\<lambda>a. if result a < 0 then lift_o unix_error else ret a)"

definition Socket :: "('s, int) io_prog" where
  "Socket = mbind (checked Sys_socket) (\<lambda>a. ret (result a))"

definition Setsockopt :: "int \<Rightarrow> ('s, unit) io_prog" where
  "Setsockopt s = mseq (checked (Sys_setsockopt s)) (ret ())"

definition Bind :: "int \<Rightarrow> sockaddr_in \<Rightarrow> ('s, unit) io_prog" where
  "Bind sockfd my_addr = mseq (checked (Sys_bind sockfd my_addr)) (ret ())"

definition Listen :: "int \<Rightarrow> int \<Rightarrow> ('s, unit) io_prog" where
  "Listen s backlog = mseq (checked (Sys_listen s backlog)) (ret ())"

definition Accept :: "int \<Rightarrow> ('s, int) io_prog" where
  "Accept s = mbind (checked (Sys_accept s)) (\<lambda>a. ret (result a))"

definition Connect :: "int \<Rightarrow> sockaddr_in \<Rightarrow> ('s, unit) io_prog" where
  "Connect sockfd serv_addr = mseq (checked (Sys_connect sockfd serv_addr)) (ret ())"

text \<open>\<open>Read\<close> of one character, with what it stores.\<close>

definition Read :: "int \<Rightarrow> ('s, answer) io_prog" where
  "Read fd = checked (Sys_read fd)"

definition Write :: "int \<Rightarrow> u8 list \<Rightarrow> ('s, int) io_prog" where
  "Write fd buf = mbind (checked (Sys_write fd buf)) (\<lambda>a. ret (result a))"

definition dns_error :: "'a outcome" where
  "dns_error = Exit 0"

definition Gethostbyname :: "string \<Rightarrow> ('s, u8 list) io_prog" where
  "Gethostbyname name = mbind (sys (Sys_gethostbyname name)) (\<lambda>a.
     if result a = 0 then lift_o dns_error else ret (stored a))"

section \<open>The servers\<close>

text \<open>\<open>htons\<close> and \<open>ntohs\<close>, and the octets of a port in the memory of a host.\<close>

definition htons :: "host \<Rightarrow> u16 \<Rightarrow> u16" where
  "htons h w = (if host_big_endian h then w else push_bit 8 w OR drop_bit 8 w)"

definition port_octets :: "host \<Rightarrow> u16 \<Rightarrow> u8 list" where
  "port_octets h w = (if host_big_endian h then [ucast (drop_bit 8 w), ucast w] else [ucast w, ucast (drop_bit 8 w)])"

text \<open>\<open>struct server_data\<close> is the pair of the socket and the port.\<close>

definition create_server :: "u16 \<Rightarrow> ('s, int \<times> u16) io_prog" where
  "create_server port =
     mbind Socket (\<lambda>socket.
     mseq (Setsockopt socket)
     (mbind (of_host (\<lambda>h. \<lparr>sin_port = htons h port, sin_addr = [0, 0, 0, 0]\<rparr>)) (\<lambda>addr.
     mseq (Bind socket addr)
     (mbind (sys (Sys_getsockname socket)) (\<lambda>a.
     mbind (of_host (\<lambda>h. htons h (sin_port (if result a < 0 then addr else address a)))) (\<lambda>port.
     mseq (Listen socket 1) (ret (socket, port))))))))"

text \<open>
  The thread of the debugger: \<open>opened\<close> says whether \<open>fdopen\<close> in \<open>gdb_scanner\<close> succeeds, \<open>k\<close> is what
  the reads of the connection give, and \<open>shared\<close> the state \<open>gdb_scanner\<close> starts from.
\<close>

definition gdb_listener :: "nat \<Rightarrow> (nat \<Rightarrow> u8) \<Rightarrow> nat \<Rightarrow> bool \<Rightarrow> read_result list \<Rightarrow> u16 \<Rightarrow> (parser, unit) io_prog" where
  "gdb_listener n junk fuel opened k port =
     mbind (create_server port) (\<lambda>(socket, port).
     mbind (Accept socket) (\<lambda>connection.
     mseq (on_shared (mwhen opened (yylex_buffered n junk (gdb_init fuel) k)))
     (mseq (sys (Sys_shutdown connection))
     (mseq (sys (Sys_close socket)) (ret ())))))"

text \<open>The interrupts of a connection, up to its end.\<close>

lemma checked_run: "checked c h w = Ret (a, w') \<longleftrightarrow> (\<exists>as. answers w = a # as \<and> 0 \<le> result a \<and>
    w' = w\<lparr>answers := as, system_calls := system_calls w @ [(c, result a)]\<rparr>)"
  by (auto simp: checked_def sys_def mbind_def unix_error_def lift_o_def ret_def split: list.splits if_splits)

lemma on_shared_answers: "on_shared m h w = Ret (v, w') \<Longrightarrow> answers w' = answers w"
  by (auto simp: on_shared_def obind_Ret_iff)

function irq_connection :: "int \<Rightarrow> host \<Rightarrow> 'z parser_scheme process \<Rightarrow> (unit \<times> 'z parser_scheme process) outcome" where
  "irq_connection connection h w =
     obind (Read connection h w) (\<lambda>(a, w).
     if result a > 0 then
       obind (byte_at (stored a) 0) (\<lambda>irq.
       obind (on_shared (irq_received irq) h w) (\<lambda>(_, w). irq_connection connection h w))
     else Ret ((), w))"
  by pat_completeness auto

termination
  by (relation "measure (\<lambda>(connection, h, w). length (answers w))")
    (auto simp: Read_def checked_run dest!: on_shared_answers)

declare irq_connection.simps [simp del]

text \<open>A turn of the loop over the connections, and the loop, which does not end by itself.\<close>

lemma irq_connection_answers: "irq_connection connection h w = Ret (v, w') \<Longrightarrow> length (answers w') \<le> length (answers w)"
proof (induction connection h w rule: irq_connection.induct)
  case (1 connection h w)
  have "obind (Read connection h w) (\<lambda>(a, u). if result a > 0 then obind (byte_at (stored a) 0) (\<lambda>irq.
      obind (on_shared (irq_received irq) h u) (\<lambda>(_, w). irq_connection connection h w)) else Ret ((), u)) = Ret (v, w')"
    using "1.prems" by (simp add: irq_connection.simps [of connection h w])
  then obtain a u where u: "Read connection h w = Ret (a, u)"
    and rest: "(if result a > 0 then obind (byte_at (stored a) 0) (\<lambda>irq. obind (on_shared (irq_received irq) h u)
        (\<lambda>(_, w). irq_connection connection h w)) else Ret ((), u)) = Ret (v, w')"
    by (cases "Read connection h w") auto
  from u have l: "length (answers u) \<le> length (answers w)" by (auto simp: Read_def checked_run)
  show ?case
  proof (cases "result a > 0")
    case True
    with rest obtain irq x where x: "byte_at (stored a) 0 = Ret irq" "on_shared (irq_received irq) h u = Ret ((), x)"
      "irq_connection connection h x = Ret (v, w')" by (auto simp: obind_Ret_iff)
    from "1.IH" [OF u refl True x(1,2) refl x(3)] on_shared_answers [OF x(2)] l show ?thesis by simp
  qed (use rest l in simp)
qed

definition irq_turn :: "int \<Rightarrow> ('z parser_scheme, unit) io_prog" where
  "irq_turn socket =
     mbind (Accept socket) (\<lambda>connection.
     mseq (irq_connection connection)
     (mseq (sys (Sys_shutdown connection)) (ret ())))"

lemma irq_turn_answers:
  assumes "irq_turn socket h w = Ret (v, w')"
  shows "length (answers w') < length (answers w)"
proof -
  from assms obtain c u x a where "Accept socket h w = Ret (c, u)" "irq_connection c h u = Ret ((), x)"
    "sys (Sys_shutdown c) h x = Ret (a, w')"
    by (auto simp: irq_turn_def mbind_def obind_Ret_iff ret_def)
  moreover from this(1) have "length (answers u) < length (answers w)"
    by (auto simp: Accept_def mbind_def obind_Ret_iff checked_run ret_def)
  ultimately show ?thesis
    using irq_connection_answers [of c h u "()" x] by (auto simp: sys_def split: list.splits)
qed

function irq_loop :: "int \<Rightarrow> host \<Rightarrow> 'z parser_scheme process \<Rightarrow> (unit \<times> 'z parser_scheme process) outcome" where
  "irq_loop socket h w = obind (irq_turn socket h w) (\<lambda>(_, w). irq_loop socket h w)"
  by pat_completeness auto

termination
  by (relation "measure (\<lambda>(socket, h, w). length (answers w))") (auto dest: irq_turn_answers)

declare irq_loop.simps [simp del]

definition irq_listener :: "u16 \<Rightarrow> ('z parser_scheme, unit) io_prog" where
  "irq_listener port = mbind (create_server port) (\<lambda>(socket, port). irq_loop socket)"

section \<open>The sender\<close>

text \<open>\<open>memcpy\<close> of the \<open>h_length\<close> octets of the host into the 4 of \<open>sin_addr\<close>.\<close>

definition copy_address :: "u8 list \<Rightarrow> u8 list outcome" where
  "copy_address host = (if length host \<le> 4 then Ret (host @ drop (length host) [0, 0, 0, 0]) else Undefined Out_of_bounds)"

text \<open>What \<open>main\<close> of \<open>send_irq.c\<close> does with the interrupt it has found.\<close>

definition send_irq_main :: "string list \<Rightarrow> ('s, unit) io_prog" where
  "send_irq_main argv =
     mbind (lift_o (send_irq argv)) (\<lambda>irq.
     mbind Socket (\<lambda>sock.
     mseq (Setsockopt sock)
     (mbind (lift_o (atoi (bytes (argv ! 2) @ [0]))) (\<lambda>n.
     mbind (of_host (\<lambda>h. htons h (of_int n))) (\<lambda>port.
     mbind (Gethostbyname (argv ! 1)) (\<lambda>host.
     mbind (lift_o (copy_address host)) (\<lambda>ip.
     mseq (Connect sock \<lparr>sin_port = port, sin_addr = ip\<rparr>)
     (mseq (Write sock [irq])
     (mseq (sys (Sys_shutdown sock))
     (mseq (sys (Sys_close sock)) (ret ())))))))))))"


section \<open>The helpers for clients and servers\<close>

text \<open>Calls whose failure makes the function return a code.\<close>

definition attempt :: "syscall \<Rightarrow> int \<Rightarrow> (answer \<Rightarrow> ('s, int) io_prog) \<Rightarrow> ('s, int) io_prog" where
  "attempt c code f = mbind (sys c) (\<lambda>a. if result a < 0 then ret code else f a)"

definition open_clientfd :: "string \<Rightarrow> int \<Rightarrow> ('s, int) io_prog" where
  "open_clientfd hostname port =
     attempt Sys_socket (-1) (\<lambda>a.
     let clientfd = result a in
     mbind (sys (Sys_gethostbyname hostname)) (\<lambda>hp.
     if result hp = 0 then ret (-2)
     else
       mbind (lift_o (copy_address (stored hp))) (\<lambda>ip.
       mbind (of_host (\<lambda>h. htons h (of_int port))) (\<lambda>p.
       attempt (Sys_connect clientfd \<lparr>sin_port = p, sin_addr = ip\<rparr>) (-1) (\<lambda>_. ret clientfd)))))"

definition open_listenfd :: "int \<Rightarrow> ('s, int) io_prog" where
  "open_listenfd port =
     attempt Sys_socket (-1) (\<lambda>a.
     let listenfd = result a in
     attempt (Sys_setsockopt listenfd) (-1) (\<lambda>_.
     mbind (of_host (\<lambda>h. htons h (of_int port))) (\<lambda>p.
     attempt (Sys_bind listenfd \<lparr>sin_port = p, sin_addr = [0, 0, 0, 0]\<rparr>) (-1) (\<lambda>_.
     attempt (Sys_listen listenfd 1024) (-1) (\<lambda>_. ret listenfd)))))"

definition Open_clientfd :: "string \<Rightarrow> int \<Rightarrow> ('s, int) io_prog" where
  "Open_clientfd hostname port = mbind (open_clientfd hostname port) (\<lambda>rc.
     if rc < 0 then if rc = -1 then lift_o unix_error else lift_o dns_error else ret rc)"

definition Open_listenfd :: "int \<Rightarrow> ('s, int) io_prog" where
  "Open_listenfd port = mbind (open_listenfd port) (\<lambda>rc. if rc < 0 then lift_o unix_error else ret rc)"

section \<open>Runs of system calls\<close>

text \<open>\<open>after c a w\<close>: the call \<open>c\<close> has taken the answer \<open>a\<close>.\<close>

definition after :: "syscall \<Rightarrow> answer \<Rightarrow> 's process \<Rightarrow> 's process" where
  "after c a w = w\<lparr>answers := tl (answers w), system_calls := system_calls w @ [(c, result a)]\<rparr>"

lemma after_simps [simp]:
  "answers (after c a w) = tl (answers w)" "shared (after c a w) = shared w"
  "system_calls (after c a w) = system_calls w @ [(c, result a)]"
  by (simp_all add: after_def)

lemma sys_run: "sys c h w = Ret (a, w') \<longleftrightarrow> (\<exists>as. answers w = a # as) \<and> w' = after c a w"
  by (auto simp: sys_def after_def split: list.splits)

lemma checked_after: "checked c h w = Ret (a, w') \<longleftrightarrow> (\<exists>as. answers w = a # as) \<and> 0 \<le> result a \<and> w' = after c a w"
  by (auto simp: checked_run after_def)

lemma checked_fails: "answers w = a # as \<Longrightarrow> result a < 0 \<Longrightarrow> checked c h w = Exit 0"
  by (simp add: checked_def sys_def mbind_def unix_error_def lift_o_def)

lemmas call_runs = Socket_def Setsockopt_def Bind_def Listen_def Accept_def Connect_def Read_def Write_def Gethostbyname_def

section \<open>Interrupts\<close>

text \<open>What the bytes of a connection make of the machine: a reset, or nothing.\<close>

definition interrupted :: "u8 list \<Rightarrow> 'z machine_scheme \<Rightarrow> 'z machine_scheme" where
  "interrupted bs s = (if RESET \<in> set bs then set_reg 15 0 (set_reg 16 0x1D3 s) else s)"

lemma set_reg_twice: "set_reg 15 0 (set_reg 16 v (set_reg 15 0 (set_reg 16 v s))) = set_reg 15 0 (set_reg 16 v s)"
  by (simp add: set_reg_def list_update_swap)

lemma interrupted_append: "interrupted bs (interrupted as s) = interrupted (as @ bs) s"
  by (simp add: interrupted_def set_reg_twice)

lemma same_core_interrupted: "same_core s t \<Longrightarrow> same_core (interrupted bs s) (interrupted bs t)"
  by (auto simp: interrupted_def same_core_def set_reg_def user_state_def wf_registers_def)

lemma interrupted_user: "user_state s \<Longrightarrow> user_state (interrupted bs s)"
  by (auto simp: interrupted_def user_state_def wf_registers_def set_reg_def)

lemma irq_total:
  assumes "user_state p"
  shows "\<exists>p'. irq_received irq h p = Ret ((), p') \<and> same_core p' (interrupted [irq] p)"
proof -
  have "runs (irq_received irq) h p () (interrupted [irq] p)"
    unfolding irq_received_def using assms
    by (intro runsI respecting_arm_exception interrupted_user) (simp_all add: wp_arm_exception interrupted_def)
  then show ?thesis by (auto simp: runs_def)
qed

text \<open>The answers that give some bytes and then the end of a connection.\<close>

definition gives :: "answer list \<Rightarrow> u8 list \<Rightarrow> bool" where
  "gives as bs \<longleftrightarrow> list_all2 (\<lambda>a b. 0 < result a \<and> stored a \<noteq> [] \<and> hd (stored a) = b) as bs"

lemma irq_connection_step:
  "answers w = a # as \<Longrightarrow> result a = 0 \<Longrightarrow> irq_connection fd h w = Ret ((), after (Sys_read fd) a w)"
  "answers w = a # as \<Longrightarrow> result a < 0 \<Longrightarrow> irq_connection fd h w = Exit 0"
  "answers w = a # as \<Longrightarrow> 0 < result a \<Longrightarrow> stored a \<noteq> [] \<Longrightarrow> irq_received (hd (stored a)) h (shared w) = Ret ((), p) \<Longrightarrow>
     irq_connection fd h w = irq_connection fd h ((after (Sys_read fd) a w)\<lparr>shared := p\<rparr>)"
proof -
  show "answers w = a # as \<Longrightarrow> result a = 0 \<Longrightarrow> irq_connection fd h w = Ret ((), after (Sys_read fd) a w)"
    using checked_after [of "Sys_read fd" h w a "after (Sys_read fd) a w"]
    by (simp add: irq_connection.simps [of fd h w] Read_def)
  show "answers w = a # as \<Longrightarrow> result a < 0 \<Longrightarrow> irq_connection fd h w = Exit 0"
    by (simp add: irq_connection.simps [of fd h w] Read_def checked_fails)
  show "answers w = a # as \<Longrightarrow> 0 < result a \<Longrightarrow> stored a \<noteq> [] \<Longrightarrow> irq_received (hd (stored a)) h (shared w) = Ret ((), p) \<Longrightarrow>
     irq_connection fd h w = irq_connection fd h ((after (Sys_read fd) a w)\<lparr>shared := p\<rparr>)"
    using checked_after [of "Sys_read fd" h w a "after (Sys_read fd) a w"]
    by (simp add: irq_connection.simps [of fd h w] Read_def byte_at_def hd_conv_nth on_shared_def)
qed

lemma irq_connection_serves:
  fixes w :: "parser process"
  assumes "user_state (shared w)" "answers w = as @ e # rest" "gives as bs"
  shows "result e = 0 \<Longrightarrow> \<exists>p. irq_connection fd h w = Ret ((), w\<lparr>answers := rest,
      system_calls := system_calls w @ map (\<lambda>a. (Sys_read fd, result a)) (as @ [e]), shared := p\<rparr>) \<and>
    sim_steps fuel h (input, bs @ irqs, shared w) (input, irqs, p) \<and> same_core p (interrupted bs (shared w))"
    and "result e < 0 \<Longrightarrow> irq_connection fd h w = Exit 0"
  using assms
proof (induction as arbitrary: bs w)
  case Nil
  {
    case 1
    then show ?case using irq_connection_step(1) [of w e rest fd h]
      by (intro exI [of _ "shared w"]) (simp add: after_def gives_def interrupted_def same_core_refl)
  next
    case 2
    then show ?case by (simp add: irq_connection_step(2))
  }
next
  case (Cons a as)
  {
    fix w :: "parser process" and b bs bs' assume b: "gives (a # as) bs" "bs = b # bs'" and u: "user_state (shared w)" "answers w = (a # as) @ e # rest"
    from b have a: "0 < result a" "stored a \<noteq> []" "hd (stored a) = b" "gives as bs'" by (simp_all add: gives_def)
    from irq_total [OF u(1), of b h] obtain p where p: "irq_received b h (shared w) = Ret ((), p)"
      "same_core p (interrupted [b] (shared w))" by blast
    let ?w = "(after (Sys_read fd) a w)\<lparr>shared := p\<rparr>"
    have "irq_connection fd h w = irq_connection fd h ?w"
      using irq_connection_step(3) [of w a "as @ e # rest" h p fd] u(2) a p(1) by simp
    moreover have "user_state (shared ?w)" using p(2) by (simp add: same_core_def)
    moreover have "answers ?w = as @ e # rest" using u(2) by simp
    ultimately have "\<exists>p. irq_connection fd h w = irq_connection fd h ((after (Sys_read fd) a w)\<lparr>shared := p\<rparr>) \<and>
        user_state p \<and> irq_received b h (shared w) = Ret ((), p) \<and> same_core p (interrupted [b] (shared w))"
      using p by auto
  } note step = this
  {
    case 1
    then obtain b bs' where b: "bs = b # bs'" "gives as bs'" by (auto simp: gives_def list_all2_Cons1)
    from step [OF 1(4) b(1) 1(2,3)] obtain p where p: "irq_connection fd h w = irq_connection fd h ((after (Sys_read fd) a w)\<lparr>shared := p\<rparr>)"
      "user_state p" "irq_received b h (shared w) = Ret ((), p)" "same_core p (interrupted [b] (shared w))" by blast
    from Cons.IH(1) [OF 1(1), of "(after (Sys_read fd) a w)\<lparr>shared := p\<rparr>" bs'] 1(3) p(2) b(2) obtain q where
      q: "irq_connection fd h ((after (Sys_read fd) a w)\<lparr>shared := p\<rparr>) = Ret ((), w\<lparr>answers := rest,
          system_calls := system_calls w @ map (\<lambda>a. (Sys_read fd, result a)) (a # as @ [e]), shared := q\<rparr>)"
      "sim_steps fuel h (input, bs' @ irqs, p) (input, irqs, q)" "same_core q (interrupted bs' p)"
      by (auto simp: after_def)
    have "sim_step fuel h (input, bs @ irqs, shared w) (input, bs' @ irqs, p)"
      using b(1) p(3) by (auto intro: irq_byte)
    with q(2) have "sim_steps fuel h (input, bs @ irqs, shared w) (input, irqs, q)"
      by (rule converse_rtranclp_into_rtranclp [rotated])
    moreover have "same_core q (interrupted bs (shared w))"
      using same_core_trans [OF q(3) same_core_interrupted [OF p(4)]] b(1) by (simp add: interrupted_append)
    ultimately show ?case using q(1) unfolding p(1) by auto
  next
    case 2
    then obtain b bs' where b: "bs = b # bs'" "gives as bs'" by (auto simp: gives_def list_all2_Cons1)
    from step [OF 2(4) b(1) 2(2,3)] obtain p where p: "irq_connection fd h w = irq_connection fd h ((after (Sys_read fd) a w)\<lparr>shared := p\<rparr>)"
      "user_state p" by blast
    with Cons.IH(2) [OF 2(1), of "(after (Sys_read fd) a w)\<lparr>shared := p\<rparr>" bs'] 2(3) b(2) show ?case by simp
  }
qed

text \<open>
  A connection as the answers of the system: to \<open>accept\<close>, to the reads that give bytes, to the read at
  the end of the file, and to \<open>shutdown\<close>; and the calls the listener makes for it.
\<close>

fun conn_answers :: "answer \<times> answer list \<times> answer \<times> answer \<Rightarrow> answer list" where
  "conn_answers (a, as, e, d) = a # as @ [e, d]"

fun conn_calls :: "int \<Rightarrow> answer \<times> answer list \<times> answer \<times> answer \<Rightarrow> (syscall \<times> int) list" where
  "conn_calls socket (a, as, e, d) = (Sys_accept socket, result a) #
     map (\<lambda>x. (Sys_read (result a), result x)) (as @ [e]) @ [(Sys_shutdown (result a), result d)]"

fun conn_gives :: "answer \<times> answer list \<times> answer \<times> answer \<Rightarrow> u8 list \<Rightarrow> bool" where
  "conn_gives (a, as, e, d) bs \<longleftrightarrow> 0 \<le> result a \<and> gives as bs \<and> result e = 0"

text \<open>The descriptors that are open after some calls.\<close>

fun opened_by :: "syscall \<times> int \<Rightarrow> int list \<Rightarrow> int list" where
  "opened_by (Sys_socket, r) fds = (if r < 0 then fds else fds @ [r])"
| "opened_by (Sys_accept s, r) fds = (if r < 0 then fds else fds @ [r])"
| "opened_by (Sys_close fd, r) fds = removeAll fd fds"
| "opened_by c fds = fds"

definition descriptors :: "(syscall \<times> int) list \<Rightarrow> int list" where
  "descriptors cs = fold opened_by cs []"

lemma descriptors_calls:
  "list_all2 conn_gives ds bss \<Longrightarrow>
     descriptors (cs @ concat (map (conn_calls socket) ds)) = descriptors cs @ map (result \<circ> fst) ds"
proof (induction ds arbitrary: cs bss)
  case (Cons d ds)
  obtain a as e x where d: "d = (a, as, e, x)" by (cases d)
  from Cons.prems have c: "0 \<le> result a" "list_all2 conn_gives ds (tl bss)" by (auto simp: d list_all2_Cons1)
  have "fold opened_by (map (\<lambda>x. (Sys_read (result a), result x)) zs) fds = fds" for zs fds by (induction zs) auto
  then have "descriptors (cs @ conn_calls socket d) = descriptors cs @ [result a]" using c(1) by (simp add: descriptors_def d)
  with Cons.IH [OF c(2), of "cs @ conn_calls socket d"] show ?case by (simp add: d)
qed simp

text \<open>The first turns of the loop; the loop goes on where they end.\<close>

fun irq_turns :: "nat \<Rightarrow> int \<Rightarrow> ('z parser_scheme, unit) io_prog" where
  "irq_turns 0 socket = ret ()"
| "irq_turns (Suc n) socket = mseq (irq_turn socket) (irq_turns n socket)"

lemma irq_loop_turns: "irq_turns n socket h w = Ret ((), w') \<Longrightarrow> irq_loop socket h w = irq_loop socket h w'"
proof (induction n arbitrary: w)
  case (Suc n)
  then obtain u where "irq_turn socket h w = Ret ((), u)" "irq_turns n socket h u = Ret ((), w')"
    by (auto simp: mbind_def obind_Ret_iff)
  with Suc.IH [of u] show ?case by (simp add: irq_loop.simps [of socket h w])
qed (simp add: ret_def)

lemma irq_loop_ends:
  "answers w = [] \<Longrightarrow> irq_loop socket h w = Pending"
  "answers w = a # as \<Longrightarrow> result a < 0 \<Longrightarrow> irq_loop socket h w = Exit 0"
  by (simp_all add: irq_loop.simps [of socket h w] irq_turn_def Accept_def mbind_def checked_fails)
    (simp add: checked_def sys_def mbind_def)

lemma irq_turn_serves:
  fixes w :: "parser process"
  assumes "user_state (shared w)" "answers w = conn_answers c @ rest" "conn_gives c bs"
  shows "\<exists>p. irq_turn socket h w = Ret ((), w\<lparr>answers := rest,
      system_calls := system_calls w @ conn_calls socket c, shared := p\<rparr>) \<and>
    sim_steps fuel h (input, bs @ irqs, shared w) (input, irqs, p) \<and> same_core p (interrupted bs (shared w))"
proof -
  obtain a as e d where c: "c = (a, as, e, d)" by (cases c)
  let ?w = "after (Sys_accept socket) a w"
  have acc: "Accept socket h w = Ret (result a, ?w)"
    using assms(2,3) checked_after [of "Sys_accept socket" h w a ?w] by (simp add: c Accept_def mbind_def ret_def)
  have "user_state (shared ?w)" "answers ?w = as @ e # (d # rest)" "gives as bs" "result e = 0"
    using assms by (simp_all add: c)
  from irq_connection_serves(1) [OF this, of "result a" h fuel input irqs] obtain p where
    p: "irq_connection (result a) h ?w = Ret ((), ?w\<lparr>answers := d # rest,
      system_calls := system_calls ?w @ map (\<lambda>x. (Sys_read (result a), result x)) (as @ [e]), shared := p\<rparr>)"
    "sim_steps fuel h (input, bs @ irqs, shared w) (input, irqs, p)" "same_core p (interrupted bs (shared w))" by auto
  have "irq_turn socket h w = Ret ((), w\<lparr>answers := rest,
      system_calls := system_calls w @ conn_calls socket c, shared := p\<rparr>)"
    by (simp add: irq_turn_def mbind_def acc p(1) sys_def ret_def) (cases w, simp add: c after_def)
  with p(2,3) show ?thesis by blast
qed

lemma irq_turns_serve:
  fixes w :: "parser process"
  assumes "user_state (shared w)" "answers w = concat (map conn_answers cs) @ rest" "list_all2 conn_gives cs bss"
  shows "\<exists>p. irq_turns (length cs) socket h w = Ret ((), w\<lparr>answers := rest,
      system_calls := system_calls w @ concat (map (conn_calls socket) cs), shared := p\<rparr>) \<and>
    sim_steps fuel h (input, concat bss @ irqs, shared w) (input, irqs, p) \<and>
    same_core p (interrupted (concat bss) (shared w))"
  using assms
proof (induction cs arbitrary: w bss)
  case Nil
  then show ?case by (intro exI [of _ "shared w"]) (auto simp: interrupted_def same_core_refl ret_def)
next
  case (Cons c cs)
  then obtain bs bss' where b: "bss = bs # bss'" "conn_gives c bs" "list_all2 conn_gives cs bss'"
    by (auto simp: list_all2_Cons1)
  have "answers w = conn_answers c @ (concat (map conn_answers cs) @ rest)" using Cons.prems(2) by simp
  from irq_turn_serves [OF Cons.prems(1) this b(2), of socket h fuel input "concat bss' @ irqs"] obtain p where
    p: "irq_turn socket h w = Ret ((), w\<lparr>answers := concat (map conn_answers cs) @ rest,
        system_calls := system_calls w @ conn_calls socket c, shared := p\<rparr>)"
    "sim_steps fuel h (input, bs @ concat bss' @ irqs, shared w) (input, concat bss' @ irqs, p)"
    "same_core p (interrupted bs (shared w))" by blast
  let ?w = "w\<lparr>answers := concat (map conn_answers cs) @ rest,
        system_calls := system_calls w @ conn_calls socket c, shared := p\<rparr>"
  have "user_state (shared ?w)" using p(3) by (simp add: same_core_def)
  from Cons.IH [OF this _ b(3)] obtain q where
    q: "irq_turns (length cs) socket h ?w = Ret ((), ?w\<lparr>answers := rest,
        system_calls := system_calls ?w @ concat (map (conn_calls socket) cs), shared := q\<rparr>)"
    "sim_steps fuel h (input, concat bss' @ irqs, p) (input, irqs, q)" "same_core q (interrupted (concat bss') p)" by auto
  from same_core_trans [OF q(3) same_core_interrupted [OF p(3)]]
  have "same_core q (interrupted (concat bss) (shared w))" by (simp add: b(1) interrupted_append)
  moreover have "sim_steps fuel h (input, concat bss @ irqs, shared w) (input, irqs, q)"
    using p(2) q(2) by (simp add: b(1))
  ultimately show ?case using p(1) q(1) by (auto simp: mbind_def)
qed

section \<open>The sender and the server\<close>

lemma bind_run: "mbind m f h w = Ret (v, w') \<longleftrightarrow> (\<exists>u x. m h w = Ret (u, x) \<and> f u h x = Ret (v, w'))"
  by (auto simp: mbind_def obind_Ret_iff)

lemma elementary_runs:
  "ret u h w = Ret (v, w') \<longleftrightarrow> v = u \<and> w' = w" "of_host f h w = Ret (v, w') \<longleftrightarrow> v = f h \<and> w' = w"
  "lift_o m h w = Ret (v, w') \<longleftrightarrow> m = Ret v \<and> w' = w"
  by (auto simp: ret_def of_host_def lift_o_def obind_Ret_iff)

lemma port_octets_htons: "port_octets h (htons h w) = [ucast (drop_bit 8 w), ucast w]"
proof -
  have "ucast (drop_bit 8 (push_bit 8 w OR drop_bit 8 w)) = (ucast w :: u8)"
    "ucast (push_bit 8 w OR drop_bit 8 w) = (ucast (drop_bit 8 w) :: u8)"
    by (rule bit_word_eqI; auto simp: bit_simps)+
  then show ?thesis by (simp add: port_octets_def htons_def)
qed

lemma sender_run:
  assumes "send_irq_main argv h w = Ret (u, w')"
  obtains i n sock ip where "send_irq argv = Ret i" "atoi (bytes (argv ! 2) @ [0]) = Ret n"
    "map fst (system_calls w') = map fst (system_calls w) @ [Sys_socket, Sys_setsockopt sock, Sys_gethostbyname (argv ! 1),
       Sys_connect sock \<lparr>sin_port = htons h (of_int n), sin_addr = ip\<rparr>, Sys_write sock [i], Sys_shutdown sock, Sys_close sock]"
  using assms
  by (auto simp: send_irq_main_def call_runs bind_run elementary_runs checked_after sys_run dns_error_def split: if_splits)

lemma server_run:
  assumes "create_server p h w = Ret ((s, port), w')"
  shows "map fst (system_calls w') = map fst (system_calls w) @ [Sys_socket, Sys_setsockopt s,
      Sys_bind s \<lparr>sin_port = htons h p, sin_addr = [0, 0, 0, 0]\<rparr>, Sys_getsockname s, Sys_listen s 1]"
    "shared w' = shared w"
  using assms by (auto simp: create_server_def call_runs bind_run elementary_runs checked_after sys_run)

lemma named_reset: "length argv = 4 \<Longrightarrow> send_irq argv = Ret i \<Longrightarrow> i = RESET \<longleftrightarrow> argv ! 3 = ''reset''"
  using find_irq_iff [of "argv ! 3" i] find_irq_iff [of "argv ! 3" RESET] exception_names(2) find_irq_iff [of "''reset''" RESET]
  by (auto simp: send_irq_def)

lemma attempt_run: "attempt c code f h w = Ret (v, w') \<longleftrightarrow> (\<exists>a as. answers w = a # as \<and>
    (if result a < 0 then v = code \<and> w' = after c a w else f a h (after c a w) = Ret (v, w')))"
  by (auto simp: attempt_def bind_run sys_run elementary_runs)

text \<open>
  A helper that fails behind the creation of its socket leaves the socket open, and the caller, who only
  gets -1, cannot close it.
\<close>

theorem helper_descriptors:
  assumes "open_listenfd port h w = Ret (fd, w')"
  shows "descriptors (system_calls w') = descriptors (system_calls w) @
      (let r = result (hd (answers w)) in if r < 0 then [] else [r]) \<and> (fd = -1 \<or> fd = result (hd (answers w)) \<and> 0 \<le> fd)"
  using assms
  by (auto simp: open_listenfd_def attempt_run bind_run elementary_runs Let_def descriptors_def split: if_splits)

text \<open>
  The thread of the debugger is the scanner, between the creation of the server and the end of the
  thread; it closes the socket it has listened on.
\<close>

theorem gdb_listener_run:
  assumes "create_server port h w = Ret ((s, q), w')" "answers w' = a # d # c # rest" "0 \<le> result a"
    and "yylex_buffered n junk (gdb_init fuel) k h (shared w) = Ret ((), p)"
  shows "\<exists>w''. gdb_listener n junk fuel True k port h w = Ret ((), w'') \<and> shared w'' = p \<and>
    map fst (system_calls w'') = map fst (system_calls w') @ [Sys_accept s, Sys_shutdown (result a), Sys_close s]"
proof -
  let ?w1 = "(after (Sys_accept s) a w')\<lparr>shared := p\<rparr>"
  let ?w2 = "after (Sys_close s) c (after (Sys_shutdown (result a)) d ?w1)"
  have "on_shared (mwhen True (yylex_buffered n junk (gdb_init fuel) k)) h (after (Sys_accept s) a w') = Ret ((), ?w1)"
    using assms(4) server_run(2) [OF assms(1)] by (simp add: on_shared_def mwhen_def)
  then have "gdb_listener n junk fuel True k port h w = Ret ((), ?w2)"
    using assms(1-3) by (auto simp: gdb_listener_def bind_run Accept_def checked_after elementary_runs sys_run)
  then show ?thesis by simp
qed

section \<open>Properties\<close>

text \<open>
  The interrupt listener serves its connections one after the other: each byte is one interrupt,
  in their order, so that the machine is reset if one of them is a reset, and is as before if
  none is. It keeps the descriptor of every connection open; then it waits for the next one, and an
  \<open>accept\<close> that fails ends the simulator with status 0.
\<close>

theorem interrupts_served:
  fixes w :: "parser process"
  assumes "user_state (shared w)" "answers w = concat (map conn_answers cs) @ rest" "list_all2 conn_gives cs bss"
  shows "\<exists>w'. irq_turns (length cs) socket h w = Ret ((), w') \<and> answers w' = rest \<and>
    sim_steps fuel h (input, concat bss @ irqs, shared w) (input, irqs, shared w') \<and>
    same_core (shared w') (if RESET \<in> set (concat bss) then set_reg 15 0 (set_reg 16 0x1D3 (shared w)) else shared w) \<and>
    descriptors (system_calls w') = descriptors (system_calls w) @ map (result \<circ> fst) cs \<and>
    irq_loop socket h w = (case rest of [] \<Rightarrow> Pending | a # as \<Rightarrow> if result a < 0 then Exit 0 else irq_loop socket h w')"
proof -
  from irq_turns_serve [OF assms, of socket h fuel input irqs] obtain p where
    p: "irq_turns (length cs) socket h w = Ret ((), w\<lparr>answers := rest,
        system_calls := system_calls w @ concat (map (conn_calls socket) cs), shared := p\<rparr>)"
    "sim_steps fuel h (input, concat bss @ irqs, shared w) (input, irqs, p)"
    "same_core p (interrupted (concat bss) (shared w))" by blast
  let ?w = "w\<lparr>answers := rest, system_calls := system_calls w @ concat (map (conn_calls socket) cs), shared := p\<rparr>"
  have "irq_loop socket h ?w = (case rest of [] \<Rightarrow> Pending | a # as \<Rightarrow> if result a < 0 then Exit 0 else irq_loop socket h ?w)"
    by (cases rest) (simp_all add: irq_loop_ends)
  with p irq_loop_turns [OF p(1)] show ?thesis
    by (intro exI [of _ ?w]) (simp add: descriptors_calls [OF assms(3)] interrupted_def)
qed

definition answered :: "int \<Rightarrow> u8 list \<Rightarrow> answer" where
  "answered r s = \<lparr>result = r, stored = s, address = \<lparr>sin_port = 0, sin_addr = []\<rparr>\<rparr>"

lemma answered_simps [simp]: "result (answered r s) = r" "stored (answered r s) = s"
  by (simp_all add: answered_def)

text \<open>The process of the interrupt thread, its machine being that of \<open>sample_parser\<close>, before some answers.\<close>

definition sample_process :: "answer list \<Rightarrow> parser process" where
  "sample_process as = \<lparr>answers = as, system_calls = [], shared = sample_parser []\<rparr>"

lemma sample_process_user: "user_state (shared (sample_process as))"
  using sample_server_simps(5) [of "[]"]
  by (simp add: sample_process_def wf_server_def sample_parser_def gdb.defs user_state_def)

theorem interrupts_served_witness:
  "\<exists>w. irq_turns 1 3 x86_host (sample_process [answered 4 [], answered 1 [INTERRUPT], answered 0 [], answered 0 [], answered (-1) []]) =
      Ret ((), w) \<and> mem (shared w) = memory_create (replicate 64 0) 64 1 \<and> descriptors (system_calls w) = [4] \<and>
    irq_loop 3 x86_host (sample_process [answered 4 [], answered 1 [INTERRUPT], answered 0 [], answered 0 [], answered (-1) []]) = Exit 0"
proof -
  let ?c = "(answered 4 [], [answered 1 [INTERRUPT]], answered 0 [], answered 0 [])"
  let ?w = "sample_process (concat (map conn_answers [?c]) @ [answered (-1) []])"
  have "answers ?w = concat (map conn_answers [?c]) @ [answered (-1) []]" "list_all2 conn_gives [?c] [[INTERRUPT]]"
    by (simp_all add: sample_process_def gives_def)
  from interrupts_served [OF sample_process_user this, of 3 x86_host 0 "[]" "[]"] show ?thesis
    by (auto simp: same_core_def sample_process_def sample_parser_def gdb.defs descriptors_def)
qed

text \<open>
  C7: An interrupt on its way from \<open>send_irq\<close> to the machine, on hosts of any byte orders: given the port
  that the simulator was given with \<open>-i\<close>, the sender connects to the port the simulator has bound and
  writes the number of the interrupt; the turn of the listener that reads this byte and then the end of the
  connection returns, and behind it the machine is reset if the interrupt is called "reset", and is as it
  was otherwise.
\<close>

theorem interrupt_delivered:
  fixes v v' :: "parser process" and w w' :: "'s process"
  assumes "length argv = 4" "send_irq_main argv hs w = Ret ((), w')" "system_calls w = []"
    and "set_option can_open (CHR ''i'', bytes (argv ! 2)) st = Ret st'"
    and "create_server (irq_port st') hl v = Ret ((socket, port), v')" "system_calls v = []" "user_state (shared v)"
    and "answers v' = conn_answers c @ rest" "send_irq argv = Ret i" "conn_gives c [i]"
  shows "(\<exists>sock a b. (Sys_connect sock a) \<in> fst ` set (system_calls w') \<and> Sys_write sock [i] \<in> fst ` set (system_calls w') \<and>
      Sys_bind socket b \<in> fst ` set (system_calls v') \<and> port_octets hs (sin_port a) = port_octets hl (sin_port b)) \<and>
    (\<exists>v''. irq_turn socket hl v' = Ret ((), v'') \<and> answers v'' = rest \<and>
      same_core (shared v'') (if argv ! 3 = ''reset'' then set_reg 15 0 (set_reg 16 0x1D3 (shared v)) else shared v))"
proof
  from sender_run [OF assms(2)] obtain j n sock ip where j: "send_irq argv = Ret j"
    and n: "atoi (bytes (argv ! 2) @ [0]) = Ret n"
    and s: "map fst (system_calls w') = map fst (system_calls w) @ [Sys_socket, Sys_setsockopt sock, Sys_gethostbyname (argv ! 1),
       Sys_connect sock \<lparr>sin_port = htons hs (of_int n), sin_addr = ip\<rparr>, Sys_write sock [j], Sys_shutdown sock, Sys_close sock]"
    by blast
  from j assms(9) have "j = i" by simp
  note s = s [unfolded this assms(3) list.map append_Nil]
  have p: "irq_port st' = of_int n" using assms(4) n by (auto simp: set_option_def)
  note b = server_run(1) [OF assms(5), unfolded assms(6) list.map append_Nil p]
  have "Sys_connect sock \<lparr>sin_port = htons hs (of_int n), sin_addr = ip\<rparr> \<in> fst ` set (system_calls w')"
    "Sys_write sock [i] \<in> fst ` set (system_calls w')"
    "Sys_bind socket \<lparr>sin_port = htons hl (of_int n), sin_addr = [0, 0, 0, 0]\<rparr> \<in> fst ` set (system_calls v')"
    using s b by (simp_all flip: set_map)
  then show "\<exists>sock a b. (Sys_connect sock a) \<in> fst ` set (system_calls w') \<and> Sys_write sock [i] \<in> fst ` set (system_calls w') \<and>
      Sys_bind socket b \<in> fst ` set (system_calls v') \<and> port_octets hs (sin_port a) = port_octets hl (sin_port b)"
    by (intro exI conjI) (assumption | simp add: port_octets_htons)+
  have "user_state (shared v')" using assms(7) server_run(2) [OF assms(5)] by simp
  from irq_turn_serves [OF this assms(8,10), of socket hl 0 "[]" "[]"]
  show "\<exists>v''. irq_turn socket hl v' = Ret ((), v'') \<and> answers v'' = rest \<and>
      same_core (shared v'') (if argv ! 3 = ''reset'' then set_reg 15 0 (set_reg 16 0x1D3 (shared v)) else shared v)"
    using named_reset [OF assms(1,9)] server_run(2) [OF assms(5)] by (fastforce simp: interrupted_def)
qed

text \<open>A sender that finds its host, and a simulator that is asked for the same port.\<close>

definition sample_sender :: "unit process" where
  "sample_sender = \<lparr>answers = [answered 5 [], answered 0 [], answered 1 [127, 0, 0, 1], answered 0 [], answered 1 [],
     answered 0 [], answered 0 []], system_calls = [], shared = ()\<rparr>"

lemma sample_port: "atoi [52, 50, 52, 50, 0] = Ret 4242"
  by (simp add: atoi_def cstring_def is_digit_def is_space_def split_sign_def number_def digit_value_def)

lemma sample_sending:
  "send_irq [''send_irq'', ''localhost'', ''4242'', ''reset''] = Ret RESET"
  "\<exists>w'. send_irq_main [''send_irq'', ''localhost'', ''4242'', ''reset''] strict_host sample_sender = Ret ((), w')"
proof -
  show i: "send_irq [''send_irq'', ''localhost'', ''4242'', ''reset''] = Ret RESET"
    by (simp add: send_irq_def find_irq_names)
  show "\<exists>w'. send_irq_main [''send_irq'', ''localhost'', ''4242'', ''reset''] strict_host sample_sender = Ret ((), w')"
    by (simp add: send_irq_main_def i sample_port call_runs bind_run elementary_runs checked_after sys_run sample_sender_def copy_address_def)
qed

lemma sample_serving_port:
  "\<exists>v'. create_server 4242 x86_host (sample_process (map (\<lambda>i. answered i []) [3, 0, 0, 0, 0] @ as)) = Ret ((3, 0), v') \<and> answers v' = as"
  by (simp add: create_server_def call_runs bind_run elementary_runs checked_after sys_run sample_process_def htons_def answered_def)

theorem interrupt_delivered_witness:
  "\<exists>v' v''. create_server 4242 x86_host (sample_process (map (\<lambda>i. answered i []) [3, 0, 0, 0, 0] @
      conn_answers (answered 4 [], [answered 1 [RESET]], answered 0 [], answered 0 []))) = Ret ((3, 0), v') \<and>
    irq_turn 3 x86_host v' = Ret ((), v'') \<and> regs (reg (shared v'')) ! 15 = 0 \<and> cpsr (shared v'') = 0x1D3"
proof -
  let ?argv = "[''send_irq'', ''localhost'', ''4242'', ''reset'']"
  let ?c = "(answered 4 [], [answered 1 [RESET]], answered 0 [], answered 0 [])"
  let ?v = "sample_process (map (\<lambda>i. answered i []) [3, 0, 0, 0, 0] @ conn_answers ?c)"
  obtain w' where w: "send_irq_main ?argv strict_host sample_sender = Ret ((), w')" using sample_sending(2) by blast
  obtain v' where v: "create_server 4242 x86_host ?v = Ret ((3, 0), v')" "answers v' = conn_answers ?c"
    using sample_serving_port by blast
  have st: "set_option (\<lambda>_. True) (CHR ''i'', bytes (?argv ! 2)) settings_init = Ret (settings_init\<lparr>irq_port := 4242\<rparr>)"
    by (simp add: set_option_def sample_port)
  have "\<exists>v''. irq_turn 3 x86_host v' = Ret ((), v'') \<and> answers v'' = [] \<and>
      same_core (shared v'') (if ?argv ! 3 = ''reset'' then set_reg 15 0 (set_reg 16 0x1D3 (shared ?v)) else shared ?v)"
    by (rule interrupt_delivered [where c = ?c, THEN conjunct2, OF _ w _ st _ _ sample_process_user _ sample_sending(1)])
      (use v in \<open>simp_all add: sample_sender_def sample_process_def gives_def\<close>)
  then obtain v'' where v'': "irq_turn 3 x86_host v' = Ret ((), v'')"
    "same_core (shared v'') (set_reg 15 0 (set_reg 16 0x1D3 (shared ?v)))" by auto
  have "length (regs (reg (shared ?v))) = 37"
    by (simp add: sample_process_def sample_parser_def gdb.defs)
  then have "regs (reg (shared v'')) ! 15 = 0" "cpsr (shared v'') = 0x1D3"
    using same_core_gets(1) [OF v''(2)] by (simp_all add: cpsr_def set_reg_def)
  with v(1) v''(1) show ?thesis by blast
qed

end
