(* ===== verification/Robust_Reads.thy ===== *)
theory Robust_Reads
  imports Robust_Writes Scan_Fill
begin

text \<open>
  The readers of the Rio package in \<open>csapp.c\<close>: \<open>rio_readn\<close>, the reader with a buffer of its own
  and the lines it reads. A connection is the list of the results of \<open>read\<close>, as in \<open>Scan_Buffer\<close>.
\<close>

section \<open>The system call\<close>

datatype sys_result = Got "u8 list" | EINTR_error | Other_error

fun sys_read :: "nat \<Rightarrow> read_result list \<Rightarrow> sys_result \<times> read_result list" where
  "sys_read n [] = (Got [], [])"
| "sys_read n (Chunk s # k) = (Got (take n s), if n < length s then Chunk (drop n s) # k else k)"
| "sys_read n (Interruption # k) = (EINTR_error, k)"
| "sys_read n (Failure # k) = (Other_error, k)"

lemma sys_read_eintr: "sys_read n k = (EINTR_error, k') \<Longrightarrow> length k' < length k"
  by (induction n k rule: sys_read.induct) auto

lemma sys_read_length: "sys_read n k = (r, k') \<Longrightarrow> length k' \<le> length k"
  by (induction n k rule: sys_read.induct) (auto split: if_splits)

section \<open>Reading without a buffer\<close>

text \<open>\<open>got\<close> is what \<open>usrbuf\<close> holds so far; the result is the number returned, \<open>usrbuf\<close> and the connection.\<close>

function rio_readn_loop :: "nat \<Rightarrow> nat \<Rightarrow> u8 list \<Rightarrow> read_result list \<Rightarrow> int \<times> u8 list \<times> read_result list" where
  "rio_readn_loop n nleft got k =
     (if 0 < nleft then
        case sys_read nleft k of
          (EINTR_error, k') \<Rightarrow> rio_readn_loop n nleft got k'
        | (Other_error, k') \<Rightarrow> (-1, got, k')
        | (Got s, k') \<Rightarrow> if s = [] then (int n - int nleft, got, k')
            else rio_readn_loop n (nleft - length s) (got @ s) k'
      else (int n - int nleft, got, k))"
  by pat_completeness auto

termination
  by (relation "measures [\<lambda>(n, nleft, got, k). nleft, \<lambda>(n, nleft, got, k). length k]")
    (auto dest: sys_read_eintr [OF sym])

definition rio_readn :: "nat \<Rightarrow> read_result list \<Rightarrow> int \<times> u8 list \<times> read_result list" where
  "rio_readn n k = rio_readn_loop n n [] k"

section \<open>The reader with a buffer\<close>

definition RIO_BUFSIZE :: nat where
  "RIO_BUFSIZE = 8192"

text \<open>\<open>rio_bufptr\<close> is the offset of the pointer in the buffer.\<close>

record rio_t =
  rio_cnt :: int
  rio_bufptr :: nat
  rio_buf :: "u8 list"

definition rio_readinitb :: "rio_t \<Rightarrow> rio_t" where
  "rio_readinitb rp = rp\<lparr>rio_cnt := 0, rio_bufptr := 0\<rparr>"

text \<open>The loop that fills the buffer; a number is what \<open>rio_read\<close> returns out of it.\<close>

function rio_refill :: "rio_t \<Rightarrow> read_result list \<Rightarrow> int option \<times> rio_t \<times> read_result list" where
  "rio_refill rp k =
     (if rio_cnt rp \<le> 0 then
        case sys_read RIO_BUFSIZE k of
          (EINTR_error, k') \<Rightarrow> rio_refill (rp\<lparr>rio_cnt := -1\<rparr>) k'
        | (Other_error, k') \<Rightarrow> (Some (-1), rp\<lparr>rio_cnt := -1\<rparr>, k')
        | (Got s, k') \<Rightarrow> if s = [] then (Some 0, rp\<lparr>rio_cnt := 0\<rparr>, k')
            else (None, rp\<lparr>rio_cnt := int (length s), rio_bufptr := 0,
              rio_buf := s @ drop (length s) (rio_buf rp)\<rparr>, k')
      else (None, rp, k))"
  by pat_completeness auto

termination
  by (relation "measure (length \<circ> snd)") (auto dest: sys_read_eintr [OF sym])

definition rio_read :: "rio_t \<Rightarrow> nat \<Rightarrow> read_result list \<Rightarrow> (int \<times> u8 list \<times> rio_t \<times> read_result list) outcome" where
  "rio_read rp n k =
     (case rio_refill rp k of
        (Some r, rp, k) \<Rightarrow> Ret (r, [], rp, k)
      | (None, rp, k) \<Rightarrow>
          let cnt = (if rio_cnt rp < int n then nat (rio_cnt rp) else n) in
          if rio_bufptr rp + cnt \<le> length (rio_buf rp) then
            Ret (int cnt, take cnt (drop (rio_bufptr rp) (rio_buf rp)),
              rp\<lparr>rio_bufptr := rio_bufptr rp + cnt, rio_cnt := rio_cnt rp - int cnt\<rparr>, k)
          else Undefined Out_of_bounds)"

text \<open>
  \<open>rio_read\<close> returns -1 only with an \<open>errno\<close> other than \<open>EINTR\<close>, so that the loop ends there. A
  result above \<open>nleft\<close>, which \<open>rio_read\<close> never gives, would write outside \<open>usrbuf\<close>.
\<close>

function rio_readnb_loop :: "rio_t \<Rightarrow> nat \<Rightarrow> nat \<Rightarrow> u8 list \<Rightarrow> read_result list \<Rightarrow>
    (int \<times> u8 list \<times> rio_t \<times> read_result list) outcome" where
  "rio_readnb_loop rp n nleft got k =
     (if 0 < nleft then
        case rio_read rp nleft k of
          Ret (nread, s, rp', k') \<Rightarrow>
            if nread < 0 then Ret (-1, got, rp', k')
            else if nread = 0 then Ret (int n - int nleft, got, rp', k')
            else rio_readnb_loop rp' n (nleft - nat nread) (got @ s) k'
        | Exit c \<Rightarrow> Exit c | Abort \<Rightarrow> Abort | Undefined u \<Rightarrow> Undefined u | Pending \<Rightarrow> Pending
      else Ret (int n - int nleft, got, rp, k))"
  by pat_completeness auto

termination
  by (relation "measure (\<lambda>(rp, n, nleft, got, k). nleft)") auto

definition rio_readnb :: "rio_t \<Rightarrow> nat \<Rightarrow> read_result list \<Rightarrow>
    (int \<times> u8 list \<times> rio_t \<times> read_result list) outcome" where
  "rio_readnb rp n k = rio_readnb_loop rp n n [] k"

text \<open>
  A line: \<open>n\<close> is the local variable that starts at 1, \<open>got\<close> what has been stored, and the string
  that is returned is what \<open>usrbuf\<close> holds then, with the zero behind a line. \<open>n\<close> is an \<open>int\<close>, while
  \<open>maxlen\<close>, to which it is compared, is a \<open>size_t\<close>: the increment that leaves the \<open>int\<close>s is undefined.
\<close>

definition int_increment :: "nat \<Rightarrow> nat outcome" where
  "int_increment n = (if n + 1 < 2 ^ 31 then Ret (n + 1) else Undefined Value_range)"

function rio_line_loop :: "rio_t \<Rightarrow> nat \<Rightarrow> nat \<Rightarrow> u8 list \<Rightarrow> read_result list \<Rightarrow>
    (int \<times> u8 list \<times> rio_t \<times> read_result list) outcome" where
  "rio_line_loop rp maxlen n got k =
     (if n < maxlen then
        case rio_read rp 1 k of
          Ret (rc, s, rp', k') \<Rightarrow>
            if rc = 1 then
              if s = [of_char CHR 0x0A] then Ret (int n, got @ s @ [0], rp', k')
              else (case int_increment n of
                  Ret n' \<Rightarrow> rio_line_loop rp' maxlen n' (got @ s) k'
                | Exit c \<Rightarrow> Exit c | Abort \<Rightarrow> Abort | Undefined u \<Rightarrow> Undefined u | Pending \<Rightarrow> Pending)
            else if rc = 0 then
              if n = 1 then Ret (0, got, rp', k') else Ret (int n, got @ [0], rp', k')
            else Ret (-1, got, rp', k')
        | Exit c \<Rightarrow> Exit c | Abort \<Rightarrow> Abort | Undefined u \<Rightarrow> Undefined u | Pending \<Rightarrow> Pending
      else Ret (int n, got @ [0], rp, k))"
  by pat_completeness auto

termination
  by (relation "measure (\<lambda>(rp, maxlen, n, got, k). maxlen - n)") (auto simp: int_increment_def split: if_splits)

definition rio_readlineb :: "rio_t \<Rightarrow> nat \<Rightarrow> read_result list \<Rightarrow>
    (int \<times> u8 list \<times> rio_t \<times> read_result list) outcome" where
  "rio_readlineb rp maxlen k = rio_line_loop rp maxlen 1 [] k"

section \<open>The wrappers\<close>

definition Rio_readn :: "nat \<Rightarrow> read_result list \<Rightarrow> (int \<times> u8 list \<times> read_result list) outcome" where
  "Rio_readn n k = (let (r, s, k) = rio_readn n k in if r < 0 then unix_error else Ret (r, s, k))"

definition Rio_readinitb :: "rio_t \<Rightarrow> rio_t" where
  "Rio_readinitb rp = rio_readinitb rp"

definition Rio_readnb :: "rio_t \<Rightarrow> nat \<Rightarrow> read_result list \<Rightarrow>
    (int \<times> u8 list \<times> rio_t \<times> read_result list) outcome" where
  "Rio_readnb rp n k = obind (rio_readnb rp n k) (\<lambda>(rc, s, rp, k).
     if rc < 0 then unix_error else Ret (rc, s, rp, k))"

definition Rio_readlineb :: "rio_t \<Rightarrow> nat \<Rightarrow> read_result list \<Rightarrow>
    (int \<times> u8 list \<times> rio_t \<times> read_result list) outcome" where
  "Rio_readlineb rp maxlen k = obind (rio_readlineb rp maxlen k) (\<lambda>(rc, s, rp, k).
     if rc < 0 then unix_error else Ret (rc, s, rp, k))"

declare rio_readn_loop.simps [simp del] rio_refill.simps [simp del]
  rio_readnb_loop.simps [simp del] rio_line_loop.simps [simp del]

section \<open>Reading a stream\<close>

text \<open>The characters a reader still has to give: those in its buffer, and those of the connection.\<close>

definition wf_rio :: "rio_t \<Rightarrow> bool" where
  "wf_rio rp \<longleftrightarrow> length (rio_buf rp) = RIO_BUFSIZE \<and> int (rio_bufptr rp) + rio_cnt rp \<le> int RIO_BUFSIZE \<and>
     rio_bufptr rp \<le> RIO_BUFSIZE"

definition unread :: "rio_t \<Rightarrow> read_result list \<Rightarrow> u8 list" where
  "unread rp k = take (nat (rio_cnt rp)) (drop (rio_bufptr rp) (rio_buf rp)) @ stream k"

lemma unread_init: "unread (rio_readinitb rp) k = stream k" "length (rio_buf rp) = RIO_BUFSIZE \<Longrightarrow> wf_rio (rio_readinitb rp)"
  by (simp_all add: unread_def rio_readinitb_def wf_rio_def)

lemma sys_read_live:
  assumes "live k" "0 < n"
  shows "\<exists>k'. live k' \<and> (sys_read n k = (EINTR_error, k') \<and> stream k' = stream k \<or>
    (\<exists>s. sys_read n k = (Got s, k') \<and> stream k = s @ stream k' \<and> length s \<le> n \<and> (s = [] \<longleftrightarrow> stream k = [])))"
  using assms by (cases "(n, k)" rule: sys_read.cases) auto

lemma readn_steps:
  "rio_readn_loop n 0 got k = (int n, got, k)"
  "0 < nleft \<Longrightarrow> sys_read nleft k = (EINTR_error, k') \<Longrightarrow> rio_readn_loop n nleft got k = rio_readn_loop n nleft got k'"
  "0 < nleft \<Longrightarrow> sys_read nleft k = (Other_error, k') \<Longrightarrow> rio_readn_loop n nleft got k = (-1, got, k')"
  "0 < nleft \<Longrightarrow> sys_read nleft k = (Got [], k') \<Longrightarrow> rio_readn_loop n nleft got k = (int n - int nleft, got, k')"
  "0 < nleft \<Longrightarrow> sys_read nleft k = (Got (c # s), k') \<Longrightarrow>
     rio_readn_loop n nleft got k = rio_readn_loop n (nleft - length (c # s)) (got @ c # s) k'"
  by (simp_all add: rio_readn_loop.simps [of n nleft got k] rio_readn_loop.simps [of n 0 got k])

lemma refill_steps:
  "0 < rio_cnt rp \<Longrightarrow> rio_refill rp k = (None, rp, k)"
  "rio_cnt rp \<le> 0 \<Longrightarrow> sys_read RIO_BUFSIZE k = (EINTR_error, k') \<Longrightarrow>
     rio_refill rp k = rio_refill (rp\<lparr>rio_cnt := -1\<rparr>) k'"
  "rio_cnt rp \<le> 0 \<Longrightarrow> sys_read RIO_BUFSIZE k = (Other_error, k') \<Longrightarrow>
     rio_refill rp k = (Some (-1), rp\<lparr>rio_cnt := -1\<rparr>, k')"
  "rio_cnt rp \<le> 0 \<Longrightarrow> sys_read RIO_BUFSIZE k = (Got [], k') \<Longrightarrow> rio_refill rp k = (Some 0, rp\<lparr>rio_cnt := 0\<rparr>, k')"
  "rio_cnt rp \<le> 0 \<Longrightarrow> sys_read RIO_BUFSIZE k = (Got (c # s), k') \<Longrightarrow>
     rio_refill rp k = (None, rp\<lparr>rio_cnt := int (length (c # s)), rio_bufptr := 0,
       rio_buf := (c # s) @ drop (length (c # s)) (rio_buf rp)\<rparr>, k')"
  by (simp_all add: rio_refill.simps [of rp k])

lemma readnb_steps:
  "rio_readnb_loop rp n 0 got k = Ret (int n, got, rp, k)"
  "0 < nleft \<Longrightarrow> rio_read rp nleft k = Ret (0, s, rp', k') \<Longrightarrow>
     rio_readnb_loop rp n nleft got k = Ret (int n - int nleft, got, rp', k')"
  "0 < nleft \<Longrightarrow> rio_read rp nleft k = Ret (int (length (c # s)), c # s, rp', k') \<Longrightarrow>
     rio_readnb_loop rp n nleft got k = rio_readnb_loop rp' n (nleft - length (c # s)) (got @ c # s) k'"
  by (simp_all add: rio_readnb_loop.simps [of rp n nleft got k] rio_readnb_loop.simps [of rp n 0 got k] nat_add_distrib)

lemma line_steps:
  "maxlen \<le> n \<Longrightarrow> rio_line_loop rp maxlen n got k = Ret (int n, got @ [0], rp, k)"
  "n < maxlen \<Longrightarrow> rio_read rp 1 k = Ret (0, s, rp', k') \<Longrightarrow>
     rio_line_loop rp maxlen n got k = Ret (if n = 1 then (0, got, rp', k') else (int n, got @ [0], rp', k'))"
  "n < maxlen \<Longrightarrow> rio_read rp 1 k = Ret (1, [c], rp', k') \<Longrightarrow>
     rio_line_loop rp maxlen n got k = (if c = 10 then Ret (int n, got @ [c, 0], rp', k')
       else if n + 1 < 2 ^ 31 then rio_line_loop rp' maxlen (n + 1) (got @ [c]) k' else Undefined Value_range)"
  by (simp_all add: rio_line_loop.simps [of rp maxlen n got k] int_increment_def)

lemma take_front:
  assumes "length s \<le> n"
  shows "take n (s @ r) = s @ take (n - length s) r" "drop n (s @ r) = drop (n - length s) r"
    "n - min n (length (s @ r)) = n - length s - min (n - length s) (length r)"
  using assms by auto

lemma readn_loop_stream:
  assumes "live k"
  shows "\<exists>k'. rio_readn_loop n nleft got k =
      (int n - int (nleft - min nleft (length (stream k))), got @ take nleft (stream k), k') \<and>
    live k' \<and> stream k' = drop nleft (stream k)"
  using assms
proof (induction "nleft + length k" arbitrary: nleft got k rule: less_induct)
  case less
  show ?case
  proof (cases "nleft = 0")
    case False
    then have n: "0 < nleft" by simp
    from sys_read_live [OF less.prems n] obtain k' where k': "live k'"
      and "sys_read nleft k = (EINTR_error, k') \<and> stream k' = stream k \<or>
       (\<exists>s. sys_read nleft k = (Got s, k') \<and> stream k = s @ stream k' \<and> length s \<le> nleft \<and> (s = [] \<longleftrightarrow> stream k = []))"
      by blast
    then consider (interrupted) "sys_read nleft k = (EINTR_error, k')" "stream k' = stream k"
      | (closed) "sys_read nleft k = (Got [], k')" "stream k' = stream k" "stream k = []"
      | (chars) c s where "sys_read nleft k = (Got (c # s), k')" "stream k = (c # s) @ stream k'" "length (c # s) \<le> nleft"
      by (metis append_self_conv2 neq_Nil_conv)
    then show ?thesis
    proof cases
      case interrupted
      with less.hyps [OF _ k', of nleft got] sys_read_eintr [OF interrupted(1)] show ?thesis
        by (simp add: readn_steps(2) [OF n interrupted(1)])
    next
      case closed
      with k' show ?thesis by (auto simp: readn_steps(4) [OF n])
    next
      case chars
      from chars(3) have "nleft - length (c # s) + length k' < nleft + length k"
        using sys_read_length [OF chars(1)] by simp
      from less.hyps [OF this k', of "got @ c # s"] show ?thesis
        unfolding readn_steps(5) [OF n chars(1)] chars(2) take_front [OF chars(3)] by auto
    qed
  qed (use less.prems in \<open>simp add: readn_steps\<close>)
qed

lemma refill_stream:
  assumes "live k" "wf_rio rp"
  shows "\<exists>r rp' k'. rio_refill rp k = (r, rp', k') \<and> live k' \<and> wf_rio rp' \<and> unread rp' k' = unread rp k \<and>
    (if unread rp k = [] then r = Some 0 else r = None \<and> 0 < rio_cnt rp')"
  using assms
proof (induction "length k" arbitrary: rp k rule: less_induct)
  case less
  show ?case
  proof (cases "rio_cnt rp \<le> 0")
    case True
    have u: "unread rp k = stream k" using True by (simp add: unread_def)
    from sys_read_live [OF less.prems(1), of RIO_BUFSIZE] obtain k' where k': "live k'"
      and "sys_read RIO_BUFSIZE k = (EINTR_error, k') \<and> stream k' = stream k \<or>
       (\<exists>s. sys_read RIO_BUFSIZE k = (Got s, k') \<and> stream k = s @ stream k' \<and> length s \<le> RIO_BUFSIZE \<and>
         (s = [] \<longleftrightarrow> stream k = []))"
      by (auto simp: RIO_BUFSIZE_def)
    then consider (interrupted) "sys_read RIO_BUFSIZE k = (EINTR_error, k')" "stream k' = stream k"
      | (closed) "sys_read RIO_BUFSIZE k = (Got [], k')" "stream k' = stream k" "stream k = []"
      | (chars) c s where "sys_read RIO_BUFSIZE k = (Got (c # s), k')" "stream k = (c # s) @ stream k'" "length (c # s) \<le> RIO_BUFSIZE"
      by (metis append_self_conv2 neq_Nil_conv)
    then show ?thesis
    proof cases
      case interrupted
      have "wf_rio (rp\<lparr>rio_cnt := -1\<rparr>)" "unread (rp\<lparr>rio_cnt := -1\<rparr>) k' = unread rp k"
        using less.prems(2) interrupted(2) u by (auto simp: wf_rio_def unread_def)
      with less.hyps [OF sys_read_eintr [OF interrupted(1)] k' this(1)] show ?thesis
        by (simp add: refill_steps(2) [OF True interrupted(1)])
    next
      case closed
      with less.prems k' u True show ?thesis by (auto simp: refill_steps(4) wf_rio_def unread_def)
    next
      case chars
      with less.prems(2) k' u show ?thesis
        unfolding refill_steps(5) [OF True chars(1)] by (auto simp: wf_rio_def unread_def nat_add_distrib)
    qed
  next
    case False
    then have "unread rp k \<noteq> []" using less.prems(2) by (auto simp: unread_def wf_rio_def)
    with False less.prems show ?thesis by (simp add: refill_steps(1))
  qed
qed

lemma rio_read_stream:
  assumes "live k" "wf_rio rp" "0 < n"
  shows "\<exists>s rp' k'. rio_read rp n k = Ret (int (length s), s, rp', k') \<and> live k' \<and> wf_rio rp' \<and>
    unread rp k = s @ unread rp' k' \<and> length s \<le> n \<and> (s = [] \<longleftrightarrow> unread rp k = [])"
proof -
  from refill_stream [OF assms(1,2)] obtain r rp' k' where r: "rio_refill rp k = (r, rp', k')" "live k'" "wf_rio rp'"
    "unread rp' k' = unread rp k" "if unread rp k = [] then r = Some 0 else r = None \<and> 0 < rio_cnt rp'" by blast
  show ?thesis
  proof (cases "unread rp k = []")
    case True
    with r show ?thesis by (simp add: rio_read_def)
  next
    case False
    with r(5) have c: "r = None" "0 < rio_cnt rp'" by simp_all
    define cnt where "cnt = (if rio_cnt rp' < int n then nat (rio_cnt rp') else n)"
    define s where "s = take cnt (drop (rio_bufptr rp') (rio_buf rp'))"
    define q where "q = rp'\<lparr>rio_bufptr := rio_bufptr rp' + cnt, rio_cnt := rio_cnt rp' - int cnt\<rparr>"
    have b: "rio_bufptr rp' + cnt \<le> length (rio_buf rp')" "cnt \<le> nat (rio_cnt rp')" "cnt \<le> n" "0 < cnt"
      using r(3) c(2) assms(3) by (auto simp: wf_rio_def cnt_def)
    have l: "length s = cnt" using b(1) by (simp add: s_def)
    from b(2) have "nat (rio_cnt rp') = cnt + nat (rio_cnt q)" using c(2) by (simp add: q_def)
    then have "unread rp' k' = s @ unread q k'"
      by (simp add: unread_def s_def take_add q_def add.commute)
    moreover have "wf_rio q" using r(3) b by (auto simp: wf_rio_def q_def)
    moreover have "rio_read rp n k = Ret (int cnt, s, q, k')"
      using b(1) by (simp add: rio_read_def r(1) c(1) Let_def cnt_def [symmetric] s_def q_def)
    moreover have "s \<noteq> []" using l b(4) by auto
    ultimately show ?thesis using r(2,4) l b(3) False by auto
  qed
qed

lemma rio_read_cases:
  assumes "live k" "wf_rio rp" "0 < n"
  obtains (closed) rp' k' where "rio_read rp n k = Ret (0, [], rp', k')" "live k'" "wf_rio rp'" "unread rp k = []" "unread rp' k' = []"
  | (chars) c s rp' k' where "rio_read rp n k = Ret (int (length (c # s)), c # s, rp', k')" "live k'" "wf_rio rp'"
      "unread rp k = (c # s) @ unread rp' k'" "length (c # s) \<le> n"
proof -
  from rio_read_stream [OF assms] obtain s rp' k' where s: "rio_read rp n k = Ret (int (length s), s, rp', k')"
    "live k'" "wf_rio rp'" "unread rp k = s @ unread rp' k'" "length s \<le> n" "s = [] \<longleftrightarrow> unread rp k = []" by blast
  show thesis
  proof (cases s)
    case Nil
    with s show thesis by (auto intro!: closed)
  next
    case (Cons c s')
    with s show thesis by (intro chars) auto
  qed
qed

lemma readnb_loop_stream:
  assumes "live k" "wf_rio rp"
  shows "\<exists>rp' k'. rio_readnb_loop rp n nleft got k =
      Ret (int n - int (nleft - min nleft (length (unread rp k))), got @ take nleft (unread rp k), rp', k') \<and>
    live k' \<and> wf_rio rp' \<and> unread rp' k' = drop nleft (unread rp k)"
  using assms
proof (induction nleft arbitrary: rp got k rule: less_induct)
  case (less nleft)
  show ?case
  proof (cases "nleft = 0")
    case False
    then have n: "0 < nleft" by simp
    from less.prems n show ?thesis
    proof (cases rule: rio_read_cases)
      case closed
      then show ?thesis by (auto simp: readnb_steps(2) [OF n closed(1)])
    next
      case (chars c s rp' k')
      have "nleft - length (c # s) < nleft" using n by simp
      from less.IH [OF this chars(2,3), of "got @ c # s"] chars(4) show ?thesis
        unfolding readnb_steps(3) [OF n chars(1)] chars(4) take_front [OF chars(5)] by auto
    qed
  qed (use less.prems in \<open>simp add: readnb_steps\<close>)
qed

text \<open>The line in front of a stream, of at most \<open>m\<close> characters, with its newline if it has one.\<close>

fun line_of :: "nat \<Rightarrow> u8 list \<Rightarrow> u8 list" where
  "line_of 0 s = []"
| "line_of (Suc m) [] = []"
| "line_of (Suc m) (c # s) = (if c = 10 then [c] else c # line_of m s)"

definition complete :: "u8 list \<Rightarrow> bool" where
  "complete l \<longleftrightarrow> l \<noteq> [] \<and> last l = 10"

lemma line_simps [simp]:
  "line_of m [] = []" "\<not> complete []" "complete [c] \<longleftrightarrow> c = 10" "complete (c # d # l) \<longleftrightarrow> complete (d # l)"
  "line_of (numeral v) (c # s) = (if c = 10 then [c] else c # line_of (pred_numeral v) s)"
  by (cases m; simp add: complete_def numeral_eq_Suc)+

text \<open>The number that is returned for a line: its length, and one more if it has no newline.\<close>

definition line_count :: "u8 list \<Rightarrow> nat" where
  "line_count l = length l + (if complete l then 0 else 1)"

lemma line_count_simps [simp]:
  "line_count [] = 1" "line_count [c] = (if c = 10 then 1 else 2)" "line_count (c # d # l) = Suc (line_count (d # l))"
  by (simp_all add: line_count_def)

lemma line_count_Cons: "c \<noteq> 10 \<Longrightarrow> line_count (c # l) = Suc (line_count l)"
  by (cases l) simp_all

lemma line_count_pos: "0 < line_count l"
  by (cases l) (simp_all add: line_count_def)

text \<open>\<open>n\<close> has been incremented once for each of the characters \<open>got\<close>, without leaving the \<open>int\<close>s.\<close>

lemma line_loop_stream:
  fixes maxlen n :: nat
  assumes "live k" "wf_rio rp" "n = Suc (length got)" "n < 2 ^ 31"
  defines "l \<equiv> line_of (maxlen - n) (unread rp k)"
  shows "length got + line_count l < 2 ^ 31 \<Longrightarrow> \<exists>rp' k'. rio_line_loop rp maxlen n got k =
      Ret (if got @ l = [] \<and> n < maxlen then (0, [], rp', k')
        else (int (length got + line_count l), got @ l @ [0], rp', k')) \<and>
      live k' \<and> wf_rio rp' \<and> unread rp k = l @ unread rp' k'"
    and "2 ^ 31 \<le> length got + line_count l \<Longrightarrow> rio_line_loop rp maxlen n got k = Undefined Value_range"
  using assms(1-4) unfolding l_def
proof (induction "maxlen - n" arbitrary: n rp got k)
  case 0
  {
    case 1
    with 0 show ?case by (auto simp: line_steps(1))
  next
    case 2
    with 0 show ?case by simp
  }
next
  case (Suc m)
  then have n: "n < maxlen" "maxlen - n = Suc m" "m = maxlen - (n + 1)" by linarith+
  {
    case 1
    from 1(2,3) zero_less_one show ?case
    proof (cases rule: rio_read_cases)
      case closed
      with n 1(4) show ?thesis
        unfolding line_steps(2) [OF n(1) closed(1)] by (cases "got = []") simp_all
    next
      case (chars c s rp' k')
      then have r: "rio_read rp 1 k = Ret (1, [c], rp', k')" "unread rp k = c # unread rp' k'" by auto
      show ?thesis
      proof (cases "c = 10")
        case True
        with r chars(2,3) n 1(4) show ?thesis unfolding line_steps(3) [OF n(1) r(1)] by simp
      next
        case False
        let ?l = "line_of (maxlen - (n + 1)) (unread rp' k')"
        have l: "line_of (maxlen - n) (unread rp k) = c # ?l" using r(2) n False by simp
        have b: "length (got @ [c]) + line_count ?l < 2 ^ 31" "n + 1 < 2 ^ 31"
          using 1(1,4) line_count_pos [of ?l] unfolding l line_count_Cons [OF False] by simp_all
        have "n + 1 = Suc (length (got @ [c]))" using 1(4) by simp
        from Suc.hyps(1) [OF n(3) b(1) chars(2,3) this b(2)] False r(2) b(2) show ?thesis
          unfolding line_steps(3) [OF n(1) r(1)] l line_count_Cons [OF False] by auto
      qed
    qed
  next
    case 2
    from 2(2,3) zero_less_one show ?case
    proof (cases rule: rio_read_cases)
      case closed
      with 2(1,4,5) show ?thesis by simp
    next
      case (chars c s rp' k')
      then have r: "rio_read rp 1 k = Ret (1, [c], rp', k')" "unread rp k = c # unread rp' k'" by auto
      show ?thesis
      proof (cases "c = 10")
        case True
        with r 2(1,4,5) n show ?thesis by simp
      next
        case False
        let ?l = "line_of (maxlen - (n + 1)) (unread rp' k')"
        have l: "line_of (maxlen - n) (unread rp k) = c # ?l" using r(2) n False by simp
        have b: "2 ^ 31 \<le> length (got @ [c]) + line_count ?l" using 2(1) unfolding l line_count_Cons [OF False] by simp
        have "n + 1 = Suc (length (got @ [c]))" using 2(4) by simp
        from Suc.hyps(2) [OF n(3) b chars(2,3) this] False show ?thesis
          unfolding line_steps(3) [OF n(1) r(1)] by simp
      qed
    qed
  }
qed

section \<open>Properties\<close>

text \<open>
  C40: However the connection splits the stream and signals interrupt the reads: \<open>rio_readn\<close> and
  the buffered \<open>rio_readnb\<close> return the next \<open>n\<close> characters of the stream, or all if there are fewer, with their
  number, and \<open>rio_readlineb\<close> returns the next line; behind any mixture of buffered reads the
  rest of the stream is left. The number \<open>rio_readlineb\<close> returns is the length of the line
  only if the line ends with a newline; else it is one more. It is counted in an \<open>int\<close>: if it is
  2147483648 or more, the count overflows, and the reader returns nothing. The size of a buffer is
  one that a \<open>ssize_t\<close> holds.
\<close>

theorem robust_reads:
  assumes "live k" "wf_rio rp" "n < 2 ^ 63"
  shows "(\<exists>k'. rio_readn n k = (int (length (take n (stream k))), take n (stream k), k') \<and>
      live k' \<and> stream k' = drop n (stream k)) \<and>
    (\<exists>rp' k'. rio_readnb rp n k = Ret (int (length (take n (unread rp k))), take n (unread rp k), rp', k') \<and>
      live k' \<and> wf_rio rp' \<and> unread rp' k' = drop n (unread rp k)) \<and>
    (let l = line_of (maxlen - 1) (unread rp k); count = length l + (if complete l then 0 else 1) in
     if count < 2 ^ 31 then
       \<exists>rp' k'. rio_readlineb rp maxlen k =
          Ret (if l = [] \<and> 1 < maxlen then (0, [], rp', k') else (int count, l @ [0], rp', k')) \<and>
        live k' \<and> wf_rio rp' \<and> unread rp' k' = drop (length l) (unread rp k)
     else rio_readlineb rp maxlen k = Undefined Value_range)"
proof (intro conjI)
  show "\<exists>k'. rio_readn n k = (int (length (take n (stream k))), take n (stream k), k') \<and>
      live k' \<and> stream k' = drop n (stream k)"
    using readn_loop_stream [OF assms(1), of n n "[]"] by (auto simp: rio_readn_def min_def)
  show "\<exists>rp' k'. rio_readnb rp n k = Ret (int (length (take n (unread rp k))), take n (unread rp k), rp', k') \<and>
      live k' \<and> wf_rio rp' \<and> unread rp' k' = drop n (unread rp k)"
    using readnb_loop_stream [OF assms(1,2), of n n "[]"] by (auto simp: rio_readnb_def min_def)
  let ?l = "line_of (maxlen - 1) (unread rp k)"
  have "\<exists>rp' k'. rio_readlineb rp maxlen k =
        Ret (if ?l = [] \<and> 1 < maxlen then (0, [], rp', k') else (int (line_count ?l), ?l @ [0], rp', k')) \<and>
      live k' \<and> wf_rio rp' \<and> unread rp' k' = drop (length ?l) (unread rp k)" if "line_count ?l < 2 ^ 31"
  proof -
    note line = line_loop_stream(1) [OF assms(1,2), of 1 "[]" maxlen, unfolded append_Nil list.size(3) add_0]
    have "1 = Suc 0" "(1 :: nat) < 2 ^ 31" by simp_all
    from line [OF this that] obtain rp' k' where
      x: "rio_line_loop rp maxlen 1 [] k =
        Ret (if ?l = [] \<and> 1 < maxlen then (0, [], rp', k') else (int (line_count ?l), ?l @ [0], rp', k'))"
      "live k'" "wf_rio rp'" "unread rp k = ?l @ unread rp' k'" by blast
    from x(4) have "unread rp' k' = drop (length ?l) (unread rp k)" by (metis append_eq_conv_conj)
    with x(1-3) show ?thesis unfolding rio_readlineb_def by blast
  qed
  moreover have "rio_readlineb rp maxlen k = Undefined Value_range" if "\<not> line_count ?l < 2 ^ 31"
    using line_loop_stream(2) [OF assms(1,2), of 1 "[]" maxlen] that unfolding rio_readlineb_def by simp
  ultimately show "let l = line_of (maxlen - 1) (unread rp k); count = length l + (if complete l then 0 else 1) in
     if count < 2 ^ 31 then
       \<exists>rp' k'. rio_readlineb rp maxlen k =
          Ret (if l = [] \<and> 1 < maxlen then (0, [], rp', k') else (int count, l @ [0], rp', k')) \<and>
        live k' \<and> wf_rio rp' \<and> unread rp' k' = drop (length l) (unread rp k)
     else rio_readlineb rp maxlen k = Undefined Value_range"
    unfolding Let_def line_count_def by (auto split: if_split)
qed

theorem robust_reads_witness:
  "\<exists>rp k. rio_readlineb (rio_readinitb \<lparr>rio_cnt = 7, rio_bufptr = 9000, rio_buf = replicate RIO_BUFSIZE 0\<rparr>) 80
      [Chunk [65], Interruption, Chunk [66, 10, 67], Chunk [68]] = Ret (3, [65, 66, 10, 0], rp, k) \<and> 
     unread rp k = [67, 68]"
proof -
  let ?rp = "rio_readinitb \<lparr>rio_cnt = 7, rio_bufptr = 9000, rio_buf = replicate RIO_BUFSIZE 0\<rparr>"
  let ?k = "[Chunk [65], Interruption, Chunk [66, 10, 67], Chunk [68]]"
  have "live ?k" "wf_rio ?rp" "unread ?rp ?k = [65, 66, 10, 67, 68]" 
    by (simp_all add: unread_init)
  moreover have "line_of 79 [65, 66, 10, 67, 68] = [65, 66, 10]" by simp
  moreover have "complete [65, 66, 10]" by simp
  ultimately show ?thesis
    using robust_reads [of ?k ?rp 0 80] by (auto simp: Let_def)
qed

text \<open>The last line of a stream, without a newline: two characters are read, and three are reported.\<close>

lemma line_count_example:
  "\<exists>rp k. rio_readlineb (rio_readinitb \<lparr>rio_cnt = 0, rio_bufptr = 0, rio_buf = replicate RIO_BUFSIZE 0\<rparr>) 80 [Chunk [65, 66]] =
     Ret (3, [65, 66, 0], rp, k)"
proof -
  let ?rp = "rio_readinitb \<lparr>rio_cnt = 0, rio_bufptr = 0, rio_buf = replicate RIO_BUFSIZE 0\<rparr>"
  have "line_of (80 - 1) (unread ?rp [Chunk [65, 66]]) = [65, 66]" by (simp add: unread_init)
  with line_loop_stream(1) [of "[Chunk [65, 66]]" ?rp 1 "[]" 80] show ?thesis
    by (auto simp: unread_init rio_readlineb_def)
qed

text \<open>A connection that sends 2147483647 characters without a newline makes the count overflow.\<close>

lemma line_count_overflow:
  assumes "live k" "wf_rio rp" "unread rp k = replicate (2 ^ 31 - 1) 65" "2 ^ 31 \<le> maxlen"
  shows "rio_readlineb rp maxlen k = Undefined Value_range"
proof -
  have line: "line_of m (replicate i 65) = replicate (min m i) (65 :: u8)" for m i
    by (induction i arbitrary: m; case_tac m) simp_all
  have count: "line_count (replicate i (65 :: u8)) = Suc i" for i
    by (induction i) (simp_all add: line_count_Cons)
  have "min (maxlen - 1) (2 ^ 31 - 1) = (2 ^ 31 - 1 :: nat)" using assms(4) by simp
  with line_loop_stream(2) [OF assms(1,2), of 1 "[]" maxlen] show ?thesis
    unfolding rio_readlineb_def assms(3) line count by simp
qed

end
