(* ===== verification/Program.thy ===== *)
theory Program
  imports Dialogues Threads Sockets
begin

unbundle bit_operations_syntax

text \<open>
  The program as a whole: the options, the machine, the server of the debugger with its
  connection, the scanner with its buffer, the requests and the writes of their answers, and what
  the interrupts add to it.
\<close>

section \<open>The main program\<close>

text \<open>
  \<open>main\<close> with the thread of the debugger, which it waits for, and an interrupt thread that
  receives nothing: \<open>answers\<close> are what the system calls of the thread answer, \<open>k\<close> what the reads of the connection
  give, and the blocks are what the allocated memory holds. The value is the status of the process.
\<close>

definition program :: "(u8 list \<Rightarrow> bool) \<Rightarrow> (char \<times> u8 list) list \<Rightarrow> u8 list \<Rightarrow> u32 \<Rightarrow> u32 list \<Rightarrow>
    u8 list \<Rightarrow> u8 list \<Rightarrow> nat \<Rightarrow> (nat \<Rightarrow> u8) \<Rightarrow> nat \<Rightarrow> bool \<Rightarrow> read_result list \<Rightarrow> answer list \<Rightarrow> host \<Rightarrow>
    (int \<times> parser process) outcome" where
  "program can_open options mblock cycles garbage block error_block n junk fuel opened k as h =
     obind (simulator_main can_open options mblock cycles garbage h) (\<lambda>(st, m).
     obind (gdb_listener n junk fuel opened k (gdb_port st) h
         \<lparr>answers = as, system_calls = [], shared = connected block error_block m\<rparr>) (\<lambda>(_, w).
     Ret (0, w)))"

section \<open>The machine it starts with\<close>

text \<open>The memory is what the allocated block holds, and the registers are those of a reset.\<close>

definition initial_view :: "u8 list \<Rightarrow> u32 list \<Rightarrow> view" where
  "initial_view mblock garbage = \<lparr>shown_octets = mblock, shown_regs = (take 17 garbage)[15 := 0, 16 := 0x1D3]\<rparr>"

lemma created_registers:
  assumes "length garbage = 37" "wf_trace t" "arm_create cycles garbage m t h = Ret s"
  shows "regs (reg s) = garbage[16 := 0x1D3, 15 := 0]" "mem s = m"
proof -
  let ?s = "\<lparr>cycle_count = cycles, reg = registers_create garbage, mem = m, trc = t\<rparr>"
  have u: "user_state ?s" using assms by (simp add: user_state_def wf_registers_def registers_create_def)
  have "runs (arm_exception RESET) h ?s () (set_reg 15 0 (set_reg 16 0x1D3 ?s))"
    using u by (intro runsI respecting_arm_exception) (simp_all add: wp_arm_exception)
  then obtain s' where s': "arm_exception RESET h ?s = Ret ((), s')" "same_core s' (set_reg 15 0 (set_reg 16 0x1D3 ?s))"
    by (auto simp: runs_def)
  then have "s = s'\<lparr>cycle_count := 0\<rparr>" using assms(3) by (simp add: arm_create_def mbind_def modify_def)
  with same_core_gets(1,2) [OF s'(2)] show "regs (reg s) = garbage[16 := 0x1D3, 15 := 0]" "mem s = m"
    by (simp_all add: set_reg_def registers_create_def)
qed

lemma main_machine:
  assumes "simulator_main can_open options mblock cycles garbage h = Ret (st, m)"
    and "length mblock = 0x20000" "length garbage = 37"
  shows "sim_inv 0x20000 (if big_endian_simulator h then 1 else 0) m" "octets (mem m) = mblock"
    "regs (reg m) = garbage[16 := 0x1D3, 15 := 0]"
proof -
  from assms(1) have st: "set_options can_open options settings_init = Ret st"
    and m: "create_machine mblock cycles garbage st h = Ret m"
    by (auto simp: simulator_main_def obind_Ret_iff)
  have t: "wf_trace (tracing st)"
    using set_options_trace [OF st] by (simp add: settings_init_def wf_trace_init)
  from created(1) [OF assms(3) t assms(2) m] show "sim_inv 0x20000 (if big_endian_simulator h then 1 else 0) m" .
  from created_registers [OF assms(3) t m [unfolded create_machine_def]]
  show "octets (mem m) = mblock" "regs (reg m) = garbage[16 := 0x1D3, 15 := 0]"
    by (simp_all add: memory_create_def)
qed

lemma connected_simps [simp]:
  "calls (connected block error_block m) = []" "error_len (connected block error_block m) = 0"
  "mem (connected block error_block m) = mem m" "reg (connected block error_block m) = reg m"
  by (simp_all add: connected_def gdb_init_data_def machine.defs gdb.defs parser.defs)

lemma main_session:
  assumes "simulator_main can_open options mblock cycles garbage h = Ret (st, m)"
    and "length mblock = 0x20000" "length garbage = 37" "length block = 1024" "length error_block = 1024"
  shows "session_inv 0x20000 (if big_endian_simulator h then 1 else 0) (connected block error_block m)"
    "serving (connected block error_block m)"
    "view_of (connected block error_block m) = initial_view mblock garbage"
    "length (octets (mem (connected block error_block m))) = 0x20000"
proof -
  note m = main_machine [OF assms(1-3)]
  from connected_inv [OF m(1) assms(4,5)]
  show i: "session_inv 0x20000 (if big_endian_simulator h then 1 else 0) (connected block error_block m)" .
  from i show "serving (connected block error_block m)" by (auto simp: serving_def)
  show "view_of (connected block error_block m) = initial_view mblock garbage"
    using m(2,3) by (simp add: view_of_def initial_view_def take_update_swap list_update_swap)
  show "length (octets (mem (connected block error_block m))) = 0x20000" using m(2) assms(2) by simp
qed

section \<open>The server of the debugger\<close>

definition all_succeed :: "answer list \<Rightarrow> bool" where
  "all_succeed as \<longleftrightarrow> 8 \<le> length as \<and> (\<forall>a \<in> set as. 0 \<le> result a)"

lemma create_server_succeeds:
  assumes "answers w = a1 # a2 # a3 # a4 # a5 # rest" "\<forall>a \<in> set (answers w). 0 \<le> result a"
  shows "\<exists>port w'. create_server p h w = Ret ((result a1, port), w') \<and> answers w' = rest \<and>
    shared w' = shared w \<and> map fst (system_calls w') = map fst (system_calls w) @ [Sys_socket, Sys_setsockopt (result a1),
      Sys_bind (result a1) \<lparr>sin_port = htons h p, sin_addr = [0, 0, 0, 0]\<rparr>, Sys_getsockname (result a1), Sys_listen (result a1) 1]"
  using assms
  by (auto simp: create_server_def call_runs bind_run elementary_runs checked_after sys_run)

text \<open>All the calls of the thread: it serves one connection on one socket.\<close>

definition served_calls :: "host \<Rightarrow> u16 \<Rightarrow> int \<Rightarrow> int \<Rightarrow> syscall list" where
  "served_calls h port s c = [Sys_socket, Sys_setsockopt s, Sys_bind s \<lparr>sin_port = htons h port, sin_addr = [0, 0, 0, 0]\<rparr>,
     Sys_getsockname s, Sys_listen s 1, Sys_accept s, Sys_shutdown c, Sys_close s]"

lemma listener_runs:
  assumes "all_succeed as" "yylex_buffered n junk (gdb_init fuel) k h s = Ret ((), t)"
  shows "\<exists>w. gdb_listener n junk fuel True k port h \<lparr>answers = as, system_calls = [], shared = s\<rparr> = Ret ((), w) \<and>
    shared w = t \<and> map fst (system_calls w) = served_calls h port (result (as ! 0)) (result (as ! 5))"
proof -
  obtain a1 a2 a3 a4 a5 a6 a7 a8 rest where as: "as = [a1, a2, a3, a4, a5, a6, a7, a8] @ rest"
    using assms(1) by (auto simp: all_succeed_def numeral_nat Suc_le_length_iff)
  let ?w = "\<lparr>answers = as, system_calls = [], shared = s\<rparr> :: parser process"
  from create_server_succeeds [of ?w a1 a2 a3 a4 a5 "a6 # a7 # a8 # rest" port h] assms(1)
  obtain q w' where w': "create_server port h ?w = Ret ((result a1, q), w')" "answers w' = a6 # a7 # a8 # rest"
    "shared w' = s" "map fst (system_calls w') = [Sys_socket, Sys_setsockopt (result a1),
      Sys_bind (result a1) \<lparr>sin_port = htons h port, sin_addr = [0, 0, 0, 0]\<rparr>, Sys_getsockname (result a1), Sys_listen (result a1) 1]"
    by (auto simp: as all_succeed_def)
  have "0 \<le> result a6" using assms(1) by (simp add: as all_succeed_def)
  from gdb_listener_run [OF w'(1,2) this, of n junk fuel k t] assms(2) w'(4)
  show ?thesis by (auto simp: as served_calls_def)
qed

section \<open>The two threads\<close>

text \<open>Without interrupts there is one run, so that every state of it leads to its end.\<close>

lemma run_continues:
  assumes "sim_steps fuel h (input, [], p) c" "sim_steps fuel h (input, [], p) ([], [], q)"
  shows "fst (snd c) = [] \<and> sim_steps fuel h c ([], [], q)"
  using assms(1)
proof (induction rule: rtranclp_induct)
  case base
  show ?case using assms(2) by simp
next
  case (step d e)
  obtain i r where d: "d = (i, [], r)" using step.IH by (cases d) auto
  with step.hyps(2) have "i \<noteq> []" by (auto simp: sim_step_end)
  with d step.IH obtain e' where e': "sim_step fuel h (i, [], r) e'" "sim_steps fuel h e' ([], [], q)"
    by (auto elim: converse_rtranclpE)
  from step.hyps(2) obtain act k where "yy_token i = Some (act, k)" unfolding d by (auto elim: sim_step_cases)
  with \<open>i \<noteq> []\<close> e' step.hyps(2) show ?case by (auto simp: d sim_step_token)
qed

text \<open>A token of a run that ends is handled as a whole.\<close>

lemma handled_token:
  assumes "sim_steps fuel h (input, [], p) ([], [], q)" "input \<noteq> []"
  obtains act k f r p' where "yy_token input = Some (act, k)" "token_head (gdb_init fuel) act (take k input) h p = Ret (f, r)"
    "under_mutex f h r = Ret ((), p')"
proof -
  from assms obtain d where "sim_step fuel h (input, [], p) d" by (auto elim: converse_rtranclpE)
  then obtain act k p' where "yy_token input = Some (act, k)" "yy_action (gdb_init fuel) act (take k input) h p = Ret ((), p')"
    by cases
  with that show thesis by (auto simp: token_split mbind_def obind_Ret_iff)
qed

text \<open>A thread that holds the mutex can go on, and one that waits gets it when it is free.\<close>

lemma call_returns: "\<exists>p'. call c h p = Ret ((), p')"
  by (simp add: call_def modify_def)

lemma gdb_can_step:
  assumes "progress fuel h input p c x" "settled h c x" "exclusive c" "sim_steps fuel h (input, [], p) ([], [], q)"
    and "gdb_at c \<noteq> Scanning \<or> gdb_input c \<noteq> []" "\<forall>f. gdb_at c = Wanting f \<longrightarrow> mutex c = None"
  shows "\<exists>d. thread_step cuts fuel h c d"
proof (cases "gdb_at c")
  case Scanning
  with assms(1,5) have i: "gdb_input c = input" "x = p" "input \<noteq> []" by (auto simp: progress_def)
  from handled_token [OF assms(4) i(3)] obtain act k f r p' where t: "yy_token input = Some (act, k)"
    "token_head (gdb_init fuel) act (take k input) h p = Ret (f, r)" "under_mutex f h r = Ret ((), p')" .
  have "machine.more p = machine.more (state c)" using assms(2) i(2) by (auto simp: settled_def split: irq_place.splits)
  from scan_anywhere [OF t(2) this] obtain y where "token_head (gdb_init fuel) act (take k input) h (state c) = Ret (f, y)" by blast
  with t(1) i have "thread_step cuts fuel h c (c\<lparr>gdb_input := drop k (gdb_input c),
      gdb_at := (case f of None \<Rightarrow> Scanning | Some f \<Rightarrow> Wanting f), state := y\<rparr>)"
    by (intro scan [OF Scanning]) simp_all
  then show ?thesis ..
next
  case (Wanting f)
  with assms(6) gdb_lock [OF Wanting, of h] call_returns show ?thesis by blast
next
  case (Serving n g)
  then have "mutex c = Some Gdb_thread" using assms(3) by (simp add: exclusive_def)
  with assms(2) exclusive_calm [OF assms(3)] have x: "x = state c" by simp
  with Serving assms(1) obtain f r s where s: "scanned fuel h input p c f r" "call Mutex_lock h r = Ret ((), s)" "g h (state c) = f h s"
    by (auto simp: progress_def)
  then have "input \<noteq> []" by (simp add: scanned_def)
  from handled_token [OF assms(4) this] obtain act k f' r' p' where t: "yy_token input = Some (act, k)"
    "token_head (gdb_init fuel) act (take k input) h p = Ret (f', r')" "under_mutex f' h r' = Ret ((), p')" .
  with s(1) have "f' = Some f" "r' = r" by (simp_all add: scanned_def)
  with t(3) s(2) obtain p' where "f h s = Ret ((), p')" by (auto simp: mbind_def obind_Ret_iff)
  with s(3) have "g h (state c) = Ret ((), p')" by simp
  from serve [OF Serving this] show ?thesis by (rule exI)
next
  case Leaving
  with gdb_unlock call_returns show ?thesis by blast
qed

lemma irq_can_step:
  assumes "settled h c x" "irq_at c \<noteq> Listening \<or> irq_input c \<noteq> []" "\<forall>i. irq_at c = Requesting i \<longrightarrow> mutex c = None"
    and "RESET \<notin> set (irqs_left c)"
  shows "\<exists>d. thread_step cuts fuel h c d"
proof (cases "irq_at c")
  case Listening
  with assms(2) irq_read [OF Listening, of _ _ cuts fuel h] show ?thesis by (cases "irq_input c") auto
next
  case (Requesting i)
  with assms(3) irq_lock show ?thesis by blast
next
  case (Raising i n m)
  with assms(4) have "arm_exception i h (machine.truncate x) = Ret ((), machine.truncate x)"
    by (auto simp: irqs_left_def arm_exception_def mwhen_def ret_def)
  with Raising assms(1) have "on_machine m h (state c) = Ret ((), machine.extend (machine.truncate x) (machine.more (state c)))"
    by (simp add: settled_def on_machine_def)
  with Raising irq_raise show ?thesis by blast
next
  case Releasing
  with irq_unlock show ?thesis by blast
qed

text \<open>There is no deadlock: two threads that cannot go on are both done.\<close>

lemma stuck_done:
  assumes "exclusive c" "settled h c x" "progress fuel h input p c x" "sim_steps fuel h (input, [], p) ([], [], q)"
    and "RESET \<notin> set (irqs_left c)" "\<nexists>d. thread_step cuts fuel h c d"
  shows "gdb_at c = Scanning \<and> gdb_input c = [] \<and> irq_at c = Listening \<and> irq_input c = []"
proof -
  have g: "gdb_at c = Scanning \<and> gdb_input c = [] \<or> mutex c \<noteq> None \<and> (\<exists>f. gdb_at c = Wanting f)"
    using gdb_can_step [OF assms(3,2,1,4), of cuts] assms(6) by (cases "gdb_at c") auto
  have i: "irq_at c = Listening \<and> irq_input c = [] \<or> mutex c \<noteq> None \<and> (\<exists>irq. irq_at c = Requesting irq)"
    using irq_can_step [OF assms(2) _ _ assms(5), of cuts fuel] assms(6) by (cases "irq_at c") auto
  have "mutex c = None"
  proof (cases "mutex c")
    case (Some t)
    with assms(1) g i show ?thesis by (cases t) (auto simp: exclusive_def)
  qed
  with g i show ?thesis by simp
qed

text \<open>How many steps are left at most.\<close>

definition steps_left :: "nat \<Rightarrow> threads \<Rightarrow> nat" where
  "steps_left cuts c = (4 + cuts) * (length (gdb_input c) + length (irq_input c)) +
     (case gdb_at c of Scanning \<Rightarrow> 0 | Wanting f \<Rightarrow> 3 + cuts | Serving n f \<Rightarrow> 2 + n | Leaving \<Rightarrow> 1) +
     (case irq_at c of Listening \<Rightarrow> 0 | Requesting irq \<Rightarrow> 3 + cuts | Raising irq n m \<Rightarrow> 2 + n | Releasing \<Rightarrow> 1)"

lemma steps_left_step:
  assumes "thread_step cuts fuel h c d"
  shows "steps_left cuts d < steps_left cuts c"
  using assms
proof cases
  case (scan act k r p)
  then have l: "length (gdb_input d) + length (irq_input d) < length (gdb_input c) + length (irq_input c)"
    using token_length by (auto intro!: diff_less)
  then have "Suc (length (gdb_input d) + length (irq_input d)) \<le> length (gdb_input c) + length (irq_input c)"
    by simp
  from mult_le_mono2 [OF this, of "4 + cuts"]
  have "4 + cuts + (4 + cuts) * (length (gdb_input d) + length (irq_input d)) \<le>
      (4 + cuts) * (length (gdb_input c) + length (irq_input c))"
    by (simp only: mult_Suc_right)
  with scan(1,2) l show ?thesis by (cases r) (simp_all add: steps_left_def)
next
  case serve_part
  show ?thesis unfolding serve_part(1) by (simp add: steps_left_def serve_part(2))
next
  case irq_part
  show ?thesis unfolding irq_part(1) by (simp add: steps_left_def irq_part(2))
qed (simp_all add: steps_left_def algebra_simps)

lemma steps_left_steps: "(thread_step cuts fuel h ^^ n) c d \<Longrightarrow> n + steps_left cuts d \<le> steps_left cuts c"
proof (induction n arbitrary: c)
  case (Suc n)
  from relpowp_Suc_D2 [OF Suc.prems] obtain e where "thread_step cuts fuel h c e" "(thread_step cuts fuel h ^^ n) e d" by blast
  with Suc.IH [of e] steps_left_step [of cuts fuel h c e] show ?case by simp
qed simp

text \<open>The thread of the debugger alone, to the end of a dialogue.\<close>

lemma dialogue_steps:
  fixes p :: parser
  assumes "serving p" "calls p = []" "length (octets (mem p)) < 2 ^ 32"
    and "\<forall>c \<in> set cs. admissible (length (octets (mem p))) c" "serve_all h cs (view_of p) = (rs, s')"
  shows "\<exists>q. sim_steps fuel h (concat (map (\<lambda>c. frame (encode h c)) cs), [], p) ([], [], q) \<and>
    view_of q = s' \<and> calls q = concat (map exchange rs)"
proof -
  from dialogue [OF assms(1,4,3), where h = h and fuel = fuel] assms(2,5)
  obtain t where t: "yylex (gdb_init fuel) (concat (map (\<lambda>c. frame (encode h c)) cs)) h p = Ret ((), t)"
    "view_of t = s'" "calls t = concat (map exchange rs)" by auto
  from t(1) obtain q where q: "sim_steps fuel h (concat (map (\<lambda>c. frame (encode h c)) cs), [], p) ([], [], q)"
    "handle_error h q = Ret ((), t)" by (auto simp: yylex_steps)
  from assms(1) obtain n b where "session_inv n b p" by (auto simp: serving_def)
  then have "wf_parser q" using sim_steps_inv [OF q(1), of n b] by (simp add: session_inv_def)
  with q(2) have "t = reported q" using wp_handle_error [of q h "\<lambda>_ t. t = reported q"] by (simp add: wp_iff)
  moreover have "calls t = [] \<or> last (calls t) = Mutex_unlock"
    by (cases rs rule: rev_cases) (simp_all add: t(3) exchange_def)
  ultimately have "t = q" by (auto simp: reported_def split: if_splits)
  with q(1) t(2,3) show ?thesis by blast
qed

section \<open>Properties\<close>

text \<open>
  C3: The program as a whole serves its debugger: for all options that it accepts, if the system calls succeed
  and the debugger sends packets with admissible commands, over a connection that may split and interrupt them at
  will, the process ends with status 0; memory and registers, which started as those of a reset, are
  then those of the abstract server, the debugger has received an acknowledgement and the abstract
  server's reply for each command, and the process has served one connection on the port it was given.
\<close>

theorem simulator_serves:
  assumes "simulator_main can_open options mblock cycles garbage h = Ret (st, m)"
    and "length mblock = 0x20000" "length garbage = 37" "length block = 1024" "length error_block = 1024"
    and "\<forall>c \<in> set cs. admissible 0x20000 c" "serve_all h cs (initial_view mblock garbage) = (rs, s')"
    and "live k" "stream k = concat (map (\<lambda>c. frame (encode h c)) cs)"
    and "int (length (stream k)) < 2 ^ 30 - 1" "4 * length (stream k) + 4 \<le> n"
    and "all_succeed as" "Failed \<notin> set ws" "length (concat (map (\<lambda>r. bytes ''+'' @ frame r) rs)) \<le> successes ws"
  shows "\<exists>w. program can_open options mblock cycles garbage block error_block n junk fuel True k as h = Ret (0, w) \<and>
    view_of (shared w) = s' \<and> deliver ws (calls (shared w)) = Ret (concat (map (\<lambda>r. bytes ''+'' @ frame r) rs)) \<and>
    map fst (system_calls w) = served_calls h (gdb_port st) (result (as ! 0)) (result (as ! 5))"
proof -
  let ?p = "connected block error_block m"
  note m = main_session [OF assms(1-5)]
  from dialogue [OF m(2), where h = h and fuel = fuel and cs = cs] m(3,4) assms(6,7)
  obtain t where t: "yylex (gdb_init fuel) (stream k) h ?p = Ret ((), t)" "view_of t = s'"
    "calls t = concat (map exchange rs)" by (auto simp: assms(9))
  have "yylex_buffered n junk (gdb_init fuel) k h ?p = Ret ((), t)"
    by (simp add: buffered_stream [OF assms(8,10,11)] t(1))
  from listener_runs [OF assms(12) this, of "gdb_port st"] obtain w where
    w: "gdb_listener n junk fuel True k (gdb_port st) h \<lparr>answers = as, system_calls = [], shared = ?p\<rparr> = Ret ((), w)"
    "shared w = t" "map fst (system_calls w) = served_calls h (gdb_port st) (result (as ! 0)) (result (as ! 5))"
    by blast
  have d: "deliver ws (calls t) = Ret (concat (map (\<lambda>r. bytes ''+'' @ frame r) rs))"
    using writes_delivered [of ws "calls t"] assms(13,14) by (simp add: t(3) exchanges_written)
  show ?thesis using assms(1) w t(2) d by (simp add: program_def)
qed

text \<open>A dialogue with a memory of unknown contents.\<close>

definition sample_commands :: "command list" where
  "sample_commands = [Store 0 [1, 35], Assign 3 7, Fetch 0 2]"

lemma sample_served:
  "\<exists>s. serve_all x86_host sample_commands (initial_view mblock (replicate 37 0)) =
      ([bytes ''OK'', bytes ''OK'', hex_octets [1, 35]], s) \<and> take 2 (shown_octets s) = [1, 35] \<and> shown_regs s ! 3 = 7"
  "\<forall>c \<in> set sample_commands. admissible 0x20000 c"
  by (simp_all add: sample_commands_def initial_view_def)

lemma sample_machine: "\<exists>mblock m. length (mblock :: u8 list) = 0x20000 \<and>
    simulator_main (\<lambda>_. True) [] mblock 0 (replicate 37 0) x86_host = Ret (settings_init, m)"
proof -
  obtain mblock :: "u8 list" where "length mblock = 0x20000" using Ex_list_of_length by blast
  with sample_main [OF this length_replicate] show ?thesis by blast
qed

theorem simulator_serves_witness:
  "\<exists>mblock w. length mblock = 0x20000 \<and> program (\<lambda>_. True) [] mblock 0 (replicate 37 0) (replicate 1024 0) (replicate 1024 0)
      500 (\<lambda>i. 0) 0 True [Chunk (frame (encode x86_host (Store 0 [1, 35]))), Interruption,
        Chunk (frame (encode x86_host (Assign 3 7)) @ frame (encode x86_host (Fetch 0 2)))]
      (map (\<lambda>i. answered i []) [3, 0, 0, 0, 0, 4, 0, 0]) x86_host = Ret (0, w) \<and>
    take 2 (shown_octets (view_of (shared w))) = [1, 35] \<and> shown_regs (view_of (shared w)) ! 3 = 7 \<and>
    deliver (replicate 40 (Wrote 0)) (calls (shared w)) = Ret (bytes ''+$OK#9a+$OK#9a+$0123#c6'')"
proof -
  let ?rs = "[bytes ''OK'', bytes ''OK'', hex_octets [1, 35]]"
  let ?k = "[Chunk (frame (encode x86_host (Store 0 [1, 35]))), Interruption,
    Chunk (frame (encode x86_host (Assign 3 7)) @ frame (encode x86_host (Fetch 0 2)))]"
  let ?as = "map (\<lambda>i. answered i []) [3, 0, 0, 0, 0, 4, 0, 0]"
  obtain mblock m where m: "length mblock = 0x20000"
    "simulator_main (\<lambda>_. True) [] mblock 0 (replicate 37 0) x86_host = Ret (settings_init, m)"
    using sample_machine by blast
  obtain s' where s: "serve_all x86_host sample_commands (initial_view mblock (replicate 37 0)) = (?rs, s')"
    "take 2 (shown_octets s') = [1, 35]" "shown_regs s' ! 3 = 7" using sample_served(1) by blast
  have r: "concat (map (\<lambda>r. bytes ''+'' @ frame r) ?rs) = bytes ''+$OK#9a+$OK#9a+$0123#c6''"
    by (simp add: frame_def hex2_def hex_char_def)
  have w: "Failed \<notin> set (replicate 40 (Wrote 0))"
    "length (concat (map (\<lambda>r. bytes ''+'' @ frame r) ?rs)) \<le> successes (replicate 40 (Wrote 0))"
    by (simp_all add: successes_def)
  have k: "live ?k" "stream ?k = concat (map (\<lambda>c. frame (encode x86_host c)) sample_commands)"
    "int (length (stream ?k)) < 2 ^ 30 - 1" "4 * length (stream ?k) + 4 \<le> 500"
    by (simp_all add: sample_commands_def length_frame_nonempty range_text_def length_put_hex escape_def escape_byte_def)
  have a: "all_succeed ?as" by (simp add: all_succeed_def)
  from simulator_serves [OF m(2,1) length_replicate length_replicate length_replicate sample_served(2) s(1) k a w]
  have "\<exists>w. program (\<lambda>_. True) [] mblock 0 (replicate 37 0) (replicate 1024 0) (replicate 1024 0)
      500 (\<lambda>i. 0) 0 True ?k ?as x86_host = Ret (0, w) \<and> view_of (shared w) = s' \<and>
      deliver (replicate 40 (Wrote 0)) (calls (shared w)) = Ret (concat (map (\<lambda>r. bytes ''+'' @ frame r) ?rs))"
    by blast
  with m(1) s(2,3) show ?thesis unfolding r by metis
qed

text \<open>
  C4: However the threads of the debugger and of the interrupts are scheduled, while the
  debugger sends packets with admissible commands and interrupts other than a reset arrive, and
  wherever the calls under the mutex are cut into parts: there is no deadlock, the threads make no more steps
  for each character and each interrupt than four and the number of cuts a call may have, and where
  they stop everything has been read, memory and registers are those of the abstract server, and its
  replies are the ones that were sent, in their order.
\<close>

theorem every_schedule:
  assumes "simulator_main can_open options mblock cycles garbage h = Ret (st, m)"
    and "length mblock = 0x20000" "length garbage = 37" "length block = 1024" "length error_block = 1024"
    and "\<forall>c \<in> set cs. admissible 0x20000 c" "serve_all h cs (initial_view mblock garbage) = (rs, s')"
    and "input = concat (map (\<lambda>c. frame (encode h c)) cs)" "RESET \<notin> set irqs"
    and "(thread_step cuts fuel h ^^ n) (started input irqs (connected block error_block m)) c"
  shows "n \<le> (4 + cuts) * (length input + length irqs) \<and> ((\<exists>d. thread_step cuts fuel h c d) \<or>
    gdb_at c = Scanning \<and> gdb_input c = [] \<and> irq_at c = Listening \<and> irq_input c = [] \<and>
    view_of (state c) = s' \<and> calls (state c) = concat (map exchange rs))"
proof
  let ?p = "connected block error_block m"
  show "n \<le> (4 + cuts) * (length input + length irqs)"
    using steps_left_steps [OF assms(10)] by (simp add: steps_left_def)
  from main_session [OF assms(1-5)] assms(6,7) dialogue_steps [of ?p cs h rs s' fuel]
  obtain q where q: "sim_steps fuel h (input, [], ?p) ([], [], q)" "view_of q = s'" "calls q = concat (map exchange rs)"
    by (auto simp: assms(8))
  from follows_steps [OF relpowp_imp_rtranclp [OF assms(10)]] obtain i p y where x: "exclusive c"
    and s: "sim_steps fuel h (input, irqs, ?p) (i, irqs_left c, p)" and y: "settled h c y" and g: "progress fuel h i p c y"
    by (auto simp: follows_def)
  from steps_without_interrupts [OF s assms(9)] have w: "sim_steps fuel h (input, [], ?p) (i, [], p)"
    and r: "RESET \<notin> set (irqs_left c)" using assms(9) by auto
  from run_continues [OF w q(1)] have e: "sim_steps fuel h (i, [], p) ([], [], q)" by simp
  have "gdb_at c = Scanning \<and> gdb_input c = [] \<and> irq_at c = Listening \<and> irq_input c = [] \<and>
      view_of (state c) = s' \<and> calls (state c) = concat (map exchange rs)" if n: "\<nexists>d. thread_step cuts fuel h c d"
  proof -
    from stuck_done [OF x y g e r n] have d: "gdb_at c = Scanning" "gdb_input c = []" "irq_at c = Listening" "irq_input c = []"
      by simp_all
    with g y have "i = []" "p = state c" by (simp_all add: progress_def settled_def)
    with e have "state c = q" by (auto elim: converse_rtranclpE simp: sim_step_end)
    with d q show ?thesis by simp
  qed
  then show "(\<exists>d. thread_step cuts fuel h c d) \<or> gdb_at c = Scanning \<and> gdb_input c = [] \<and> irq_at c = Listening \<and>
      irq_input c = [] \<and> view_of (state c) = s' \<and> calls (state c) = concat (map exchange rs)" by blast
qed

theorem every_schedule_witness:
  "\<exists>mblock m n c. simulator_main (\<lambda>_. True) [] mblock 0 (replicate 37 0) x86_host = Ret (settings_init, m) \<and>
     (thread_step 2 0 x86_host ^^ n) (started (concat (map (\<lambda>c. frame (encode x86_host c)) sample_commands)) [INTERRUPT]
       (connected (replicate 1024 0) (replicate 1024 0) m)) c \<and> (\<nexists>d. thread_step 2 0 x86_host c d) \<and>
     take 2 (shown_octets (view_of (state c))) = [1, 35]"
proof -
  obtain mblock m where m: "length mblock = 0x20000"
    "simulator_main (\<lambda>_. True) [] mblock 0 (replicate 37 0) x86_host = Ret (settings_init, m)"
    using sample_machine by blast
  obtain rs s' where s: "serve_all x86_host sample_commands (initial_view mblock (replicate 37 0)) = (rs, s')"
    "take 2 (shown_octets s') = [1, 35]" using sample_served(1) by blast
  let ?p = "connected (replicate 1024 0) (replicate 1024 0) m :: parser"
  let ?input = "concat (map (\<lambda>c. frame (encode x86_host c)) sample_commands)"
  from main_session [OF m(2,1) length_replicate length_replicate length_replicate] sample_served(2) s(1)
    dialogue_steps [of ?p sample_commands x86_host rs s' 0]
  obtain q where q: "sim_steps 0 x86_host (?input, [], ?p) ([], [], q)" by auto
  have "sim_step 0 x86_host (?input, [INTERRUPT], ?p) (?input, [], ?p)"
    by (rule irq_byte) (simp add: irq_other)
  from actions_steps [OF converse_rtranclp_into_rtranclp [of "sim_step 0 x86_host", OF this q]]
  obtain n where n: "(thread_step 2 0 x86_host ^^ n) (started ?input [INTERRUPT] ?p) (started [] [] q)"
    by (auto dest: rtranclp_imp_relpowp)
  have e: "\<nexists>d. thread_step 2 0 x86_host (started [] [] q) d" by (auto elim: thread_step.cases)
  from every_schedule [OF m(2,1) length_replicate length_replicate length_replicate sample_served(2) s(1) refl _ n]
  have "view_of q = s'" using e by simp
  with m(2) n e s(2) show ?thesis by (intro exI conjI) (assumption | simp)+
qed

end
