(* ===== verification/Buffer_Stack.thy ===== *)
theory Buffer_Stack
  imports Scan_Buffer Simulator
begin

unbundle bit_operations_syntax

text \<open>
  The functions flex generates around the scanner: the buffers and their stack, the scanning of strings
  in memory, the accessors, and the creation and the destruction of a scanner. They work on an
  explicit heap, in which a block is allocated and released: an access to a block that is not
  allocated and its release are undefined. \<open>Scan_Buffer\<close> has the same buffer without the heap.
\<close>

section \<open>The heap\<close>

text \<open>
  An address is a number, 0 is the null pointer; a pointer to a character is the address of its block
  and an offset. Files are numbers too, of which 0 is none, 1 is \<open>stdin\<close> and 2 is \<open>stdout\<close>.
\<close>

type_synonym address = nat
type_synonym char_ptr = "address \<times> nat"

abbreviation null_char :: char_ptr where "null_char \<equiv> (0, 0)"

text \<open>\<open>struct yy_buffer_state\<close>\<close>

record buffer_state =
  input_file :: nat
  ch_buf :: char_ptr
  buf_pos :: char_ptr
  buf_size :: int
  chars_read :: int
  is_our_buffer :: int
  is_interactive :: int
  at_bol :: int
  bs_lineno :: int
  bs_column :: int
  fill_buffer :: int
  buffer_status :: nat

datatype block = Characters "u8 list" | Buffer buffer_state | Pointers "address list" | Globals | Server_data

text \<open>
  The heap, with what \<open>malloc\<close> does: the n-th allocation is granted or refused, and a block it returns holds
  anything. Then the fields of \<open>struct yyguts_t\<close>, at the address \<open>yyscanner\<close>.
\<close>

record store =
  blocks :: "address \<rightharpoonup> block"
  limit :: address
  granted :: "address \<Rightarrow> bool"
  garbage_char :: "nat \<Rightarrow> u8"
  garbage_buffer :: buffer_state
  yyscanner :: address
  yyextra :: nat
  yyin :: nat
  yyout :: nat
  yy_buffer_stack_top :: nat
  yy_buffer_stack_max :: nat
  yy_buffer_stack :: address
  hold_char :: u8
  n_chars :: int
  leng :: int
  c_buf_p :: char_ptr
  scanner_init :: int
  start :: int
  yy_did_buffer_switch_on_eof :: int
  yy_start_stack_ptr :: int
  yy_start_stack_depth :: int
  yy_start_stack :: address
  yy_flex_debug :: int
  yytext :: char_ptr

type_synonym 'a heap_prog = "(store, 'a) prog"

definition block_at :: "address \<Rightarrow> block heap_prog" where
  "block_at a = (\<lambda>h s. case blocks s a of Some b \<Rightarrow> Ret (b, s) | None \<Rightarrow> Undefined Out_of_bounds)"

definition put_block :: "address \<Rightarrow> block \<Rightarrow> unit heap_prog" where
  "put_block a b = modify (\<lambda>s. s\<lparr>blocks := (blocks s)(a \<mapsto> b)\<rparr>)"

text \<open>\<open>malloc\<close>, for a block that is to hold \<open>b\<close>.\<close>

definition malloc :: "(store \<Rightarrow> block) \<Rightarrow> address heap_prog" where
  "malloc b = (\<lambda>h s. if granted s (limit s)
     then Ret (limit s, s\<lparr>blocks := (blocks s)(limit s \<mapsto> b s), limit := limit s + 1\<rparr>)
     else Ret (0, s\<lparr>limit := limit s + 1\<rparr>))"

definition yyfree :: "address \<Rightarrow> unit heap_prog" where
  "yyfree a = (if a = 0 then ret ()
     else mseq (block_at a) (modify (\<lambda>s. s\<lparr>blocks := (blocks s)(a := None)\<rparr>)))"

definition buffer_at :: "address \<Rightarrow> buffer_state heap_prog" where
  "buffer_at a = mbind (block_at a) (\<lambda>b. case b of Buffer r \<Rightarrow> ret r | _ \<Rightarrow> undefined_as Out_of_bounds)"

definition set_buffer :: "address \<Rightarrow> (buffer_state \<Rightarrow> buffer_state) \<Rightarrow> unit heap_prog" where
  "set_buffer a f = mbind (buffer_at a) (\<lambda>r. put_block a (Buffer (f r)))"

definition chars_at :: "address \<Rightarrow> u8 list heap_prog" where
  "chars_at a = mbind (block_at a) (\<lambda>b. case b of Characters cs \<Rightarrow> ret cs | _ \<Rightarrow> undefined_as Out_of_bounds)"

definition char_at :: "char_ptr \<Rightarrow> u8 heap_prog" where
  "char_at p = mbind (chars_at (fst p)) (\<lambda>cs. lift_o (byte_at cs (snd p)))"

definition put_char_at :: "char_ptr \<Rightarrow> u8 \<Rightarrow> unit heap_prog" where
  "put_char_at p c = mbind (chars_at (fst p)) (\<lambda>cs.
     if snd p < length cs then put_block (fst p) (Characters (cs[snd p := c])) else undefined_as Out_of_bounds)"

definition pointers_at :: "address \<Rightarrow> address list heap_prog" where
  "pointers_at a = mbind (block_at a) (\<lambda>b. case b of Pointers ps \<Rightarrow> ret ps | _ \<Rightarrow> undefined_as Out_of_bounds)"

definition yy_fatal_error :: "'a heap_prog" where
  "yy_fatal_error = exit_with 2"

text \<open>\<open>YY_CURRENT_BUFFER_LVALUE\<close>, as a value and as the target of an assignment, and \<open>YY_CURRENT_BUFFER\<close>.\<close>

definition YY_CURRENT_BUFFER_LVALUE :: "address heap_prog" where
  "YY_CURRENT_BUFFER_LVALUE = mbind (gets yy_buffer_stack) (\<lambda>a. mbind (gets yy_buffer_stack_top) (\<lambda>i.
     mbind (pointers_at a) (\<lambda>ps. if i < length ps then ret (ps ! i) else undefined_as Out_of_bounds)))"

definition put_current :: "address \<Rightarrow> unit heap_prog" where
  "put_current b = mbind (gets yy_buffer_stack) (\<lambda>a. mbind (gets yy_buffer_stack_top) (\<lambda>i.
     mbind (pointers_at a) (\<lambda>ps. if i < length ps then put_block a (Pointers (ps[i := b])) else undefined_as Out_of_bounds)))"

definition YY_CURRENT_BUFFER :: "address heap_prog" where
  "YY_CURRENT_BUFFER = mbind (gets yy_buffer_stack) (\<lambda>a. if a = 0 then ret 0 else YY_CURRENT_BUFFER_LVALUE)"

section \<open>Buffers\<close>

definition heap_load_buffer_state :: "unit heap_prog" where
  "heap_load_buffer_state =
     mbind YY_CURRENT_BUFFER_LVALUE (\<lambda>b. mbind (buffer_at b) (\<lambda>r.
     mseq (modify (\<lambda>s. s\<lparr>n_chars := chars_read r, yytext := buf_pos r, c_buf_p := buf_pos r, yyin := input_file r\<rparr>))
     (mbind (char_at (buf_pos r)) (\<lambda>c. modify (\<lambda>s. s\<lparr>hold_char := c\<rparr>)))))"

definition next_char :: "char_ptr \<Rightarrow> nat \<Rightarrow> char_ptr" where
  "next_char p n = (fst p, snd p + n)"

definition heap_flush_buffer :: "address \<Rightarrow> unit heap_prog" where
  "heap_flush_buffer b =
     (if b = 0 then ret ()
      else
        mseq (set_buffer b (\<lambda>r. r\<lparr>chars_read := 0\<rparr>))
        (mbind (buffer_at b) (\<lambda>r.
        mseq (put_char_at (ch_buf r) 0)
        (mseq (put_char_at (next_char (ch_buf r) 1) 0)
        (mseq (set_buffer b (\<lambda>r. r\<lparr>buf_pos := ch_buf r, at_bol := 1, buffer_status := YY_BUFFER_NEW\<rparr>))
        (mbind YY_CURRENT_BUFFER (\<lambda>c. mwhen (b = c) heap_load_buffer_state)))))))"

definition heap_init_buffer :: "address \<Rightarrow> nat \<Rightarrow> unit heap_prog" where
  "heap_init_buffer b file =
     mseq (heap_flush_buffer b)
     (mseq (set_buffer b (\<lambda>r. r\<lparr>input_file := file, fill_buffer := 1\<rparr>))
     (mbind YY_CURRENT_BUFFER (\<lambda>c.
     mseq (mwhen (b \<noteq> c) (set_buffer b (\<lambda>r. r\<lparr>bs_lineno := 1, bs_column := 0\<rparr>)))
     (set_buffer b (\<lambda>r. r\<lparr>is_interactive := 1\<rparr>)))))"

text \<open>A size that is no \<open>int\<close> overflows; a negative one is, as \<open>size_t\<close>, above what \<open>malloc\<close> grants.\<close>

definition heap_create_buffer :: "nat \<Rightarrow> int \<Rightarrow> address heap_prog" where
  "heap_create_buffer file sz =
     mbind (malloc (\<lambda>s. Buffer (garbage_buffer s))) (\<lambda>b.
     if b = 0 then yy_fatal_error
     else
       mseq (set_buffer b (\<lambda>r. r\<lparr>buf_size := sz\<rparr>))
       (if 2 ^ 31 \<le> sz + 2 then undefined_as Value_range
        else if sz + 2 < 0 then yy_fatal_error
        else
          mbind (malloc (\<lambda>s. Characters (yyalloc (garbage_char s) (nat (sz + 2))))) (\<lambda>a.
          mseq (set_buffer b (\<lambda>r. r\<lparr>ch_buf := (a, 0)\<rparr>))
          (if a = 0 then yy_fatal_error
           else
             mseq (set_buffer b (\<lambda>r. r\<lparr>is_our_buffer := 1\<rparr>))
             (mseq (heap_init_buffer b file) (ret b))))))"

text \<open>\<open>free\<close> takes the address of a block, no pointer into it.\<close>

definition yyfree_chars :: "char_ptr \<Rightarrow> unit heap_prog" where
  "yyfree_chars p = (if snd p = 0 then yyfree (fst p) else undefined_as Out_of_bounds)"

definition yy_delete_buffer :: "address \<Rightarrow> unit heap_prog" where
  "yy_delete_buffer b =
     (if b = 0 then ret ()
      else
        mbind YY_CURRENT_BUFFER (\<lambda>c.
        mseq (mwhen (b = c) (put_current 0))
        (mbind (buffer_at b) (\<lambda>r.
        mseq (mwhen (is_our_buffer r \<noteq> 0) (yyfree_chars (ch_buf r)))
        (yyfree b)))))"

section \<open>The stack\<close>

text \<open>The memory is set to zero as soon as it is allocated; \<open>realloc\<close> moves the block.\<close>

definition yyensure_buffer_stack :: "unit heap_prog" where
  "yyensure_buffer_stack =
     mbind (gets id) (\<lambda>s.
     if yy_buffer_stack s = 0 then
       mbind (malloc (\<lambda>s. Pointers [0])) (\<lambda>a.
       mseq (modify (\<lambda>s. s\<lparr>yy_buffer_stack := a\<rparr>))
       (if a = 0 then yy_fatal_error
        else modify (\<lambda>s. s\<lparr>yy_buffer_stack_max := 1, yy_buffer_stack_top := 0\<rparr>)))
     else if 0 < yy_buffer_stack_max s \<and> yy_buffer_stack_max s - 1 \<le> yy_buffer_stack_top s then
       mbind (pointers_at (yy_buffer_stack s)) (\<lambda>ps.
       mbind (malloc (\<lambda>s. Pointers (take (yy_buffer_stack_max s) ps @ replicate 8 0))) (\<lambda>a.
       if a = 0 then yy_fatal_error
       else
         mseq (yyfree (yy_buffer_stack s))
         (modify (\<lambda>s. s\<lparr>yy_buffer_stack := a, yy_buffer_stack_max := yy_buffer_stack_max s + 8\<rparr>))))
     else ret ())"

definition heap_restart :: "nat \<Rightarrow> unit heap_prog" where
  "heap_restart file =
     mbind YY_CURRENT_BUFFER (\<lambda>c.
     mseq (mwhen (c = 0)
       (mseq yyensure_buffer_stack
       (mbind (gets yyin) (\<lambda>f. mbind (heap_create_buffer f YY_BUF_SIZE) put_current))))
     (mbind YY_CURRENT_BUFFER (\<lambda>c.
     mseq (heap_init_buffer c file) heap_load_buffer_state)))"

text \<open>Where the scanner is in the current buffer \<open>c\<close> is written back to it.\<close>

definition flush_information :: "address \<Rightarrow> unit heap_prog" where
  "flush_information c =
     mbind (gets id) (\<lambda>s.
     mseq (put_char_at (c_buf_p s) (hold_char s))
     (set_buffer c (\<lambda>r. r\<lparr>buf_pos := c_buf_p s, chars_read := n_chars s\<rparr>)))"

definition yy_switch_to_buffer :: "address \<Rightarrow> unit heap_prog" where
  "yy_switch_to_buffer new_buffer =
     mseq yyensure_buffer_stack
     (mbind YY_CURRENT_BUFFER (\<lambda>c.
     if c = new_buffer then ret ()
     else
       mseq (mwhen (c \<noteq> 0) (flush_information c))
       (mseq (put_current new_buffer)
       (mseq heap_load_buffer_state
       (modify (\<lambda>s. s\<lparr>yy_did_buffer_switch_on_eof := 1\<rparr>))))))"

definition yypush_buffer_state :: "address \<Rightarrow> unit heap_prog" where
  "yypush_buffer_state new_buffer =
     (if new_buffer = 0 then ret ()
      else
        mseq yyensure_buffer_stack
        (mbind YY_CURRENT_BUFFER (\<lambda>c.
        mseq (mwhen (c \<noteq> 0) (flush_information c))
        (mseq (mwhen (c \<noteq> 0) (modify (\<lambda>s. s\<lparr>yy_buffer_stack_top := yy_buffer_stack_top s + 1\<rparr>)))
        (mseq (put_current new_buffer)
        (mseq heap_load_buffer_state
        (modify (\<lambda>s. s\<lparr>yy_did_buffer_switch_on_eof := 1\<rparr>))))))))"

definition yypop_buffer_state :: "unit heap_prog" where
  "yypop_buffer_state =
     mbind YY_CURRENT_BUFFER (\<lambda>c.
     if c = 0 then ret ()
     else
       mseq (yy_delete_buffer c)
       (mseq (put_current 0)
       (mseq (modify (\<lambda>s. s\<lparr>yy_buffer_stack_top := yy_buffer_stack_top s - 1\<rparr>))
       (mbind YY_CURRENT_BUFFER (\<lambda>c.
       mwhen (c \<noteq> 0)
         (mseq heap_load_buffer_state (modify (\<lambda>s. s\<lparr>yy_did_buffer_switch_on_eof := 1\<rparr>))))))))"

section \<open>Scanning memory\<close>

definition yy_scan_buffer :: "char_ptr \<Rightarrow> nat \<Rightarrow> address heap_prog" where
  "yy_scan_buffer base sz =
     (if sz < 2 then ret 0
      else
        mbind (char_at (next_char base (sz - 2))) (\<lambda>c.
        if c \<noteq> 0 then ret 0
        else
          mbind (char_at (next_char base (sz - 1))) (\<lambda>d.
          if d \<noteq> 0 then ret 0
          else
            mbind (malloc (\<lambda>s. Buffer (garbage_buffer s))) (\<lambda>b.
            if b = 0 then yy_fatal_error
            else
              mseq (set_buffer b (\<lambda>r. r\<lparr>buf_size := signed_take_bit 31 (int sz - 2), ch_buf := base, buf_pos := base,
                is_our_buffer := 0, input_file := 0, chars_read := signed_take_bit 31 (int sz - 2), is_interactive := 0,
                at_bol := 1, fill_buffer := 0, buffer_status := YY_BUFFER_NEW\<rparr>))
              (mseq (yy_switch_to_buffer b) (ret b))))))"

text \<open>A negative length makes the two zeros land in front of the block.\<close>

definition yy_scan_bytes :: "u8 list \<Rightarrow> int \<Rightarrow> address heap_prog" where
  "yy_scan_bytes yybytes len =
     (if 2 ^ 31 \<le> len + 2 then undefined_as Value_range
      else
        mbind (malloc (\<lambda>s. Characters (yyalloc (garbage_char s) (nat (len + 2))))) (\<lambda>buf.
        if buf = 0 then yy_fatal_error
        else if len < 0 \<or> int (length yybytes) < len then undefined_as Out_of_bounds
        else
          mseq (put_block buf (Characters (take (nat len) yybytes @ [0, 0])))
          (mbind (yy_scan_buffer (buf, 0) (nat (len + 2))) (\<lambda>b.
          if b = 0 then yy_fatal_error
          else mseq (set_buffer b (\<lambda>r. r\<lparr>is_our_buffer := 1\<rparr>)) (ret b)))))"

definition yy_scan_string :: "u8 list \<Rightarrow> address heap_prog" where
  "yy_scan_string yystr =
     mbind (lift_o (cstring yystr)) (\<lambda>s. yy_scan_bytes yystr (signed_take_bit 31 (int (length s))))"

section \<open>Accessors\<close>

definition yyget_extra :: "nat heap_prog" where "yyget_extra = gets yyextra"
definition yyget_in :: "nat heap_prog" where "yyget_in = gets yyin"
definition yyget_out :: "nat heap_prog" where "yyget_out = gets yyout"
definition yyget_leng :: "int heap_prog" where "yyget_leng = gets leng"
definition yyget_text :: "char_ptr heap_prog" where "yyget_text = gets yytext"
definition yyget_debug :: "int heap_prog" where "yyget_debug = gets yy_flex_debug"

definition yyget_lineno :: "int heap_prog" where
  "yyget_lineno = mbind YY_CURRENT_BUFFER (\<lambda>c. if c = 0 then ret 0
     else mbind YY_CURRENT_BUFFER_LVALUE (\<lambda>b. mbind (buffer_at b) (\<lambda>r. ret (bs_lineno r))))"

definition yyget_column :: "int heap_prog" where
  "yyget_column = mbind YY_CURRENT_BUFFER (\<lambda>c. if c = 0 then ret 0
     else mbind YY_CURRENT_BUFFER_LVALUE (\<lambda>b. mbind (buffer_at b) (\<lambda>r. ret (bs_column r))))"

definition yyset_extra :: "nat \<Rightarrow> unit heap_prog" where
  "yyset_extra user_defined = modify (\<lambda>s. s\<lparr>yyextra := user_defined\<rparr>)"

definition yyset_in :: "nat \<Rightarrow> unit heap_prog" where
  "yyset_in in_str = modify (\<lambda>s. s\<lparr>yyin := in_str\<rparr>)"

definition yyset_out :: "nat \<Rightarrow> unit heap_prog" where
  "yyset_out out_str = modify (\<lambda>s. s\<lparr>yyout := out_str\<rparr>)"

definition yyset_debug :: "int \<Rightarrow> unit heap_prog" where
  "yyset_debug bdebug = modify (\<lambda>s. s\<lparr>yy_flex_debug := bdebug\<rparr>)"

definition yyset_lineno :: "int \<Rightarrow> unit heap_prog" where
  "yyset_lineno line_number = mbind YY_CURRENT_BUFFER (\<lambda>c. if c = 0 then yy_fatal_error
     else mbind YY_CURRENT_BUFFER_LVALUE (\<lambda>b. set_buffer b (\<lambda>r. r\<lparr>bs_lineno := line_number\<rparr>)))"

definition yyset_column :: "int \<Rightarrow> unit heap_prog" where
  "yyset_column column_no = mbind YY_CURRENT_BUFFER (\<lambda>c. if c = 0 then yy_fatal_error
     else mbind YY_CURRENT_BUFFER_LVALUE (\<lambda>b. set_buffer b (\<lambda>r. r\<lparr>bs_column := column_no\<rparr>)))"

section \<open>Creating and destroying a scanner\<close>

definition yy_init_globals :: "unit heap_prog" where
  "yy_init_globals = modify (\<lambda>s. s\<lparr>yy_buffer_stack := 0, yy_buffer_stack_top := 0, yy_buffer_stack_max := 0,
     c_buf_p := null_char, scanner_init := 0, start := 0, yy_start_stack_ptr := 0, yy_start_stack_depth := 0,
     yy_start_stack := 0, yyin := 0, yyout := 0\<rparr>)"

text \<open>\<open>memset\<close> of the whole structure.\<close>

definition clear_globals :: "unit heap_prog" where
  "clear_globals = modify (\<lambda>s. s\<lparr>yyextra := 0, yyin := 0, yyout := 0, yy_buffer_stack_top := 0, yy_buffer_stack_max := 0,
     yy_buffer_stack := 0, hold_char := 0, n_chars := 0, leng := 0, c_buf_p := null_char, scanner_init := 0, start := 0,
     yy_did_buffer_switch_on_eof := 0, yy_start_stack_ptr := 0, yy_start_stack_depth := 0, yy_start_stack := 0,
     yy_flex_debug := 0, yytext := null_char\<rparr>)"

text \<open>\<open>given\<close> says whether the pointer the address is to be stored at is not null.\<close>

definition yylex_init :: "bool \<Rightarrow> int heap_prog" where
  "yylex_init given =
     (if \<not> given then ret 1
      else
        mbind (malloc (\<lambda>s. Globals)) (\<lambda>a.
        mseq (modify (\<lambda>s. s\<lparr>yyscanner := a\<rparr>))
        (if a = 0 then ret 1 else mseq clear_globals (mseq yy_init_globals (ret 0)))))"

definition heap_init_extra :: "nat \<Rightarrow> bool \<Rightarrow> int heap_prog" where
  "heap_init_extra user_defined given =
     (if \<not> given then ret 1
      else
        mbind (malloc (\<lambda>s. Globals)) (\<lambda>a.
        mseq (modify (\<lambda>s. s\<lparr>yyscanner := a\<rparr>))
        (if a = 0 then ret 1
         else mseq clear_globals (mseq (yyset_extra user_defined) (mseq yy_init_globals (ret 0))))))"

text \<open>The beginning of \<open>yylex\<close>.\<close>

definition heap_enter :: "unit heap_prog" where
  "heap_enter =
     mbind (gets scanner_init) (\<lambda>i. mwhen (i = 0)
       (mseq (modify (\<lambda>s. s\<lparr>scanner_init := 1, start := if start s = 0 then 1 else start s,
          yyin := if yyin s = 0 then 1 else yyin s, yyout := if yyout s = 0 then 2 else yyout s\<rparr>))
       (mbind YY_CURRENT_BUFFER (\<lambda>c.
       mseq (mwhen (c = 0)
         (mseq yyensure_buffer_stack
         (mbind (gets yyin) (\<lambda>f. mbind (heap_create_buffer f YY_BUF_SIZE) put_current))))
       heap_load_buffer_state))))"

text \<open>One turn of the loop over the stack, and the loop.\<close>

definition destroy_turn :: "address \<Rightarrow> unit heap_prog" where
  "destroy_turn c = mseq (yy_delete_buffer c) (mseq (put_current 0) yypop_buffer_state)"

lemma block_at_run: "block_at a h s = Ret (b, s') \<longleftrightarrow> blocks s a = Some b \<and> s' = s"
  by (auto simp: block_at_def split: option.splits)

lemma pointers_at_run: "pointers_at a h s = Ret (ps, s') \<longleftrightarrow> blocks s a = Some (Pointers ps) \<and> s' = s"
  by (cases "blocks s a") (auto simp: pointers_at_def mbind_def block_at_def ret_def undefined_as_def split: block.splits)

lemma current_run: "YY_CURRENT_BUFFER h s = Ret (c, s') \<longleftrightarrow> s' = s \<and> (if yy_buffer_stack s = 0 then c = 0
    else \<exists>ps. blocks s (yy_buffer_stack s) = Some (Pointers ps) \<and> yy_buffer_stack_top s < length ps \<and> c = ps ! yy_buffer_stack_top s)"
  by (auto simp: YY_CURRENT_BUFFER_def YY_CURRENT_BUFFER_LVALUE_def mbind_def gets_def obind_Ret_iff pointers_at_run
      ret_def undefined_as_def)

lemma put_current_run: "put_current b h s = Ret (u, s') \<longleftrightarrow> (\<exists>ps. blocks s (yy_buffer_stack s) = Some (Pointers ps) \<and>
    yy_buffer_stack_top s < length ps \<and>
    s' = s\<lparr>blocks := (blocks s)(yy_buffer_stack s \<mapsto> Pointers (ps[yy_buffer_stack_top s := b]))\<rparr>)"
  by (auto simp: put_current_def mbind_def gets_def obind_Ret_iff pointers_at_run put_block_def modify_def
      ret_def undefined_as_def split: if_splits)

lemma pop_empty: "YY_CURRENT_BUFFER h s = Ret (0, s) \<Longrightarrow> yypop_buffer_state h s = Ret ((), s)"
  by (simp add: yypop_buffer_state_def mbind_def ret_def)

lemma turn_clears:
  assumes "destroy_turn c h s = Ret (u, s')"
  shows "YY_CURRENT_BUFFER h s' = Ret (0, s')"
proof -
  from assms obtain t t' where t: "put_current 0 h t = Ret ((), t')" "yypop_buffer_state h t' = Ret ((), s')"
    by (auto simp: destroy_turn_def mbind_def obind_Ret_iff)
  from t(1) have "YY_CURRENT_BUFFER h t' = Ret (0, t')"
    by (auto simp: put_current_run current_run)
  with pop_empty [OF this] t(2) show ?thesis by simp
qed

function destroy_loop :: "host \<Rightarrow> store \<Rightarrow> (unit \<times> store) outcome" where
  "destroy_loop h s =
     obind (YY_CURRENT_BUFFER h s) (\<lambda>(c, s).
     if c = 0 then Ret ((), s) else obind (destroy_turn c h s) (\<lambda>(_, s). destroy_loop h s))"
  by pat_completeness auto

termination
proof (relation "measure (\<lambda>(h, s). if YY_CURRENT_BUFFER h s = Ret (0, s) then 0 else 1)")
qed (auto simp: current_run dest!: turn_clears split: if_splits)

declare destroy_loop.simps [simp del]

definition yylex_destroy :: "int heap_prog" where
  "yylex_destroy =
     mseq destroy_loop
     (mbind (gets yy_buffer_stack) (\<lambda>a.
     mseq (yyfree a)
     (mseq (modify (\<lambda>s. s\<lparr>yy_buffer_stack := 0\<rparr>))
     (mbind (gets yy_start_stack) (\<lambda>a.
     mseq (yyfree a)
     (mseq (modify (\<lambda>s. s\<lparr>yy_start_stack := 0\<rparr>))
     (mseq yy_init_globals
     (mbind (gets yyscanner) (\<lambda>a.
     mseq (yyfree a) (ret 0))))))))))"

section \<open>Runs\<close>

lemma wp_block_at [wp_simps]: "wp (block_at a) h Q s \<longleftrightarrow> (\<exists>b. blocks s a = Some b \<and> Q b s)"
  by (auto simp: wp_iff block_at_run)

lemma wp_put_block [wp_simps]: "wp (put_block a b) h Q s \<longleftrightarrow> Q () (s\<lparr>blocks := (blocks s)(a \<mapsto> b)\<rparr>)"
  by (simp add: put_block_def wp_modify)

lemma wp_pointers_at [wp_simps]: "wp (pointers_at a) h Q s \<longleftrightarrow> (\<exists>ps. blocks s a = Some (Pointers ps) \<and> Q ps s)"
  by (auto simp: wp_iff pointers_at_run)

lemma wp_buffer_at [wp_simps]: "wp (buffer_at a) h Q s \<longleftrightarrow> (\<exists>r. blocks s a = Some (Buffer r) \<and> Q r s)"
proof (cases "blocks s a")
  case (Some b)
  then show ?thesis by (cases b) (auto simp: buffer_at_def wp_simps)
qed (simp add: buffer_at_def wp_simps)

lemma wp_set_buffer [wp_simps]: "wp (set_buffer a f) h Q s \<longleftrightarrow>
    (\<exists>r. blocks s a = Some (Buffer r) \<and> Q () (s\<lparr>blocks := (blocks s)(a \<mapsto> Buffer (f r))\<rparr>))"
  by (simp add: set_buffer_def wp_simps)

lemma wp_chars_at [wp_simps]: "wp (chars_at a) h Q s \<longleftrightarrow> (\<exists>cs. blocks s a = Some (Characters cs) \<and> Q cs s)"
proof (cases "blocks s a")
  case (Some b)
  then show ?thesis by (cases b) (auto simp: chars_at_def wp_simps)
qed (simp add: chars_at_def wp_simps)

lemma wp_char_at [wp_simps]: "wp (char_at p) h Q s \<longleftrightarrow>
    (\<exists>cs. blocks s (fst p) = Some (Characters cs) \<and> snd p < length cs \<and> Q (cs ! snd p) s)"
  by (auto simp: char_at_def wp_simps byte_at_def)

lemma wp_put_char_at [wp_simps]: "wp (put_char_at p c) h Q s \<longleftrightarrow>
    (\<exists>cs. blocks s (fst p) = Some (Characters cs) \<and> snd p < length cs \<and>
      Q () (s\<lparr>blocks := (blocks s)(fst p \<mapsto> Characters (cs[snd p := c]))\<rparr>))"
  by (auto simp: put_char_at_def wp_simps)

lemma wp_malloc [wp_simps]: "wp (malloc b) h Q s \<longleftrightarrow> (if granted s (limit s)
    then Q (limit s) (s\<lparr>blocks := (blocks s)(limit s \<mapsto> b s), limit := limit s + 1\<rparr>) else Q 0 (s\<lparr>limit := limit s + 1\<rparr>))"
  by (simp add: wp_def malloc_def)

lemma wp_yyfree [wp_simps]: "wp (yyfree a) h Q s \<longleftrightarrow>
    (if a = 0 then Q () s else blocks s a \<noteq> None \<and> Q () (s\<lparr>blocks := (blocks s)(a := None)\<rparr>))"
  by (auto simp: yyfree_def wp_simps)

lemma wp_yyfree_chars [wp_simps]: "wp (yyfree_chars p) h Q s \<longleftrightarrow> snd p = 0 \<and> wp (yyfree (fst p)) h Q s"
  by (simp add: yyfree_chars_def wp_simps)

lemma wp_fatal [wp_simps]: "\<not> wp yy_fatal_error h Q s"
  by (simp add: yy_fatal_error_def wp_simps)

text \<open>The stack, from its bottom to the buffers below the current one \<open>c\<close>.\<close>

definition stacked :: "store \<Rightarrow> address list \<Rightarrow> address \<Rightarrow> bool" where
  "stacked s below c \<longleftrightarrow> yy_buffer_stack s \<noteq> 0 \<and> yy_buffer_stack_top s = length below \<and>
     (\<exists>ps. blocks s (yy_buffer_stack s) = Some (Pointers ps) \<and> length ps = yy_buffer_stack_max s \<and>
       length below < length ps \<and> take (length below) ps = below \<and> ps ! length below = c)"

lemma wp_current:
  assumes "stacked s below c"
  shows "wp YY_CURRENT_BUFFER h Q s \<longleftrightarrow> Q c s" "wp YY_CURRENT_BUFFER_LVALUE h Q s \<longleftrightarrow> Q c s"
  using assms
  by (auto simp: stacked_def YY_CURRENT_BUFFER_def YY_CURRENT_BUFFER_LVALUE_def wp_simps)

lemma wp_load:
  assumes "stacked s below c" "blocks s c = Some (Buffer r)" "blocks s (fst (buf_pos r)) = Some (Characters cs)"
    "snd (buf_pos r) < length cs"
  shows "wp heap_load_buffer_state h Q s \<longleftrightarrow> Q () (s\<lparr>n_chars := chars_read r, yytext := buf_pos r, c_buf_p := buf_pos r,
    yyin := input_file r, hold_char := cs ! snd (buf_pos r)\<rparr>)"
  using assms by (simp add: heap_load_buffer_state_def wp_simps wp_current)

text \<open>Addresses from \<open>limit\<close> on are free, and so is the null pointer; every allocation is granted.\<close>

definition free_above :: "(address \<rightharpoonup> block) \<Rightarrow> address \<Rightarrow> bool" where
  "free_above m l \<longleftrightarrow> 0 < l \<and> (\<forall>a. a = 0 \<or> l \<le> a \<longrightarrow> m a = None)"

lemma free_above_update [simp]: "free_above m l \<Longrightarrow> m a \<noteq> None \<Longrightarrow> free_above (m(a \<mapsto> b)) l"
  "free_above m l \<Longrightarrow> free_above (m(a := None)) l" "free_above m l \<Longrightarrow> free_above (m(l \<mapsto> b)) (Suc l)"
  by (cases "a = 0"; auto simp: free_above_def)+

definition heap_ok :: "store \<Rightarrow> bool" where
  "heap_ok s \<longleftrightarrow> free_above (blocks s) (limit s) \<and> granted s = (\<lambda>_. True)"

lemma heap_okD: "heap_ok s \<Longrightarrow> blocks s 0 = None" "heap_ok s \<Longrightarrow> blocks s (limit s) = None"
  "heap_ok s \<Longrightarrow> 0 < limit s" "heap_ok s \<Longrightarrow> granted s a"
  by (simp_all add: heap_ok_def free_above_def)

lemma heap_ok_nonzero: "heap_ok s \<Longrightarrow> blocks s a = Some b \<Longrightarrow> 0 < a"
  by (cases "a = 0") (simp_all add: heap_okD)

text \<open>The position of the scanner in the current buffer, and what creates and destroys a scanner.\<close>

definition position :: "store \<Rightarrow> char_ptr \<times> u8 \<times> int" where
  "position s = (c_buf_p s, hold_char s, n_chars s)"

definition owned :: "store \<Rightarrow> address \<times> address" where
  "owned s = (yyscanner s, yy_start_stack s)"

lemma ensure_spec:
  assumes "heap_ok s" "stacked s below c"
  shows "wp yyensure_buffer_stack h (\<lambda>_ t. heap_ok t \<and> stacked t below c \<and> length below + 1 < yy_buffer_stack_max t \<and>
    position t = position s \<and> owned t = owned s \<and> (yy_buffer_stack t = yy_buffer_stack s \<or> blocks s (yy_buffer_stack t) = None) \<and>
    (\<forall>a. a \<noteq> yy_buffer_stack s \<longrightarrow> a \<noteq> yy_buffer_stack t \<longrightarrow> blocks t a = blocks s a)) s"
proof -
  from assms(2) obtain ps where ps: "yy_buffer_stack s \<noteq> 0" "yy_buffer_stack_top s = length below"
    "blocks s (yy_buffer_stack s) = Some (Pointers ps)" "length ps = yy_buffer_stack_max s"
    "length below < length ps" "take (length below) ps = below" "ps ! length below = c" by (auto simp: stacked_def)
  note l = heap_okD [OF assms(1)]
  have n: "yy_buffer_stack s \<noteq> limit s" using ps(3) l(2) by auto
  show ?thesis
  proof (cases "yy_buffer_stack_max s - 1 \<le> yy_buffer_stack_top s")
    case True
    then show ?thesis using ps l n assms(1)
      by (simp add: yyensure_buffer_stack_def wp_simps stacked_def nth_append)
        (auto simp: heap_ok_def free_above_def position_def owned_def)
  next
    case False
    then show ?thesis using ps l n assms
      by (simp add: yyensure_buffer_stack_def wp_simps)
  qed
qed

text \<open>What is no array of pointers stays where it is.\<close>

lemma ensure_keeps:
  assumes "heap_ok s" "stacked s below c"
  shows "wp yyensure_buffer_stack h (\<lambda>_ t. heap_ok t \<and> stacked t below c \<and> length below + 1 < yy_buffer_stack_max t \<and>
    position t = position s \<and> owned t = owned s \<and> (yy_buffer_stack t = yy_buffer_stack s \<or> blocks s (yy_buffer_stack t) = None) \<and>
    (\<forall>a. a \<noteq> yy_buffer_stack s \<longrightarrow> a \<noteq> yy_buffer_stack t \<longrightarrow> blocks t a = blocks s a) \<and>
    (\<forall>a x. blocks s a = Some x \<longrightarrow> (\<forall>ps. x \<noteq> Pointers ps) \<longrightarrow> blocks t a = Some x \<and> a \<noteq> yy_buffer_stack t)) s"
proof (rule wp_mono [OF ensure_spec [OF assms]])
  fix v t
  assume t: "heap_ok t \<and> stacked t below c \<and> length below + 1 < yy_buffer_stack_max t \<and>
    position t = position s \<and> owned t = owned s \<and> (yy_buffer_stack t = yy_buffer_stack s \<or> blocks s (yy_buffer_stack t) = None) \<and>
    (\<forall>a. a \<noteq> yy_buffer_stack s \<longrightarrow> a \<noteq> yy_buffer_stack t \<longrightarrow> blocks t a = blocks s a)"
  obtain qs where qs: "blocks s (yy_buffer_stack s) = Some (Pointers qs)" using assms(2) by (auto simp: stacked_def)
  have k: "\<forall>a x. blocks s a = Some x \<longrightarrow> (\<forall>ps. x \<noteq> Pointers ps) \<longrightarrow> blocks t a = Some x \<and> a \<noteq> yy_buffer_stack t"
  proof (intro allI impI)
    fix a x assume a: "blocks s a = Some x" "\<forall>ps. x \<noteq> Pointers ps"
    with qs have "a \<noteq> yy_buffer_stack s" by auto
    moreover from this a t have "a \<noteq> yy_buffer_stack t" by auto
    ultimately show "blocks t a = Some x \<and> a \<noteq> yy_buffer_stack t" using a t by simp
  qed
  from t k show "heap_ok t \<and> stacked t below c \<and> length below + 1 < yy_buffer_stack_max t \<and>
    position t = position s \<and> owned t = owned s \<and> (yy_buffer_stack t = yy_buffer_stack s \<or> blocks s (yy_buffer_stack t) = None) \<and>
    (\<forall>a. a \<noteq> yy_buffer_stack s \<longrightarrow> a \<noteq> yy_buffer_stack t \<longrightarrow> blocks t a = blocks s a) \<and>
    (\<forall>a x. blocks s a = Some x \<longrightarrow> (\<forall>ps. x \<noteq> Pointers ps) \<longrightarrow> blocks t a = Some x \<and> a \<noteq> yy_buffer_stack t)" by (elim conjE, intro conjI) assumption+
qed

text \<open>
  A pointer into a buffer, and a buffer together with its characters; a buffer that is not the
  scanner's own may lie inside of a block.
\<close>

definition points_into :: "store \<Rightarrow> char_ptr \<Rightarrow> u8 list \<Rightarrow> bool" where
  "points_into s p cs \<longleftrightarrow> blocks s (fst p) = Some (Characters cs) \<and> snd p < length cs"

lemma take_append_nth: "take (length below) ps = below \<Longrightarrow> ps ! length below = c \<Longrightarrow> length below < length ps \<Longrightarrow>
    take (Suc (length below)) ps = below @ [c]"
  by (metis take_Suc_conv_app_nth)

lemma push_spec:
  assumes "heap_ok s" "stacked s below c" "c \<noteq> 0" "blocks s c = Some (Buffer r)" "points_into s (c_buf_p s) cs"
    and "b \<noteq> 0" "b \<noteq> c" "blocks s b = Some (Buffer q)" "points_into s (buf_pos q) ds" "fst (buf_pos q) \<noteq> fst (c_buf_p s)"
  shows "wp (yypush_buffer_state b) h (\<lambda>_ t. heap_ok t \<and> stacked t (below @ [c]) b \<and> owned t = owned s \<and>
    position t = (buf_pos q, ds ! snd (buf_pos q), chars_read q) \<and>
    blocks t c = Some (Buffer (r\<lparr>buf_pos := c_buf_p s, chars_read := n_chars s\<rparr>)) \<and>
    blocks t (fst (c_buf_p s)) = Some (Characters (cs[snd (c_buf_p s) := hold_char s])) \<and>
    (\<forall>a. a \<notin> {yy_buffer_stack s, yy_buffer_stack t, c, fst (c_buf_p s)} \<longrightarrow> blocks t a = blocks s a) \<and>
    (yy_buffer_stack t = yy_buffer_stack s \<or> blocks s (yy_buffer_stack t) = None)) s"
  unfolding yypush_buffer_state_def if_not_P [OF assms(6)] wp_bind
proof (rule wp_mono [OF ensure_keeps [OF assms(1,2)]], goal_cases)
  case (1 v t)
  let ?i = "yy_buffer_stack t"
  obtain ps where ps: "blocks t ?i = Some (Pointers ps)" "?i \<noteq> 0" "yy_buffer_stack_top t = length below"
    "length ps = yy_buffer_stack_max t" "take (length below) ps = below" "ps ! length below = c"
    using 1 by (auto simp: stacked_def)
  have k: "blocks t x = Some y \<and> x \<noteq> ?i" if "blocks s x = Some y" "\<forall>ps. y \<noteq> Pointers ps" for x y
    using 1 that by blast
  note c = k [OF assms(4), simplified] and b = k [OF assms(8), simplified]
    and a = k [OF assms(5) [unfolded points_into_def, THEN conjunct1], simplified]
    and d = k [OF assms(9) [unfolded points_into_def, THEN conjunct1], simplified]
  have ne: "c \<noteq> fst (c_buf_p s)" "b \<noteq> fst (c_buf_p s)" "fst (buf_pos q) \<noteq> c" "fst (buf_pos q) \<noteq> b"
    using a b c d by auto
  have i: "snd (c_buf_p s) < length cs" "snd (buf_pos q) < length ds" using assms(5,9) by (simp_all add: points_into_def)
  have e: "c_buf_p t = c_buf_p s" "hold_char t = hold_char s" "n_chars t = n_chars s" using 1 by (simp_all add: position_def)
  have l: "length below + 1 < length ps" "stacked t below c" "heap_ok t" "owned t = owned s"
    and f: "\<forall>a. a \<noteq> yy_buffer_stack s \<longrightarrow> a \<noteq> ?i \<longrightarrow> blocks t a = blocks s a"
    and m: "?i = yy_buffer_stack s \<or> blocks s ?i = None" using 1 ps by (elim conjE, simp)+
  have ta: "take (Suc (length below)) ps = below @ [c]" using ps l by (intro take_append_nth) auto
  show ?case
    using assms(3,6,7,10) ps(1-4) a b c d ne i e l ta
    by (simp add: wp_simps wp_current flush_information_def put_current_def heap_load_buffer_state_def
        YY_CURRENT_BUFFER_LVALUE_def)
      (use f m in \<open>auto simp: heap_ok_def stacked_def owned_def position_def\<close>)
qed

text \<open>A buffer with what is freed with it.\<close>

definition buffer_blocks :: "store \<Rightarrow> address \<Rightarrow> address set" where
  "buffer_blocks s b = (case blocks s b of
     Some (Buffer q) \<Rightarrow> if is_our_buffer q \<noteq> 0 then {b, fst (ch_buf q)} else {b} | _ \<Rightarrow> {})"

definition deletable :: "store \<Rightarrow> address \<Rightarrow> bool" where
  "deletable s b \<longleftrightarrow> (\<exists>q. blocks s b = Some (Buffer q) \<and>
     (is_our_buffer q \<noteq> 0 \<longrightarrow> snd (ch_buf q) = 0 \<and> (\<exists>ds. blocks s (fst (ch_buf q)) = Some (Characters ds))))"

text \<open>The heap without some blocks.\<close>

definition without :: "(address \<rightharpoonup> block) \<Rightarrow> address set \<Rightarrow> (address \<rightharpoonup> block)" where
  "without m A = m |` (- A)"

lemma without_simps [simp]: "without m A a = (if a \<in> A then None else m a)" "without m {} = m"
  "without (without m A) B = without m (A \<union> B)" "(without m A)(a := None) = without m (insert a A)"
  "a \<in> A \<Longrightarrow> without (m(a := x)) A = without m A" "m(a := None) = without m {a}"
  by (auto simp: without_def restrict_map_def fun_eq_iff)

lemma without_put: "a \<notin> A \<Longrightarrow> (without m A)(a \<mapsto> x) = without (m(a \<mapsto> x)) A"
  by (auto simp: without_def restrict_map_def fun_eq_iff)

lemma wp_delete:
  assumes "heap_ok s" "stacked s below b" "deletable s b"
  shows "wp (yy_delete_buffer b) h Q s \<longleftrightarrow> (\<exists>ps. blocks s (yy_buffer_stack s) = Some (Pointers ps) \<and>
    Q () (s\<lparr>blocks := without ((blocks s)(yy_buffer_stack s \<mapsto> Pointers (ps[length below := 0]))) (buffer_blocks s b)\<rparr>))"
proof -
  from assms(2) obtain ps where ps: "blocks s (yy_buffer_stack s) = Some (Pointers ps)" "yy_buffer_stack_top s = length below"
    "length below < length ps" by (auto simp: stacked_def)
  from assms(3) obtain q where q: "blocks s b = Some (Buffer q)" "is_our_buffer q \<noteq> 0 \<Longrightarrow> snd (ch_buf q) = 0"
    "is_our_buffer q \<noteq> 0 \<Longrightarrow> \<exists>ds. blocks s (fst (ch_buf q)) = Some (Characters ds)" by (auto simp: deletable_def)
  note nonzero = heap_ok_nonzero [OF assms(1)]
  have "0 < b" "b \<noteq> yy_buffer_stack s" using nonzero q(1) ps by auto
  moreover have "0 < fst (ch_buf q)" "fst (ch_buf q) \<noteq> b" "fst (ch_buf q) \<noteq> yy_buffer_stack s" if "is_our_buffer q \<noteq> 0"
    using q(1) q(3) [OF that] nonzero ps by auto
  ultimately show ?thesis
    using ps q by (auto simp: yy_delete_buffer_def wp_simps wp_current [OF assms(2)] put_current_def buffer_blocks_def insert_commute)
qed

lemma buffer_blocks_apart:
  assumes "deletable s b"
  shows "blocks s a = Some (Pointers ps) \<Longrightarrow> a \<notin> buffer_blocks s b"
    "blocks s a = Some (Buffer r) \<Longrightarrow> a \<noteq> b \<Longrightarrow> a \<notin> buffer_blocks s b" "blocks s a = Some Globals \<Longrightarrow> a \<notin> buffer_blocks s b"
    "b \<in> buffer_blocks s b" "blocks s a = None \<Longrightarrow> a \<notin> buffer_blocks s b"
  using assms by (auto simp: deletable_def buffer_blocks_def split: if_splits)

lemma free_above_without [simp]: "free_above m l \<Longrightarrow> free_above (without m A) l"
  by (auto simp: free_above_def)

lemma pop_spec:
  assumes "heap_ok s" "stacked s (below @ [c]) b" "deletable s b" "c \<noteq> 0" "c \<noteq> b"
    and "blocks s c = Some (Buffer r)" "points_into s (buf_pos r) cs" "fst (buf_pos r) \<notin> buffer_blocks s b"
  shows "wp yypop_buffer_state h (\<lambda>_ t. heap_ok t \<and> stacked t below c \<and> owned t = owned s \<and>
    position t = (buf_pos r, cs ! snd (buf_pos r), chars_read r) \<and> yy_buffer_stack t = yy_buffer_stack s \<and>
    (\<forall>a. a \<noteq> yy_buffer_stack s \<longrightarrow> blocks t a = without (blocks s) (buffer_blocks s b) a)) s"
proof -
  let ?i = "yy_buffer_stack s" and ?n = "length below"
  obtain ps where ps: "blocks s ?i = Some (Pointers ps)" "yy_buffer_stack_top s = Suc ?n" "?i \<noteq> 0"
    "length ps = yy_buffer_stack_max s" "Suc ?n < length ps" "take (Suc ?n) ps = below @ [c]"
    using assms(2) by (auto simp: stacked_def)
  note apart = buffer_blocks_apart [OF assms(3)]
  have i: "?i \<notin> buffer_blocks s b" "c \<notin> buffer_blocks s b" "c \<noteq> ?i" "fst (buf_pos r) \<noteq> ?i" "b \<noteq> 0"
    using apart(1) [OF ps(1)] apart(2) [OF assms(6,5)] assms(3,6,7) ps(1) heap_ok_nonzero [OF assms(1)]
    by (auto simp: points_into_def deletable_def)
  have t: "take ?n ps = below" "ps ! ?n = c"
    using arg_cong [OF ps(6), of "take ?n"] arg_cong [OF ps(6), of "\<lambda>xs. xs ! ?n"] ps(5) by simp_all
  have p: "blocks s (fst (buf_pos r)) = Some (Characters cs)" "snd (buf_pos r) < length cs"
    using assms(7) by (simp_all add: points_into_def)
  show ?thesis
    unfolding yypop_buffer_state_def wp_bind wp_current [OF assms(2)] if_not_P [OF i(5)] wp_delete [OF assms(1-3)]
    using ps i t p assms(1,4,6,8)
    by (simp add: wp_simps put_current_def YY_CURRENT_BUFFER_def YY_CURRENT_BUFFER_LVALUE_def heap_load_buffer_state_def)
      (auto simp: heap_ok_def stacked_def owned_def position_def)
qed

text \<open>The first turn of the loop leaves a null pointer on the top of the stack, so that there is no second.\<close>

lemma destroy_loop_spec:
  assumes "heap_ok s" "stacked s below c" "deletable s c"
  shows "wp destroy_loop h (\<lambda>_ t. heap_ok t \<and> stacked t below 0 \<and> owned t = owned s \<and> yy_buffer_stack t = yy_buffer_stack s \<and>
    (\<forall>a. a \<noteq> yy_buffer_stack s \<longrightarrow> blocks t a = without (blocks s) (buffer_blocks s c) a)) s"
proof -
  let ?i = "yy_buffer_stack s"
  obtain ps where ps: "blocks s ?i = Some (Pointers ps)" "yy_buffer_stack_top s = length below" "?i \<noteq> 0"
    "length below < length ps" "length ps = yy_buffer_stack_max s" "take (length below) ps = below" "ps ! length below = c"
    using assms(2) by (auto simp: stacked_def)
  have c: "c \<noteq> 0" using assms(1,3) heap_ok_nonzero by (auto simp: deletable_def)
  have i: "?i \<notin> buffer_blocks s c" by (rule buffer_blocks_apart(1) [OF assms(3) ps(1)])
  let ?t = "s\<lparr>blocks := without ((blocks s)(?i \<mapsto> Pointers (ps[length below := 0]))) (buffer_blocks s c)\<rparr>"
  have cur: "YY_CURRENT_BUFFER h s = Ret (c, s)" "YY_CURRENT_BUFFER h ?t = Ret (0, ?t)"
    using ps i by (auto simp: current_run)
  have "wp (destroy_turn c) h (\<lambda>_ t. t = ?t) s"
    using ps i pop_empty [OF cur(2)]
    by (simp add: destroy_turn_def wp_simps wp_delete [OF assms] put_current_def without_put) (simp add: wp_iff)
  then have "destroy_loop h s = Ret ((), ?t)"
    using c by (simp add: destroy_loop.simps [of h s] destroy_loop.simps [of h ?t] cur wp_iff)
  moreover have "heap_ok ?t \<and> stacked ?t below 0 \<and> owned ?t = owned s"
    using ps i assms(1) by (simp add: heap_ok_def stacked_def owned_def)
  ultimately show ?thesis by (simp add: wp_iff)
qed

lemma destroy_spec:
  assumes "heap_ok s" "stacked s below c" "deletable s c" "yy_start_stack s = 0" "blocks s (yyscanner s) = Some Globals"
  shows "wp yylex_destroy h (\<lambda>v t. v = 0 \<and> heap_ok t \<and>
    blocks t = without (blocks s) (buffer_blocks s c \<union> {yy_buffer_stack s, yyscanner s})) s"
proof -
  let ?i = "yy_buffer_stack s"
  obtain ps where ps: "blocks s ?i = Some (Pointers ps)" "?i \<noteq> 0" using assms(2) by (auto simp: stacked_def)
  have g: "yyscanner s \<notin> buffer_blocks s c" "yyscanner s \<noteq> ?i" "0 < yyscanner s" "?i \<notin> buffer_blocks s c"
    using buffer_blocks_apart(1,3) [OF assms(3)] assms(5) ps heap_ok_nonzero [OF assms(1)] by auto
  show ?thesis
    unfolding yylex_destroy_def wp_bind
  proof (rule wp_mono [OF destroy_loop_spec [OF assms(1-3)]], goal_cases)
    case (1 v t)
    then have b: "\<And>a. a \<noteq> ?i \<Longrightarrow> blocks t a = without (blocks s) (buffer_blocks s c) a" and
      t: "heap_ok t" "yy_buffer_stack t = ?i" "yyscanner t = yyscanner s" "yy_start_stack t = yy_start_stack s"
      "\<exists>qs. blocks t ?i = Some (Pointers qs)"
      by (auto simp: owned_def stacked_def)
    have r: "without (blocks t) {?i, yyscanner s} = without (blocks s) (buffer_blocks s c \<union> {?i, yyscanner s})"
      using b by (auto simp: fun_eq_iff)
    have f: "free_above (without (blocks s) (buffer_blocks s c \<union> {?i, yyscanner s})) (limit t)"
      unfolding r [symmetric] using t(1) by (simp add: heap_ok_def)
    show ?case using t ps g assms(4,5) b [of "yyscanner s"] f
      by (simp add: wp_simps yy_init_globals_def insert_commute r) (auto simp: heap_ok_def)
  qed
qed

section \<open>Strings\<close>

lemma switch_spec:
  assumes "heap_ok s" "stacked s below c" "c \<noteq> 0" "blocks s c = Some (Buffer r)" "points_into s (c_buf_p s) cs"
    and "b \<noteq> c" "blocks s b = Some (Buffer q)" "points_into s (buf_pos q) ds" "fst (buf_pos q) \<noteq> fst (c_buf_p s)"
  shows "wp (yy_switch_to_buffer b) h (\<lambda>_ t. heap_ok t \<and> stacked t below b \<and> owned t = owned s \<and>
    position t = (buf_pos q, ds ! snd (buf_pos q), chars_read q) \<and>
    blocks t c = Some (Buffer (r\<lparr>buf_pos := c_buf_p s, chars_read := n_chars s\<rparr>)) \<and>
    blocks t (fst (c_buf_p s)) = Some (Characters (cs[snd (c_buf_p s) := hold_char s])) \<and>
    (\<forall>a. a \<notin> {yy_buffer_stack s, yy_buffer_stack t, c, fst (c_buf_p s)} \<longrightarrow> blocks t a = blocks s a) \<and>
    (yy_buffer_stack t = yy_buffer_stack s \<or> blocks s (yy_buffer_stack t) = None)) s"
  unfolding yy_switch_to_buffer_def wp_bind
proof (rule wp_mono [OF ensure_keeps [OF assms(1,2)]], goal_cases)
  case (1 v t)
  let ?i = "yy_buffer_stack t"
  obtain ps where ps: "blocks t ?i = Some (Pointers ps)" "?i \<noteq> 0" "yy_buffer_stack_top t = length below"
    "length ps = yy_buffer_stack_max t" "take (length below) ps = below" "ps ! length below = c"
    using 1 by (auto simp: stacked_def)
  have k: "blocks t x = Some y \<and> x \<noteq> ?i" if "blocks s x = Some y" "\<forall>ps. y \<noteq> Pointers ps" for x y
    using 1 that by blast
  note c = k [OF assms(4), simplified] and b = k [OF assms(7), simplified]
    and a = k [OF assms(5) [unfolded points_into_def, THEN conjunct1], simplified]
    and d = k [OF assms(8) [unfolded points_into_def, THEN conjunct1], simplified]
  have ne: "c \<noteq> fst (c_buf_p s)" "b \<noteq> fst (c_buf_p s)" "fst (buf_pos q) \<noteq> c" "fst (buf_pos q) \<noteq> b"
    using a b c d by auto
  have i: "snd (c_buf_p s) < length cs" "snd (buf_pos q) < length ds" using assms(5,8) by (simp_all add: points_into_def)
  have e: "c_buf_p t = c_buf_p s" "hold_char t = hold_char s" "n_chars t = n_chars s" using 1 by (simp_all add: position_def)
  have l: "length below < length ps" "stacked t below c" "heap_ok t" "owned t = owned s"
    and f: "\<forall>a. a \<noteq> yy_buffer_stack s \<longrightarrow> a \<noteq> ?i \<longrightarrow> blocks t a = blocks s a"
    and m: "?i = yy_buffer_stack s \<or> blocks s ?i = None" using 1 ps by (elim conjE, simp)+
  show ?case
    using assms(3,6,9) ps a b c d ne i e l
    by (simp add: wp_simps wp_current flush_information_def put_current_def heap_load_buffer_state_def
        YY_CURRENT_BUFFER_LVALUE_def)
      (use f m in \<open>auto simp: heap_ok_def stacked_def owned_def position_def\<close>)
qed

lemma scan_spec:
  fixes bs rest :: "u8 list"
  assumes "heap_ok s" "stacked s below c" "c \<noteq> 0" "blocks s c = Some (Buffer r)" "points_into s (c_buf_p s) cs"
    and "int (length bs) + 2 < 2 ^ 31"
  shows "wp (yy_scan_bytes (bs @ rest) (int (length bs))) h (\<lambda>b t. heap_ok t \<and> stacked t below b \<and> deletable t b \<and>
    (\<exists>a. buffer_blocks t b = {b, a} \<and> blocks s b = None \<and> blocks s a = None \<and> blocks t a = Some (Characters (bs @ [0, 0])) \<and>
      position t = ((a, 0), (bs @ [0]) ! 0, int (length bs))) \<and>
    blocks t c = Some (Buffer (r\<lparr>buf_pos := c_buf_p s, chars_read := n_chars s\<rparr>))) s"
proof -
  let ?l = "limit s"
  let ?q = "(garbage_buffer s)\<lparr>buf_size := int (length bs), ch_buf := (?l, 0), buf_pos := (?l, 0), is_our_buffer := 0,
    input_file := 0, chars_read := int (length bs), is_interactive := 0, at_bol := 1, fill_buffer := 0, buffer_status := 0\<rparr>"
  let ?s = "s\<lparr>limit := Suc (Suc ?l), blocks := (blocks s)(?l \<mapsto> Characters (bs @ [0, 0]), Suc ?l \<mapsto> Buffer ?q)\<rparr>"
  have l: "blocks s ?l = None" "blocks s (Suc ?l) = None" "0 < ?l" "\<And>a. granted s a"
    using assms(1) by (auto simp: heap_ok_def free_above_def)
  have n: "c \<noteq> ?l" "c \<noteq> Suc ?l" "fst (c_buf_p s) \<noteq> ?l" "fst (c_buf_p s) \<noteq> Suc ?l" "yy_buffer_stack s \<noteq> ?l" "yy_buffer_stack s \<noteq> Suc ?l"
    using l(1,2) assms(2,4,5) by (auto simp: stacked_def points_into_def)
  have sz: "signed_take_bit 31 (int (length bs)) = int (length bs)"
    using assms(6) by (intro signed_take_bit_int_eq_self) simp_all
  have "nat (int (length bs) + 2) = Suc (Suc (length bs))" by simp
  note sizes = sz this
  have ok: "heap_ok ?s" "stacked ?s below c" "blocks ?s c = Some (Buffer r)" "points_into ?s (c_buf_p ?s) cs"
    "points_into ?s (buf_pos ?q) (bs @ [0, 0])" "blocks ?s (Suc ?l) = Some (Buffer ?q)"
    using assms(1,2,4,5) n l(3) by (auto simp: heap_ok_def stacked_def points_into_def free_above_def)
  let ?P = "\<lambda>b t. heap_ok t \<and> stacked t below b \<and> deletable t b \<and>
    (\<exists>a. buffer_blocks t b = {b, a} \<and> blocks s b = None \<and> blocks s a = None \<and> blocks t a = Some (Characters (bs @ [0, 0])) \<and>
      position t = ((a, 0), (bs @ [0]) ! 0, int (length bs))) \<and>
    blocks t c = Some (Buffer (r\<lparr>buf_pos := c_buf_p s, chars_read := n_chars s\<rparr>))"
  let ?owned = "\<lambda>Q t. \<exists>r. blocks t (Suc ?l) = Some (Buffer r) \<and>
    Q (Suc ?l) (t\<lparr>blocks := (blocks t)(Suc ?l \<mapsto> Buffer (r\<lparr>is_our_buffer := 1\<rparr>))\<rparr>)"
  have "wp (yy_switch_to_buffer (Suc ?l)) h (\<lambda>_. ?owned ?P) ?s"
  proof (rule wp_mono [OF switch_spec [OF ok(1,2) assms(3) ok(3,4) _ ok(6,5)]], goal_cases)
    case (3 v t)
    have m: "yy_buffer_stack t = yy_buffer_stack s \<or> blocks ?s (yy_buffer_stack t) = None"
      and f: "\<forall>a. a \<notin> {yy_buffer_stack s, yy_buffer_stack t, c, fst (c_buf_p s)} \<longrightarrow> blocks t a = blocks ?s a"
      using 3 by simp_all
    have i: "?l \<noteq> yy_buffer_stack t" "Suc ?l \<noteq> yy_buffer_stack t" using m n by (auto split: if_splits)
    have "blocks t (Suc ?l) = Some (Buffer ?q)" "blocks t ?l = Some (Characters (bs @ [0, 0]))"
      using f [rule_format, of "Suc ?l"] f [rule_format, of ?l] i n n [symmetric] by simp_all
    with 3 i l n show ?case
      by (simp add: wp_simps stacked_def deletable_def buffer_blocks_def heap_ok_def position_def nth_append)
  qed (use n in auto)
  moreover have "wp (yy_scan_bytes (bs @ rest) (int (length bs))) h Q s \<longleftrightarrow>
      wp (yy_switch_to_buffer (Suc ?l)) h (\<lambda>_. ?owned Q) ?s" for Q
    using assms(6) l n sizes by (simp add: yy_scan_bytes_def yy_scan_buffer_def wp_simps next_char_def nth_append)
  ultimately show ?thesis by simp
qed

section \<open>Properties\<close>

text \<open>
  C9: The stack of buffers suspends a scan and resumes it: a buffer that is pushed becomes the current one, and
  whatever is done with it, as long as the suspended buffer is left alone, popping it releases it
  and continues the suspended scan at the same character, with the same number of characters left.
\<close>

theorem nested_scan:
  assumes "heap_ok s" "stacked s below c" "c \<noteq> 0" "blocks s c = Some (Buffer r)" "points_into s (c_buf_p s) cs"
    and "b \<noteq> 0" "b \<noteq> c" "blocks s b = Some (Buffer q)" "points_into s (buf_pos q) ds" "fst (buf_pos q) \<noteq> fst (c_buf_p s)"
  shows "\<exists>t. yypush_buffer_state b h s = Ret ((), t) \<and> stacked t (below @ [c]) b \<and>
    position t = (buf_pos q, ds ! snd (buf_pos q), chars_read q) \<and> heap_ok t \<and>
    (\<forall>a \<in> dom (blocks s) - {yy_buffer_stack s, c, fst (c_buf_p s)}. blocks t a = blocks s a) \<and>
    (\<forall>u. heap_ok u \<longrightarrow> stacked u (below @ [c]) b \<longrightarrow> deletable u b \<longrightarrow> fst (c_buf_p s) \<notin> buffer_blocks u b \<longrightarrow>
      (\<forall>a \<in> {c, fst (c_buf_p s)}. blocks u a = blocks t a) \<longrightarrow>
      (\<exists>v. yypop_buffer_state h u = Ret ((), v) \<and> stacked v below c \<and> position v = position s \<and>
        (\<forall>a. a \<noteq> yy_buffer_stack u \<longrightarrow> blocks v a = without (blocks u) (buffer_blocks u b) a)))"
proof -
  from push_spec [OF assms, of h] obtain t where t: "yypush_buffer_state b h s = Ret ((), t)" "stacked t (below @ [c]) b"
    "position t = (buf_pos q, ds ! snd (buf_pos q), chars_read q)"
    "blocks t c = Some (Buffer (r\<lparr>buf_pos := c_buf_p s, chars_read := n_chars s\<rparr>))"
    "blocks t (fst (c_buf_p s)) = Some (Characters (cs[snd (c_buf_p s) := hold_char s]))" "heap_ok t"
    and f: "\<forall>a. a \<notin> {yy_buffer_stack s, yy_buffer_stack t, c, fst (c_buf_p s)} \<longrightarrow> blocks t a = blocks s a"
      "yy_buffer_stack t = yy_buffer_stack s \<or> blocks s (yy_buffer_stack t) = None" by (auto simp: wp_iff)
  have k: "\<forall>a \<in> dom (blocks s) - {yy_buffer_stack s, c, fst (c_buf_p s)}. blocks t a = blocks s a" using f by auto
  have i: "snd (c_buf_p s) < length cs" using assms(5) by (simp add: points_into_def)
  have "\<exists>v. yypop_buffer_state h u = Ret ((), v) \<and> stacked v below c \<and> position v = position s \<and>
      (\<forall>a. a \<noteq> yy_buffer_stack u \<longrightarrow> blocks v a = without (blocks u) (buffer_blocks u b) a)"
    if u: "heap_ok u" "stacked u (below @ [c]) b" "deletable u b" "fst (c_buf_p s) \<notin> buffer_blocks u b"
      "\<forall>a \<in> {c, fst (c_buf_p s)}. blocks u a = blocks t a" for u
  proof -
    let ?r = "r\<lparr>buf_pos := c_buf_p s, chars_read := n_chars s\<rparr>" and ?cs = "cs[snd (c_buf_p s) := hold_char s]"
    have "blocks u c = Some (Buffer ?r)" "points_into u (buf_pos ?r) ?cs" using t u(5) i by (simp_all add: points_into_def)
    from pop_spec [OF u(1-3) assms(3) assms(7) [symmetric] this, of h] u(4) i show ?thesis
      by (auto simp: wp_iff position_def)
  qed
  with t(1-3,6) k show ?thesis by blast
qed

text \<open>Two buffers of which the first is being scanned, at its second character.\<close>

definition sample_buffer :: "address \<Rightarrow> int \<Rightarrow> buffer_state" where
  "sample_buffer a n = \<lparr>input_file = 0, ch_buf = (a, 0), buf_pos = (a, 0), buf_size = n, chars_read = n, is_our_buffer = 1,
     is_interactive = 1, at_bol = 1, bs_lineno = 1, bs_column = 0, fill_buffer = 1, buffer_status = 1\<rparr>"

definition sample_store :: "(address \<rightharpoonup> block) \<Rightarrow> store" where
  "sample_store m = \<lparr>blocks = m, limit = 7, granted = (\<lambda>_. True), garbage_char = (\<lambda>_. 85), garbage_buffer = sample_buffer 0 0,
     yyscanner = 1, yyextra = 0, yyin = 0, yyout = 0, yy_buffer_stack_top = 0, yy_buffer_stack_max = 1, yy_buffer_stack = 2,
     hold_char = 98, n_chars = 2, leng = 1, c_buf_p = (4, 1), scanner_init = 1, start = 1, yy_did_buffer_switch_on_eof = 0,
     yy_start_stack_ptr = 0, yy_start_stack_depth = 0, yy_start_stack = 0, yy_flex_debug = 0, yytext = (4, 0)\<rparr>"

definition sample_blocks :: "address \<rightharpoonup> block" where
  "sample_blocks = [1 \<mapsto> Globals, 2 \<mapsto> Pointers [3], 3 \<mapsto> Buffer (sample_buffer 4 2), 4 \<mapsto> Characters [97, 0, 0, 0],
     5 \<mapsto> Buffer (sample_buffer 6 1), 6 \<mapsto> Characters [99, 0, 0]]"

lemma sample_stack:
  "heap_ok (sample_store sample_blocks)" "stacked (sample_store sample_blocks) [] 3"
  "blocks (sample_store sample_blocks) 3 = Some (Buffer (sample_buffer 4 2))"
  "points_into (sample_store sample_blocks) (c_buf_p (sample_store sample_blocks)) [97, 0, 0, 0]"
  "blocks (sample_store sample_blocks) 5 = Some (Buffer (sample_buffer 6 1))"
  "points_into (sample_store sample_blocks) (buf_pos (sample_buffer 6 1)) [99, 0, 0]"
  "deletable (sample_store sample_blocks) 3"
  by (simp_all add: sample_store_def sample_blocks_def heap_ok_def free_above_def stacked_def points_into_def sample_buffer_def deletable_def)

theorem nested_scan_witness:
  "\<exists>t v. yypush_buffer_state 5 x86_host (sample_store sample_blocks) = Ret ((), t) \<and> c_buf_p t = (6, 0) \<and> hold_char t = 99 \<and>
     yypop_buffer_state x86_host t = Ret ((), v) \<and> c_buf_p v = (4, 1) \<and> hold_char v = 98 \<and> blocks v 5 = None \<and> blocks v 6 = None"
proof -
  let ?s = "sample_store sample_blocks"
  have p: "position ?s = ((4, 1), 98, 2)" "c_buf_p ?s = (4, 1)" "yy_buffer_stack ?s = 2"
    "buf_pos (sample_buffer 6 1) = (6, 0)" "blocks ?s 6 = Some (Characters [99, 0, 0])"
    "is_our_buffer (sample_buffer 6 1) = 1" "ch_buf (sample_buffer 6 1) = (6, 0)"
    by (simp_all add: position_def sample_store_def sample_buffer_def sample_blocks_def)
  from nested_scan [OF sample_stack(1,2) _ sample_stack(3,4) _ _ sample_stack(5,6)] p
  obtain t where t: "yypush_buffer_state 5 x86_host ?s = Ret ((), t)" "stacked t [3] 5"
    "position t = ((6, 0), 99, chars_read (sample_buffer 6 1))" "heap_ok t"
    "\<forall>a \<in> dom (blocks ?s) - {2, 3, 4}. blocks t a = blocks ?s a"
    "\<And>u. heap_ok u \<Longrightarrow> stacked u [3] 5 \<Longrightarrow> deletable u 5 \<Longrightarrow> 4 \<notin> buffer_blocks u 5 \<Longrightarrow> \<forall>a \<in> {3, 4}. blocks u a = blocks t a \<Longrightarrow>
      \<exists>v. yypop_buffer_state x86_host u = Ret ((), v) \<and> stacked v [] 3 \<and> position v = ((4, 1), 98, 2) \<and>
        (\<forall>a. a \<noteq> yy_buffer_stack u \<longrightarrow> blocks v a = without (blocks u) (buffer_blocks u 5) a)"
    by (fastforce simp: insert_commute)
  have b: "blocks t 5 = Some (Buffer (sample_buffer 6 1))" "blocks t 6 = Some (Characters [99, 0, 0])"
    using bspec [OF t(5), of 5] bspec [OF t(5), of 6] sample_stack(5) p(5) by (simp_all add: domIff)
  then have d: "deletable t 5" "buffer_blocks t 5 = {5, 6}" using p by (simp_all add: deletable_def buffer_blocks_def)
  have "yy_buffer_stack t \<noteq> 5" "yy_buffer_stack t \<noteq> 6" using t(2) b by (auto simp: stacked_def)
  with t(6) [OF t(4,2) d(1)] t(1,3) d(2) show ?thesis by (fastforce simp: position_def)
qed

text \<open>
  Destroying a scanner releases the current buffer with its characters, the array of the stack and the scanner, and
  nothing else: buffers below the current one stay allocated, because the loop over the stack ends after its first turn.
\<close>

theorem destroy_leaks:
  assumes "heap_ok s" "stacked s below c" "deletable s c" "yy_start_stack s = 0" "blocks s (yyscanner s) = Some Globals"
  shows "\<exists>t. yylex_destroy h s = Ret (0, t) \<and> blocks t = without (blocks s) (buffer_blocks s c \<union> {yy_buffer_stack s, yyscanner s})"
  using destroy_spec [OF assms, of h] by (auto simp: wp_iff)

text \<open>A buffer above another one.\<close>

theorem destroy_leaks_witness:
  "\<exists>t. yylex_destroy x86_host ((sample_store (sample_blocks(2 \<mapsto> Pointers [3, 5])))
       \<lparr>yy_buffer_stack_top := 1, yy_buffer_stack_max := 2\<rparr>) = Ret (0, t) \<and>
     dom (blocks t) = {3, 4}"
proof -
  let ?s = "(sample_store (sample_blocks(2 \<mapsto> Pointers [3, 5])))\<lparr>yy_buffer_stack_top := 1, yy_buffer_stack_max := 2\<rparr>"
  have s: "heap_ok ?s" "stacked ?s [3] 5" "deletable ?s 5" "yy_start_stack ?s = 0" "blocks ?s (yyscanner ?s) = Some Globals"
    by (simp_all add: sample_store_def sample_blocks_def heap_ok_def free_above_def stacked_def deletable_def sample_buffer_def)
  have "dom (without (blocks ?s) (buffer_blocks ?s 5 \<union> {yy_buffer_stack ?s, yyscanner ?s})) = {3, 4}"
    by (auto simp: dom_def sample_store_def sample_blocks_def buffer_blocks_def sample_buffer_def)
  with destroy_leaks [OF s, of x86_host] show ?thesis by auto
qed

end
