(* ===== verification/Buffer_Heap.thy ===== *)
theory Buffer_Heap
  imports Buffer_Stack
begin

unbundle bit_operations_syntax

text \<open>
  The buffer of the generated scanner filled on the heap, and \<open>input\<close>, which reads a character outside of
  the scanner: they do what \<open>Scan_Buffer\<close> does without the heap, from the creation of a scanner to its destruction.
\<close>

section \<open>Filling the buffer\<close>

text \<open>
  \<open>yy_get_next_buffer\<close> with its pointers. The difference of two pointers and their order are
  undefined if they point to different blocks, and so is a pointer in front of its block; \<open>k\<close> is the connection \<open>YY_INPUT\<close> reads from.
\<close>

definition ptr_diff :: "char_ptr \<Rightarrow> char_ptr \<Rightarrow> int heap_prog" where
  "ptr_diff p q = (if fst p = fst q then ret (int (snd p) - int (snd q)) else undefined_as Out_of_bounds)"

definition index_char :: "char_ptr \<Rightarrow> int \<Rightarrow> char_ptr heap_prog" where
  "index_char p i = (if 0 \<le> int (snd p) + i then ret (fst p, nat (int (snd p) + i)) else undefined_as Out_of_bounds)"

fun heap_move :: "char_ptr \<Rightarrow> char_ptr \<Rightarrow> nat \<Rightarrow> unit heap_prog" where
  "heap_move dest source 0 = ret ()"
| "heap_move dest source (Suc n) =
     mbind (char_at source) (\<lambda>c. mseq (put_char_at dest c) (heap_move (next_char dest 1) (next_char source 1) n))"

fun put_string_at :: "char_ptr \<Rightarrow> u8 list \<Rightarrow> unit heap_prog" where
  "put_string_at p [] = ret ()"
| "put_string_at p (c # cs) = mseq (put_char_at p c) (put_string_at (next_char p 1) cs)"

definition realloc_chars :: "char_ptr \<Rightarrow> nat \<Rightarrow> address heap_prog" where
  "realloc_chars p n =
     (if snd p \<noteq> 0 then undefined_as Out_of_bounds
      else
        mbind (chars_at (fst p)) (\<lambda>cs.
        mbind (malloc (\<lambda>s. Characters (yyrealloc (garbage_char s) cs n))) (\<lambda>a.
        if a = 0 then ret 0 else mseq (yyfree (fst p)) (ret a))))"

text \<open>The loop that makes room behind \<open>moved\<close> characters, with at most \<open>n\<close> turns; its value is the room.\<close>

fun heap_grow :: "nat \<Rightarrow> int \<Rightarrow> int heap_prog" where
  "heap_grow 0 moved = (\<lambda>h s. Pending)"
| "heap_grow (Suc n) moved =
     mbind YY_CURRENT_BUFFER_LVALUE (\<lambda>b. mbind (buffer_at b) (\<lambda>r.
     if buf_size r - moved - 1 \<le> 0 then
       mbind (gets c_buf_p) (\<lambda>p. mbind (ptr_diff p (ch_buf r)) (\<lambda>offset.
       if is_our_buffer r \<noteq> 0 then
         let new_size = buf_size r * 2 in
         if 2 ^ 31 \<le> new_size then undefined_as Value_range
         else
           let sz = (if new_size \<le> 0 then buf_size r + buf_size r div 8 else new_size) in
           mseq (set_buffer b (\<lambda>r. r\<lparr>buf_size := sz\<rparr>))
           (mbind (realloc_chars (ch_buf r) (nat (sz + 2))) (\<lambda>a.
           mseq (set_buffer b (\<lambda>r. r\<lparr>ch_buf := (a, 0)\<rparr>))
           (if a = 0 then yy_fatal_error
            else mseq (modify (\<lambda>s. s\<lparr>c_buf_p := (a, nat offset)\<rparr>)) (heap_grow n moved))))
       else mseq (set_buffer b (\<lambda>r. r\<lparr>ch_buf := null_char\<rparr>)) yy_fatal_error))
     else ret (buf_size r - moved - 1)))"

definition set_n_chars :: "address \<Rightarrow> int \<Rightarrow> unit heap_prog" where
  "set_n_chars b n = mseq (modify (\<lambda>s. s\<lparr>n_chars := n\<rparr>)) (set_buffer b (\<lambda>r. r\<lparr>chars_read := n\<rparr>))"

definition heap_read :: "int \<Rightarrow> read_result list \<Rightarrow> read_result list heap_prog" where
  "heap_read moved k =
     mbind (heap_grow 32 moved) (\<lambda>num_to_read.
     mbind YY_CURRENT_BUFFER_LVALUE (\<lambda>b. mbind (buffer_at b) (\<lambda>r.
     mbind (lift_o (yy_input (nat (min (int YY_READ_BUF_SIZE) num_to_read)) k)) (\<lambda>(cs, k).
     mbind (index_char (ch_buf r) moved) (\<lambda>p.
     mseq (put_string_at p cs)
     (mseq (set_n_chars b (int (length cs))) (ret k)))))))"

text \<open>
  The end of the function: more room if there is none for the two zeros, of a size below the largest
  \<open>int\<close>, the zeros and \<open>yytext_ptr\<close>.
\<close>

definition heap_close :: "int \<Rightarrow> unit heap_prog" where
  "heap_close moved =
     mbind YY_CURRENT_BUFFER_LVALUE (\<lambda>b. mbind (buffer_at b) (\<lambda>r. mbind (gets n_chars) (\<lambda>n.
     mseq (mwhen (n + moved > buf_size r)
       (let new_size = n + moved + n div 2 in
        mbind (realloc_chars (ch_buf r) (nat new_size)) (\<lambda>a.
        mseq (set_buffer b (\<lambda>r. r\<lparr>ch_buf := (a, 0)\<rparr>))
        (if a = 0 then yy_fatal_error else set_buffer b (\<lambda>r. r\<lparr>buf_size := new_size - 2\<rparr>)))))
     (mseq (modify (\<lambda>s. s\<lparr>n_chars := n + moved\<rparr>))
     (mbind (buffer_at b) (\<lambda>r.
     mbind (index_char (ch_buf r) (n + moved)) (\<lambda>p.
     mseq (put_string_at p [0, 0])
     (modify (\<lambda>s. s\<lparr>yytext := ch_buf r\<rparr>)))))))))"

text \<open>No \<open>read\<close> once the end of the file has been seen; then what the function returns.\<close>

definition heap_fill :: "int \<Rightarrow> read_result list \<Rightarrow> read_result list heap_prog" where
  "heap_fill moved k =
     mbind YY_CURRENT_BUFFER_LVALUE (\<lambda>b. mbind (buffer_at b) (\<lambda>r.
     if buffer_status r = YY_BUFFER_EOF_PENDING then mseq (set_n_chars b 0) (ret k) else heap_read moved k))"

definition heap_decide :: "int \<Rightarrow> eob_act heap_prog" where
  "heap_decide moved =
     mbind (gets n_chars) (\<lambda>n.
     if n = 0 then
       if moved = 0 then mbind (gets yyin) (\<lambda>f. mseq (heap_restart f) (ret EOB_ACT_END_OF_FILE))
       else mbind YY_CURRENT_BUFFER_LVALUE (\<lambda>b.
         mseq (set_buffer b (\<lambda>r. r\<lparr>buffer_status := YY_BUFFER_EOF_PENDING\<rparr>)) (ret EOB_ACT_LAST_MATCH))
     else ret EOB_ACT_CONTINUE_SCAN)"

definition heap_get_next_buffer :: "read_result list \<Rightarrow> (eob_act \<times> read_result list) heap_prog" where
  "heap_get_next_buffer k =
     mbind YY_CURRENT_BUFFER_LVALUE (\<lambda>b. mbind (buffer_at b) (\<lambda>r. mbind (gets id) (\<lambda>s.
     mbind (ptr_diff (c_buf_p s) (ch_buf r)) (\<lambda>d.
     if d > n_chars s + 1 then yy_fatal_error
     else
       mbind (ptr_diff (c_buf_p s) (yytext s)) (\<lambda>e.
       if fill_buffer r = 0 then ret (if e = 1 then EOB_ACT_END_OF_FILE else EOB_ACT_LAST_MATCH, k)
       else
         mseq (heap_move (ch_buf r) (yytext s) (nat (e - 1)))
         (mbind (heap_fill (e - 1) k) (\<lambda>k.
         mbind (heap_decide (e - 1)) (\<lambda>act.
         mseq (heap_close (e - 1)) (ret (act, k))))))))))"

text \<open>
  \<open>input\<close>, for which the macro \<open>yywrap\<close> is 1; \<open>take_char\<close> is its end. The function is in \<open>scanner.c\<close>, but
  \<open>scanner.l\<close> defines \<open>YY_NO_INPUT\<close>, so that the compiler does not see it.
\<close>

definition take_char :: "int heap_prog" where
  "take_char =
     mbind (gets c_buf_p) (\<lambda>p. mbind (char_at p) (\<lambda>c.
     mseq (put_char_at p 0)
     (mbind (char_at (next_char p 1)) (\<lambda>d.
     mseq (modify (\<lambda>s. s\<lparr>c_buf_p := next_char p 1, hold_char := d\<rparr>)) (ret (uint c))))))"

definition input :: "read_result list \<Rightarrow> (int \<times> read_result list) heap_prog" where
  "input k =
     mbind (gets id) (\<lambda>s.
     mseq (put_char_at (c_buf_p s) (hold_char s))
     (if hold_char s \<noteq> 0 then mbind take_char (\<lambda>c. ret (c, k))
      else
        mbind YY_CURRENT_BUFFER_LVALUE (\<lambda>b. mbind (buffer_at b) (\<lambda>r. mbind (ptr_diff (c_buf_p s) (ch_buf r)) (\<lambda>d.
        if d < n_chars s then mseq (put_char_at (c_buf_p s) 0) (mbind take_char (\<lambda>c. ret (c, k)))
        else
          mbind (ptr_diff (c_buf_p s) (yytext s)) (\<lambda>offset.
          mseq (modify (\<lambda>s. s\<lparr>c_buf_p := next_char (c_buf_p s) 1\<rparr>))
          (mbind (heap_get_next_buffer k) (\<lambda>(act, k). case act of
             EOB_ACT_LAST_MATCH \<Rightarrow> mbind (gets yyin) (\<lambda>f. mseq (heap_restart f) (ret (0, k)))
           | EOB_ACT_END_OF_FILE \<Rightarrow> ret (0, k)
           | EOB_ACT_CONTINUE_SCAN \<Rightarrow>
               mbind (gets yytext) (\<lambda>p. mbind (index_char p offset) (\<lambda>p.
               mseq (modify (\<lambda>s. s\<lparr>c_buf_p := p\<rparr>)) (mbind take_char (\<lambda>c. ret (c, k)))))))))))))"

lemma wp_index_char [wp_simps]: "wp (index_char p i) h Q s \<longleftrightarrow> 0 \<le> int (snd p) + i \<and> Q (fst p, nat (int (snd p) + i)) s"
  by (simp add: index_char_def wp_simps)

section \<open>The buffer without the heap\<close>

text \<open>
  A scanner with one buffer \<open>c\<close> of its own, whose characters are the block \<open>a\<close>, against the state of
  \<open>Scan_Buffer\<close>, which has offsets for pointers. What block the pointers point to is said apart, because
  some are not set again when the block is moved.
\<close>

definition represents :: "store \<Rightarrow> address \<Rightarrow> address \<Rightarrow> yyguts_t \<Rightarrow> bool" where
  "represents s c a g \<longleftrightarrow> heap_ok s \<and> stacked s [] c \<and> blocks s a = Some (Characters (yy_ch_buf g)) \<and>
     2 \<le> length (yy_ch_buf g) \<and> 0 \<le> yy_buf_size g \<and> (\<exists>r. blocks s c = Some (Buffer r) \<and>
       ch_buf r = (a, 0) \<and> snd (buf_pos r) = yy_buf_pos g \<and> buf_size r = yy_buf_size g \<and>
       chars_read r = int (buffer_n_chars g) \<and> is_our_buffer r = yy_is_our_buffer g \<and> is_our_buffer r \<noteq> 0 \<and>
       fill_buffer r = yy_fill_buffer g \<and> buffer_status r = yy_buffer_status g) \<and>
     n_chars s = int (yy_n_chars g) \<and> hold_char s = yy_hold_char g \<and> snd (c_buf_p s) = yy_c_buf_p g \<and>
     snd (yytext s) = yytext_ptr g \<and> scanner_init s = yy_init g \<and> start s = int (yy_start g)"

text \<open>What the scanning of one buffer leaves alone: the other blocks, the stack and the scanner.\<close>

definition apart :: "store \<Rightarrow> address \<Rightarrow> store \<Rightarrow> address \<Rightarrow> address \<Rightarrow> bool" where
  "apart s a t b c \<longleftrightarrow> owned t = owned s \<and> yy_buffer_stack t = yy_buffer_stack s \<and> garbage_char t = garbage_char s \<and>
     without (blocks t) {c, b} = without (blocks s) {c, a}"

lemma apart_refl [simp]: "apart s a s a c"
  by (simp add: apart_def)

lemma apart_trans: "apart s a t b c \<Longrightarrow> apart t b u d c \<Longrightarrow> apart s a u d c"
  by (simp add: apart_def)

lemma length_allocated [simp]: "length (yyalloc junk n) = n"
  by (simp add: yyalloc_def)

definition scanner_opened :: "nat \<Rightarrow> nat \<Rightarrow> unit heap_prog" where
  "scanner_opened user_defined f = mseq (heap_init_extra user_defined True) (mseq (yyset_in f) heap_enter)"

lemmas heap_steps = heap_init_extra_def clear_globals_def yyset_extra_def yy_init_globals_def yyset_in_def heap_enter_def
  yyensure_buffer_stack_def heap_create_buffer_def heap_init_buffer_def heap_flush_buffer_def put_current_def
  YY_CURRENT_BUFFER_def YY_CURRENT_BUFFER_LVALUE_def heap_load_buffer_state_def next_char_def

lemma put_zeros:
  assumes "2 \<le> length xs"
  shows "put_chars 0 [0, 0] xs = Ret (xs[0 := 0, Suc 0 := 0])"
proof -
  from assms obtain a b ys where "xs = a # b # ys" by (auto simp: numeral_2_eq_2 Suc_le_length_iff)
  then show ?thesis by (simp add: put_chars_def)
qed

text \<open>The scanner that is opened has the state \<open>Scan_Buffer\<close> starts from, and four blocks more than before.\<close>

lemma opened_spec:
  assumes "heap_ok s"
  shows "wp (scanner_opened d f) h (\<lambda>_ t. \<exists>g c a. yylex_enter (garbage_char s) yylex_init_extra = Ret g \<and> represents t c a g \<and>
    c_buf_p t = (a, yy_c_buf_p g) \<and> yytext t = (a, yytext_ptr g) \<and> garbage_char t = garbage_char s \<and>
    blocks t (yyscanner t) = Some Globals \<and> yy_start_stack t = 0 \<and>
    without (blocks t) {c, a, yy_buffer_stack t, yyscanner t} = blocks s) s"
proof -
  let ?l = "limit s"
  have l: "blocks s ?l = None" "blocks s (Suc ?l) = None" "blocks s (Suc (Suc ?l)) = None" "blocks s (Suc (Suc (Suc ?l))) = None"
    "0 < ?l" "granted s = (\<lambda>_. True)" "free_above (blocks s) ?l"
    using assms by (auto simp: heap_ok_def free_above_def)
  have j: "2 \<le> length (yyalloc (garbage_char s) 16386)" by simp
  then have n: "yyalloc (garbage_char s) 16386 \<noteq> []" by fastforce
  have e: "without (blocks s) {Suc ?l, ?l, Suc (Suc ?l), Suc (Suc (Suc ?l))} = blocks s"
    using l by (auto simp: without_def restrict_map_def fun_eq_iff)
  have fr: "free_above ((blocks s)(?l \<mapsto> x, Suc (Suc (Suc ?l)) \<mapsto> y, Suc (Suc ?l) \<mapsto> z, Suc ?l \<mapsto> w)) (Suc (Suc (Suc (Suc ?l))))" for w x y z
    using l by (auto simp: free_above_def)
  show ?thesis
    using l(5,6) n e fr put_zeros [OF j]
    by (simp add: scanner_opened_def heap_steps wp_simps YY_BUF_SIZE_def represents_def stacked_def
        heap_ok_def yylex_enter_def yylex_init_extra_def yy_create_buffer_def yy_init_buffer_def
        yy_flush_buffer_def Let_def yy_load_buffer_state_def byte_at_def insert_commute)
qed

lemma represents_addresses:
  assumes "represents s c a g"
  shows "c \<noteq> a" "0 < c" "0 < a" "c \<noteq> yy_buffer_stack s" "a \<noteq> yy_buffer_stack s"
  using assms heap_ok_nonzero by (auto simp: represents_def stacked_def)

lemma restart_spec:
  assumes "represents s c a g" "yyrestart g = Ret g'"
  shows "wp (heap_restart f) h (\<lambda>_ t. represents t c a g' \<and> apart s a t a c \<and> c_buf_p t = (a, yy_c_buf_p g') \<and>
    yytext t = (a, yytext_ptr g')) s"
proof -
  have l: "2 \<le> length (yy_ch_buf g)" using assms(1) by (simp add: represents_def)
  then have n: "yy_ch_buf g \<noteq> []" "Suc 0 < length (yy_ch_buf g)" by auto
  obtain ps r where ps: "heap_ok s" "blocks s (yy_buffer_stack s) = Some (Pointers ps)" "0 < yy_buffer_stack s"
    "yy_buffer_stack_top s = 0" "length ps = yy_buffer_stack_max s" "ps \<noteq> []" "ps ! 0 = c"
    and r: "blocks s c = Some (Buffer r)" "ch_buf r = (a, 0)" "blocks s a = Some (Characters (yy_ch_buf g))"
    using assms(1) by (auto simp: represents_def stacked_def)
  show ?thesis
    using l n ps r represents_addresses [OF assms(1)] put_zeros [OF l] assms
    by (simp add: heap_restart_def heap_steps wp_simps yyrestart_def yy_init_buffer_def yy_flush_buffer_def Let_def
        yy_load_buffer_state_def byte_at_def, simp add: represents_def stacked_def heap_ok_def apart_def owned_def) auto
qed

text \<open>The loops over characters, on the list of a block.\<close>

lemma same_block: "blocks s a = Some x \<Longrightarrow> s\<lparr>blocks := (blocks s)(a \<mapsto> x)\<rparr> = s"
  by (simp only: fun_upd_idem_iff [THEN iffD2]) simp

lemma put_twice: "s\<lparr>blocks := m(a \<mapsto> x), blocks := (blocks (s\<lparr>blocks := m(a \<mapsto> x)\<rparr>))(a \<mapsto> y)\<rparr> = s\<lparr>blocks := m(a \<mapsto> y)\<rparr>"
  by simp

lemma move_spec:
  assumes "blocks s a = Some (Characters cs)" "yy_move i j n cs = Ret ds"
  shows "wp (heap_move (a, i) (a, j) n) h Q s \<longleftrightarrow> Q () (s\<lparr>blocks := (blocks s)(a \<mapsto> Characters ds)\<rparr>)"
  using assms
proof (induction n arbitrary: i j cs s)
  case 0
  then show ?case using same_block [of s a "Characters cs"] by (simp only: heap_move.simps yy_move.simps wp_ret outcome.inject)
next
  case (Suc n)
  then have i: "i < length cs" "j < length cs" "yy_move (i + 1) (j + 1) n (cs[i := cs ! j]) = Ret ds"
    by (auto split: if_splits)
  let ?s = "s\<lparr>blocks := (blocks s)(a \<mapsto> Characters (cs[i := cs ! j]))\<rparr>"
  have "wp (heap_move (a, i) (a, j) (Suc n)) h Q s \<longleftrightarrow> wp (heap_move (a, i + 1) (a, j + 1) n) h Q ?s"
    using Suc.prems(1) i(1,2) by (simp add: wp_simps next_char_def)
  also have "\<dots> \<longleftrightarrow> Q () (?s\<lparr>blocks := (blocks ?s)(a \<mapsto> Characters ds)\<rparr>)"
    by (rule Suc.IH [OF _ i(3)]) simp
  finally show ?case unfolding put_twice .
qed

lemma put_chars_Cons: "put_chars i (x # xs) cs = Ret ds \<Longrightarrow> i < length cs \<and> put_chars (i + 1) xs (cs[i := x]) = Ret ds"
  by (auto simp: put_chars_def upd_conv_take_nth_drop take_Suc_conv_app_nth add.commute split: if_splits)

lemma put_string_spec:
  assumes "blocks s a = Some (Characters cs)" "put_chars i xs cs = Ret ds"
  shows "wp (put_string_at (a, i) xs) h Q s \<longleftrightarrow> Q () (s\<lparr>blocks := (blocks s)(a \<mapsto> Characters ds)\<rparr>)"
  using assms
proof (induction xs arbitrary: i cs s)
  case Nil
  then have "ds = cs" by (auto simp: put_chars_def split: if_splits)
  with Nil same_block [of s a "Characters cs"] show ?case by (simp only: put_string_at.simps wp_ret)
next
  case (Cons x xs)
  note i = put_chars_Cons [OF Cons.prems(2)]
  let ?s = "s\<lparr>blocks := (blocks s)(a \<mapsto> Characters (cs[i := x]))\<rparr>"
  have "wp (put_string_at (a, i) (x # xs)) h Q s \<longleftrightarrow> wp (put_string_at (a, i + 1) xs) h Q ?s"
    using Cons.prems(1) i by (simp add: wp_simps next_char_def)
  also have "\<dots> \<longleftrightarrow> Q () (?s\<lparr>blocks := (blocks ?s)(a \<mapsto> Characters ds)\<rparr>)"
    by (rule Cons.IH [OF _ i [THEN conjunct2]]) simp
  finally show ?case unfolding put_twice .
qed

lemma length_yyrealloc [simp]: "length (yyrealloc junk xs n) = n"
  by (simp add: yyrealloc_def min_def)

lemma realloc_spec:
  assumes "heap_ok s" "blocks s a = Some (Characters cs)"
  shows "wp (realloc_chars (a, 0) n) h Q s \<longleftrightarrow> Q (limit s) (s\<lparr>limit := Suc (limit s),
    blocks := without ((blocks s)(limit s \<mapsto> Characters (yyrealloc (garbage_char s) cs n))) {a}\<rparr>)"
proof -
  have "0 < limit s" "0 < a" "a \<noteq> limit s" "granted s = (\<lambda>_. True)"
    using assms heap_okD [OF assms(1)] heap_ok_nonzero [OF assms] by (auto simp: heap_ok_def)
  with assms(2) show ?thesis by (simp add: realloc_chars_def wp_simps)
qed

text \<open>The block of a buffer replaced by a new one.\<close>

lemma moved_block:
  assumes "represents s c a g" "blocks s c = Some (Buffer r)"
    and "q = r\<lparr>buf_size := sz, ch_buf := (limit s, 0)\<rparr>" "length cs \<ge> 2" "0 \<le> sz"
    and "t = s\<lparr>limit := Suc (limit s), blocks := (without ((blocks s)(limit s \<mapsto> Characters cs)) {a})(c \<mapsto> Buffer q), c_buf_p := p\<rparr>"
    and "snd p = yy_c_buf_p g"
  shows "represents t c (limit s) (g\<lparr>yy_buf_size := sz, yy_ch_buf := cs\<rparr>)" "apart s a t (limit s) c"
proof -
  have l: "blocks s (limit s) = None" "0 < limit s" "free_above (blocks s) (limit s)" "granted s = (\<lambda>_. True)"
    using assms(1) heap_okD by (auto simp: represents_def heap_ok_def)
  note n = represents_addresses [OF assms(1)]
  have "c \<noteq> limit s" "a \<noteq> limit s" "yy_buffer_stack s \<noteq> limit s"
    using l(1) assms(1,2) by (auto simp: represents_def stacked_def)
  with l n assms show "represents t c (limit s) (g\<lparr>yy_buf_size := sz, yy_ch_buf := cs\<rparr>)"
    by (auto simp: represents_def stacked_def heap_ok_def)
  show "apart s a t (limit s) c"
    using \<open>c \<noteq> limit s\<close> \<open>a \<noteq> limit s\<close> l(1) n(1) by (auto simp: apart_def owned_def assms(6) fun_eq_iff)
qed

lemma grow_spec:
  assumes "represents s c a g" "fst (c_buf_p s) = a" "yy_grow n (garbage_char s) moved g = Ret g'"
  shows "wp (heap_grow n (int moved)) h (\<lambda>v t. v = yy_buf_size g' - int moved - 1 \<and>
    (\<exists>b. represents t c b g' \<and> apart s a t b c \<and> fst (c_buf_p t) = b)) s"
  using assms
proof (induction n arbitrary: s a g)
  case (Suc n)
  obtain r where r: "heap_ok s" "stacked s [] c" "blocks s a = Some (Characters (yy_ch_buf g))" "blocks s c = Some (Buffer r)"
    "ch_buf r = (a, 0)" "buf_size r = yy_buf_size g" "is_our_buffer r = yy_is_our_buffer g" "is_our_buffer r \<noteq> 0"
    "0 \<le> yy_buf_size g" "snd (c_buf_p s) = yy_c_buf_p g"
    using Suc.prems(1) by (auto simp: represents_def)
  note n = represents_addresses [OF Suc.prems(1)]
  show ?case
  proof (cases "yy_buf_size g - int moved - 1 \<le> 0")
    case False
    with Suc.prems r show ?thesis by (auto simp: wp_simps wp_current)
  next
    case True
    define sz where "sz = yy_buf_size g * 2"
    define cs where "cs = yyrealloc (garbage_char s) (yy_ch_buf g) (nat (sz + 2))"
    let ?g = "g\<lparr>yy_buf_size := sz, yy_ch_buf := cs\<rparr>"
    let ?t = "s\<lparr>limit := Suc (limit s), blocks := (without ((blocks s)(limit s \<mapsto> Characters cs)) {a})
      (c \<mapsto> Buffer (r\<lparr>buf_size := sz, ch_buf := (limit s, 0)\<rparr>)), c_buf_p := (limit s, yy_c_buf_p g)\<rparr>"
    have "yy_buf_size g * 2 \<le> 0 \<Longrightarrow> yy_buf_size g = 0" using r(9) by simp
    with True Suc.prems(3) r(7,8) have g: "yy_buf_size g * 2 < 2 ^ 31" "yy_grow n (garbage_char s) moved ?g = Ret g'"
      by (auto simp: Let_def sz_def cs_def split: if_splits)
    have sz: "0 \<le> sz" "2 \<le> length cs" using r(9) by (simp_all add: sz_def cs_def)
    note t = moved_block [OF Suc.prems(1) r(4) refl sz(2,1) refl, of "(limit s, yy_c_buf_p g)", simplified]
    have l: "c \<noteq> limit s" "a \<noteq> limit s" "0 < limit s" "free_above (blocks s) (limit s)" "granted s = (\<lambda>_. True)"
      using r(1,3,4) heap_okD [OF r(1)] by (auto simp: heap_ok_def)
    have m: "(without ((blocks s)(c \<mapsto> x, limit s \<mapsto> y)) {a})(c \<mapsto> z) = (without ((blocks s)(limit s \<mapsto> y)) {a})(c \<mapsto> z)" for x y z
      using l by (auto simp: fun_eq_iff)
    have "wp (heap_grow (Suc n) (int moved)) h Q s \<longleftrightarrow> wp (heap_grow n (int moved)) h Q ?t" for Q
    proof -
      let ?s = "s\<lparr>blocks := (blocks s)(c \<mapsto> Buffer (r\<lparr>buf_size := sz\<rparr>))\<rparr>"
      have "heap_ok ?s" "blocks ?s a = Some (Characters (yy_ch_buf g))" using r(3,4) l n by (simp_all add: heap_ok_def)
      note realloc = realloc_spec [OF this, of "nat (sz + 2)", unfolded sz_def, simplified]
      from r(9) show ?thesis
        using True g(1) r n l Suc.prems(2) realloc
        apply (cases "yy_buf_size g = 0")
        apply (simp_all add: wp_simps wp_current [OF r(2)] ptr_diff_def Let_def sz_def cs_def m)
        done
    qed
    moreover have "wp (heap_grow n (int moved)) h (\<lambda>v t. v = yy_buf_size g' - int moved - 1 \<and>
        (\<exists>b. represents t c b g' \<and> apart ?t (limit s) t b c \<and> fst (c_buf_p t) = b)) ?t"
      using g(2) by (intro Suc.IH [OF t(1)]) simp_all
    then have "wp (heap_grow n (int moved)) h (\<lambda>v t. v = yy_buf_size g' - int moved - 1 \<and>
        (\<exists>b. represents t c b g' \<and> apart s a t b c \<and> fst (c_buf_p t) = b)) ?t"
      by (rule wp_mono) (blast intro: apart_trans [OF t(2)])
    ultimately show ?thesis by simp
  qed
qed simp

text \<open>The characters of the buffer replaced, and what was read counted.\<close>

lemma replaced_chars:
  assumes "represents s c a g" "length ds = length (yy_ch_buf g)"
  shows "represents (s\<lparr>blocks := (blocks s)(a \<mapsto> Characters ds)\<rparr>) c a (g\<lparr>yy_ch_buf := ds\<rparr>)"
    "apart s a (s\<lparr>blocks := (blocks s)(a \<mapsto> Characters ds)\<rparr>) a c"
  using assms represents_addresses [OF assms(1)]
  by (auto simp: represents_def stacked_def heap_ok_def apart_def owned_def)

lemma counted_chars:
  assumes "represents s c a g" "blocks s c = Some (Buffer r)"
    and "t = s\<lparr>n_chars := int n, blocks := (blocks s)(c \<mapsto> Buffer (r\<lparr>chars_read := int n\<rparr>))\<rparr>"
  shows "represents t c a (g\<lparr>yy_n_chars := n, buffer_n_chars := n\<rparr>)" "apart s a t a c"
  using assms represents_addresses [OF assms(1)]
  by (auto simp: represents_def stacked_def heap_ok_def apart_def owned_def)

lemma wp_count:
  assumes "represents s c a g"
    and "\<And>t. represents t c a (g\<lparr>yy_n_chars := n, buffer_n_chars := n\<rparr>) \<Longrightarrow> apart s a t a c \<Longrightarrow> c_buf_p t = c_buf_p s \<Longrightarrow> Q () t"
  shows "wp (set_n_chars c (int n)) h Q s"
proof -
  obtain r where r: "blocks s c = Some (Buffer r)" using assms(1) by (auto simp: represents_def)
  show ?thesis
    using assms(2) [OF counted_chars [OF assms(1) r refl]] r by (simp add: set_n_chars_def wp_simps)
qed

lemma length_put_chars: "put_chars i xs cs = Ret ds \<Longrightarrow> length ds = length cs"
  by (auto simp: put_chars_def split: if_splits)

lemma length_yy_move: "yy_move i j n cs = Ret ds \<Longrightarrow> length ds = length cs"
  by (induction n arbitrary: i j cs) (auto split: if_splits)

lemma represents_current: "represents s c a g \<Longrightarrow> stacked s [] c"
  by (simp add: represents_def)

lemma read_spec:
  assumes "represents s c a g" "fst (c_buf_p s) = a" "yy_read (garbage_char s) moved g k = Ret (g', k')"
  shows "wp (heap_read (int moved) k) h (\<lambda>v t. v = k' \<and> (\<exists>b. represents t c b g' \<and> apart s a t b c)) s"
proof -
  obtain g1 cs buf where g1: "yy_grow 32 (garbage_char s) moved g = Ret g1"
    "yy_input (min YY_READ_BUF_SIZE (nat (yy_buf_size g1 - int moved - 1))) k = Ret (cs, k')"
    "put_chars moved cs (yy_ch_buf g1) = Ret buf"
    "g' = g1\<lparr>yy_ch_buf := buf, yy_n_chars := length cs, buffer_n_chars := length cs\<rparr>"
    using assms(3) by (auto simp: yy_read_def Let_def obind_Ret_iff)
  have m: "nat (min (int YY_READ_BUF_SIZE) z) = min YY_READ_BUF_SIZE (nat z)" for z by (auto simp: min_def)
  show ?thesis
    unfolding heap_read_def wp_bind
  proof (rule wp_mono [OF grow_spec [OF assms(1,2) g1(1)]], goal_cases)
    case (1 v t)
    then obtain b where b: "represents t c b g1" "apart s a t b c" by auto
    let ?t = "t\<lparr>blocks := (blocks t)(b \<mapsto> Characters buf)\<rparr>"
    obtain r where r: "blocks t c = Some (Buffer r)" "ch_buf r = (b, 0)" "blocks t b = Some (Characters (yy_ch_buf g1))"
      using b(1) by (auto simp: represents_def)
    note replaced = replaced_chars [OF b(1) length_put_chars [OF g1(3)]]
    have "wp (set_n_chars c (int (length cs))) h (\<lambda>_ u. \<exists>b. represents u c b g' \<and> apart s a u b c) ?t"
      using apart_trans [OF b(2) apart_trans [OF replaced(2)]]
      by (intro wp_count [OF replaced(1)]) (auto simp: g1(4))
    then show ?case
      using 1 r g1(2) put_string_spec [OF r(3) g1(3)]
      by (simp add: wp_simps wp_current [OF represents_current [OF b(1)]] next_char_def m)
  qed
qed

lemma close_spec:
  assumes "represents s c a g" "n = yy_n_chars g"
    and "g1 = (if yy_buf_size g < int (n + moved) then g\<lparr>yy_ch_buf := yyrealloc (garbage_char s) (yy_ch_buf g) (n + moved + n div 2),
        yy_buf_size := int (n + moved + n div 2) - 2\<rparr> else g)"
    and "put_chars (n + moved) [0, 0] (yy_ch_buf g1) = Ret buf"
  shows "wp (heap_close (int moved)) h (\<lambda>_ t. \<exists>b. represents t c b (g1\<lparr>yy_n_chars := n + moved, yy_ch_buf := buf, yytext_ptr := 0\<rparr>) \<and>
    apart s a t b c \<and> fst (yytext t) = b) s"
proof -
  let ?g = "\<lambda>g1. g1\<lparr>yy_n_chars := n + moved, yy_ch_buf := buf, yytext_ptr := 0\<rparr>"
  obtain r where r: "heap_ok s" "stacked s [] c" "blocks s a = Some (Characters (yy_ch_buf g))" "blocks s c = Some (Buffer r)"
    "ch_buf r = (a, 0)" "buf_size r = yy_buf_size g" "n_chars s = int n"
    using assms(1,2) by (auto simp: represents_def)
  note n = represents_addresses [OF assms(1)]
  have close: "represents (t\<lparr>n_chars := int (n + moved), blocks := (blocks t)(b \<mapsto> Characters buf), yytext := (b, 0)\<rparr>) c b (?g g1)"
      "apart s a (t\<lparr>n_chars := int (n + moved), blocks := (blocks t)(b \<mapsto> Characters buf), yytext := (b, 0)\<rparr>) b c"
    if "represents t c b g1" "apart s a t b c" for t b
  proof -
    note replaced = replaced_chars [OF that(1) length_put_chars [OF assms(4)]]
    from replaced(1) show "represents (t\<lparr>n_chars := int (n + moved), blocks := (blocks t)(b \<mapsto> Characters buf), yytext := (b, 0)\<rparr>) c b (?g g1)"
      by (simp add: represents_def stacked_def heap_ok_def)
    from apart_trans [OF that(2) replaced(2)]
    show "apart s a (t\<lparr>n_chars := int (n + moved), blocks := (blocks t)(b \<mapsto> Characters buf), yytext := (b, 0)\<rparr>) b c"
      by (simp add: apart_def owned_def)
  qed
  have e: "nat (int n + int moved) = n + moved" by simp
  show ?thesis
  proof (cases "yy_buf_size g < int (n + moved)")
    case False
    then have g: "g1 = g" using assms(3) by simp
    let ?s = "s\<lparr>n_chars := int (n + moved)\<rparr>"
    have "blocks ?s a = Some (Characters (yy_ch_buf g))" using r(3) by simp
    note put = put_string_spec [OF this assms(4) [unfolded g]]
    show ?thesis
      using False r n put close [OF assms(1) [folded g] apart_refl] g
      by (auto simp: heap_close_def wp_simps wp_current next_char_def e simp del: put_string_at.simps)
  next
    case True
    let ?z = "n + moved + n div 2" and ?l = "limit s"
    define cs where "cs = yyrealloc (garbage_char s) (yy_ch_buf g) ?z"
    have g: "g1 = g\<lparr>yy_buf_size := int ?z - 2, yy_ch_buf := cs\<rparr>" using True assms(3) by (simp add: cs_def)
    have z: "2 \<le> length cs" "0 \<le> int ?z - 2"
      using assms(4) g by (auto simp: put_chars_def cs_def split: if_splits)
    let ?t = "s\<lparr>limit := Suc ?l, blocks := (without ((blocks s)(?l \<mapsto> Characters cs)) {a})
      (c \<mapsto> Buffer (r\<lparr>ch_buf := (?l, 0), buf_size := int ?z - 2\<rparr>)), c_buf_p := c_buf_p s\<rparr>"
    have q: "r\<lparr>ch_buf := (?l, 0), buf_size := int ?z - 2\<rparr> = r\<lparr>buf_size := int ?z - 2, ch_buf := (?l, 0)\<rparr>" by simp
    have p: "snd (c_buf_p s) = yy_c_buf_p g" using assms(1) by (simp add: represents_def)
    note t = moved_block [OF assms(1) r(4) q z refl p]
    have l: "c \<noteq> ?l" "a \<noteq> ?l" "0 < ?l" using r(1,3,4) heap_okD [OF r(1)] by auto
    have e2: "nat (int n + int moved + int n div 2) = ?z" by linarith
    let ?u = "?t\<lparr>n_chars := int (n + moved)\<rparr>"
    have "blocks ?u ?l = Some (Characters (yy_ch_buf g1))" using l g by simp
    note put = put_string_spec [OF this assms(4)]
    show ?thesis
      using True r n l put close [OF t [folded g]] realloc_spec [OF r(1,3), of ?z]
      by (auto simp: heap_close_def wp_simps wp_current next_char_def e e2 Let_def cs_def zdiv_int simp del: put_string_at.simps)
  qed
qed

lemma fill_spec:
  assumes "represents s c a g" "fst (c_buf_p s) = a" "yy_refill (garbage_char s) moved g k = Ret (g', k')"
  shows "wp (heap_fill (int moved) k) h (\<lambda>v t. v = k' \<and> (\<exists>b. represents t c b g' \<and> apart s a t b c)) s"
proof -
  obtain r where r: "stacked s [] c" "blocks s c = Some (Buffer r)" "buffer_status r = yy_buffer_status g"
    using assms(1) by (auto simp: represents_def)
  show ?thesis
  proof (cases "yy_buffer_status g = YY_BUFFER_EOF_PENDING")
    case True
    with assms(3) have "k' = k" "g' = g\<lparr>yy_n_chars := 0, buffer_n_chars := 0\<rparr>" by (auto simp: yy_refill_def)
    with True r show ?thesis
      using wp_count [OF assms(1), of 0 "\<lambda>_ t. \<exists>b. represents t c b g' \<and> apart s a t b c" h]
      by (auto simp: heap_fill_def wp_simps wp_current)
  next
    case False
    then show ?thesis using read_spec [OF assms(1,2)] assms(3) r
      by (simp add: yy_refill_def heap_fill_def wp_simps wp_current)
  qed
qed

lemma decide_spec:
  assumes "represents s c a g"
    and "(if yy_n_chars g = 0 then
            if moved = 0 then obind (yyrestart g) (\<lambda>g. Ret (EOB_ACT_END_OF_FILE, g))
            else Ret (EOB_ACT_LAST_MATCH, g\<lparr>yy_buffer_status := YY_BUFFER_EOF_PENDING\<rparr>)
          else Ret (EOB_ACT_CONTINUE_SCAN, g)) = Ret (act, g')"
  shows "wp (heap_decide (int moved)) h (\<lambda>v t. v = act \<and> represents t c a g' \<and> apart s a t a c) s"
proof -
  have n: "n_chars s = int (yy_n_chars g)" using assms(1) by (simp add: represents_def)
  consider "yy_n_chars g \<noteq> 0" | "yy_n_chars g = 0" "moved = 0" | "yy_n_chars g = 0" "moved \<noteq> 0" by blast
  then show ?thesis
  proof cases
    case 1
    with assms n show ?thesis by (auto simp: heap_decide_def wp_simps)
  next
    case 2
    with assms(2) have g: "act = EOB_ACT_END_OF_FILE" "yyrestart g = Ret g'" by (auto simp: obind_Ret_iff)
    from restart_spec [OF assms(1) g(2)]
    have "wp (heap_restart f) h (\<lambda>_ t. represents t c a g' \<and> apart s a t a c) s" for f by (rule wp_mono) simp
    with 2 g n show ?thesis by (simp add: heap_decide_def wp_simps)
  next
    case 3
    with assms n show ?thesis
      using represents_addresses [OF assms(1)]
      by (auto simp: heap_decide_def wp_simps wp_current [OF represents_current [OF assms(1)]]
          represents_def stacked_def heap_ok_def apart_def owned_def)
  qed
qed

lemma refill_spec:
  assumes "represents s c a g" "fst (c_buf_p s) = a" "fst (yytext s) = a" "yytext_ptr g < yy_c_buf_p g"
    and "yy_get_next_buffer (garbage_char s) g k = Ret (act, g', k')"
  shows "wp (heap_get_next_buffer k) h (\<lambda>v t. v = (act, k') \<and> (\<exists>b. represents t c b g' \<and> apart s a t b c \<and>
    fst (yytext t) = b)) s"
proof -
  let ?m = "yy_c_buf_p g - yytext_ptr g - 1"
  obtain r where r: "stacked s [] c" "blocks s c = Some (Buffer r)" "ch_buf r = (a, 0)" "fill_buffer r = yy_fill_buffer g"
    "blocks s a = Some (Characters (yy_ch_buf g))" "n_chars s = int (yy_n_chars g)" "snd (c_buf_p s) = yy_c_buf_p g"
    "yytext s = (a, yytext_ptr g)"
    using assms(1,3) by (cases "yytext s") (auto simp: represents_def)
  have m: "int (yy_c_buf_p g) - int (yytext_ptr g) - 1 = int ?m" "int (yy_c_buf_p g) - int (yytext_ptr g) = 1 \<longleftrightarrow> yy_c_buf_p g - yytext_ptr g = 1"
    "nat (int (yy_c_buf_p g) - int (yytext_ptr g) - 1) = ?m"
    using assms(4) by auto
  have n: "\<not> yy_n_chars g + 1 < yy_c_buf_p g" "\<not> int (yy_n_chars g) + 1 < int (yy_c_buf_p g)"
    using assms(5) by (auto simp: yy_get_next_buffer_def split: if_splits)
  show ?thesis
  proof (cases "yy_fill_buffer g = 0")
    case True
    then show ?thesis
      using assms r m(2) n by (auto simp: heap_get_next_buffer_def ptr_diff_def wp_simps wp_current yy_get_next_buffer_def)
  next
    case False
    define close where "close x = (if yy_buf_size x < int (yy_n_chars x + ?m)
      then x\<lparr>yy_ch_buf := yyrealloc (garbage_char s) (yy_ch_buf x) (yy_n_chars x + ?m + yy_n_chars x div 2),
        yy_buf_size := int (yy_n_chars x + ?m + yy_n_chars x div 2) - 2\<rparr> else x)" for x :: yyguts_t
    define decide where "decide x = (if yy_n_chars x = 0 then
          if ?m = 0 then obind (yyrestart x) (\<lambda>g. Ret (EOB_ACT_END_OF_FILE, g))
          else Ret (EOB_ACT_LAST_MATCH, x\<lparr>yy_buffer_status := YY_BUFFER_EOF_PENDING\<rparr>)
        else Ret (EOB_ACT_CONTINUE_SCAN, x))" for x
    have count: "yy_n_chars (if q then x\<lparr>yy_ch_buf := y, yy_buf_size := z\<rparr> else x) = yy_n_chars x" for q y z and x :: yyguts_t
      by simp
    have "yy_get_next_buffer (garbage_char s) g k =
        obind (yy_move 0 (yytext_ptr g) ?m (yy_ch_buf g)) (\<lambda>buf.
        obind (yy_refill (garbage_char s) ?m (g\<lparr>yy_ch_buf := buf\<rparr>) k) (\<lambda>(g, k).
        obind (decide g) (\<lambda>(act, g).
        obind (put_chars (yy_n_chars g + ?m) [0, 0] (yy_ch_buf (close g))) (\<lambda>buf.
        Ret (act, (close g)\<lparr>yy_n_chars := yy_n_chars g + ?m, yy_ch_buf := buf, yytext_ptr := 0\<rparr>, k)))))"
      using False n(1) unfolding yy_get_next_buffer_def Let_def close_def decide_def count by (simp only: if_False)
    with assms(5) obtain buf g1 g2 buf2 where g: "yy_move 0 (yytext_ptr g) ?m (yy_ch_buf g) = Ret buf"
      "yy_refill (garbage_char s) ?m (g\<lparr>yy_ch_buf := buf\<rparr>) k = Ret (g1, k')" "decide g1 = Ret (act, g2)"
      "put_chars (yy_n_chars g2 + ?m) [0, 0] (yy_ch_buf (close g2)) = Ret buf2"
      "g' = (close g2)\<lparr>yy_n_chars := yy_n_chars g2 + ?m, yy_ch_buf := buf2, yytext_ptr := 0\<rparr>"
      by (auto simp: obind_Ret_iff)
    let ?t = "s\<lparr>blocks := (blocks s)(a \<mapsto> Characters buf)\<rparr>"
    note replaced = replaced_chars [OF assms(1) length_yy_move [OF g(1)]]
    have close_run: "wp (heap_close (int ?m)) h (\<lambda>_ v. \<exists>b. represents v c b g' \<and> apart s a v b c \<and> fst (yytext v) = b) u"
      if "represents u c b g2" "apart s a u b c" for u b
    proof -
      have "garbage_char u = garbage_char s" using that(2) by (simp add: apart_def)
      then have "wp (heap_close (int ?m)) h (\<lambda>_ v. \<exists>d. represents v c d g' \<and> apart u b v d c \<and> fst (yytext v) = d) u"
        unfolding g(5) by (intro close_spec [OF that(1) refl _ g(4)]) (simp only: close_def)
      then show ?thesis by (rule wp_mono) (blast intro: apart_trans [OF that(2)])
    qed
    have decide_run: "wp (heap_decide (int ?m)) h (\<lambda>v u. v = act \<and>
        wp (heap_close (int ?m)) h (\<lambda>_ v. \<exists>b. represents v c b g' \<and> apart s a v b c \<and> fst (yytext v) = b) u) u"
      if "represents u c b g1" "apart s a u b c" for u b
      by (rule wp_mono [OF decide_spec [OF that(1) g(3) [unfolded decide_def]]]) (blast intro: close_run apart_trans [OF that(2)])
    have "garbage_char ?t = garbage_char s" "fst (c_buf_p ?t) = a" using assms(2) by simp_all
    from fill_spec [OF replaced(1) this(2), unfolded this(1), OF g(2)]
    have "wp (heap_fill (int ?m) k) h (\<lambda>v u. v = k' \<and> wp (heap_decide (int ?m)) h (\<lambda>v u. v = act \<and>
        wp (heap_close (int ?m)) h (\<lambda>_ v. \<exists>b. represents v c b g' \<and> apart s a v b c \<and> fst (yytext v) = b) u) u) ?t"
      by (rule wp_mono) (blast intro: decide_run apart_trans [OF replaced(2)])
    then have "wp (mbind (heap_fill (int ?m) k) (\<lambda>k. mbind (heap_decide (int ?m)) (\<lambda>act. mseq (heap_close (int ?m)) (ret (act, k))))) h
      (\<lambda>v t. v = (act, k') \<and> (\<exists>b. represents t c b g' \<and> apart s a t b c \<and> fst (yytext t) = b)) ?t" 
      by (simp add: wp_simps) (elim wp_mono, auto elim!: wp_mono)
    then show ?thesis
      using False r m n assms(2) move_spec [OF r(5) g(1)]
      by (simp add: heap_get_next_buffer_def ptr_diff_def wp_simps wp_current)
  qed
qed

lemma input_char:
  assumes "blocks s (fst (c_buf_p s)) = Some (Characters cs)" "Suc (snd (c_buf_p s)) < length cs" "hold_char s \<noteq> 0"
  shows "wp (input k) h Q s \<longleftrightarrow> Q (uint (hold_char s), k)
    (s\<lparr>blocks := (blocks s)(fst (c_buf_p s) \<mapsto> Characters (cs[snd (c_buf_p s) := 0])), c_buf_p := next_char (c_buf_p s) 1,
      hold_char := cs ! Suc (snd (c_buf_p s))\<rparr>)"
  using assms by (simp add: input_def take_char_def wp_simps next_char_def)

section \<open>From the creation to the destruction\<close>

lemma apart_blocks:
  assumes "apart s a t b c" "blocks s x = Some y" "x \<noteq> c" "x \<noteq> a"
  shows "blocks t x = Some y"
proof -
  have "without (blocks t) {c, b} x = without (blocks s) {c, a} x" using assms(1) by (simp add: apart_def)
  with assms(2-4) show ?thesis by (simp split: if_splits)
qed

lemma destroy_represents:
  assumes "represents s c a g" "blocks s (yyscanner s) = Some Globals" "yy_start_stack s = 0"
  shows "wp yylex_destroy h (\<lambda>v t. v = 0 \<and> heap_ok t \<and>
    blocks t = without (blocks s) {c, a, yy_buffer_stack s, yyscanner s}) s"
proof -
  have r: "heap_ok s" "stacked s [] c" "deletable s c" "buffer_blocks s c = {c, a}"
    using assms(1) by (auto simp: represents_def deletable_def buffer_blocks_def)
  from destroy_spec [OF r(1-3) assms(3,2), of h] show ?thesis by (simp add: r(4) insert_commute)
qed

text \<open>What a scanner may do between its creation and its destruction: change the one buffer it has.\<close>

locale scanning =
  fixes scan :: "'a heap_prog"
    and may :: "(nat \<Rightarrow> u8) \<Rightarrow> yyguts_t \<Rightarrow> bool"
  assumes keeps: "represents s c a g \<Longrightarrow> fst (c_buf_p s) = a \<Longrightarrow> fst (yytext s) = a \<Longrightarrow> may (garbage_char s) g \<Longrightarrow>
    wp scan h (\<lambda>_ t. \<exists>b g'. represents t c b g' \<and> apart s a t b c) s"
begin

lemma released:
  assumes "represents s c a g" "fst (c_buf_p s) = a" "fst (yytext s) = a" "may (garbage_char s) g"
    and "blocks s (yyscanner s) = Some Globals" "yy_start_stack s = 0"
  shows "wp (mseq scan yylex_destroy) h (\<lambda>v t. v = 0 \<and> heap_ok t \<and>
    blocks t = without (blocks s) {c, a, yy_buffer_stack s, yyscanner s}) s"
  unfolding wp_bind
proof (rule wp_mono [OF keeps [OF assms(1-4)]])
  fix v t
  assume "\<exists>b g'. represents t c b g' \<and> apart s a t b c"
  then obtain b g' where t: "represents t c b g'" "apart s a t b c" by blast
  have n: "yyscanner s \<noteq> c" "yyscanner s \<noteq> a" using assms(1,5) by (auto simp: represents_def)
  have e: "yyscanner t = yyscanner s" "yy_start_stack t = 0" "yy_buffer_stack t = yy_buffer_stack s"
    "without (blocks t) {c, b} = without (blocks s) {c, a}" using t(2) assms(6) by (simp_all add: apart_def owned_def)
  have w: "without m {x, y, i, j} = without (without m {x, y}) {i, j}" for m x y i j by (simp add: insert_commute)
  from destroy_represents [OF t(1) _ e(2), of h] apart_blocks [OF t(2) assms(5) n] e
  show "wp yylex_destroy h (\<lambda>v u. v = 0 \<and> heap_ok u \<and> blocks u = without (blocks s) {c, a, yy_buffer_stack s, yyscanner s}) t"
    by (simp only: w)
qed

end

interpretation restarting: scanning "heap_restart f" "\<lambda>_ _. True" for f
proof (unfold_locales, goal_cases)
  case (1 s c a g h)
  then have "2 \<le> length (yy_ch_buf g)" by (simp add: represents_def)
  then obtain g' where "yyrestart g = Ret g'"
    by (cases "yy_ch_buf g")
      (auto simp: yyrestart_def yy_init_buffer_def yy_flush_buffer_def Let_def yy_load_buffer_state_def byte_at_def put_zeros)
  from restart_spec [OF 1(1) this] show ?case by (rule wp_mono) blast
qed

interpretation refilling: scanning "heap_get_next_buffer k"
  "\<lambda>junk g. yytext_ptr g < yy_c_buf_p g \<and> (\<exists>r. yy_get_next_buffer junk g k = Ret r)" for k
proof (unfold_locales, goal_cases)
  case (1 s c a g h)
  then obtain act g' k' where "yytext_ptr g < yy_c_buf_p g" "yy_get_next_buffer (garbage_char s) g k = Ret (act, g', k')" by auto
  from refill_spec [OF 1(1-3) this] show ?case by (rule wp_mono) blast
qed

interpretation inputting: scanning "input k" "\<lambda>junk g. yy_hold_char g \<noteq> 0 \<and> Suc (yy_c_buf_p g) < length (yy_ch_buf g)" for k
proof (unfold_locales, goal_cases)
  case (1 s c a g h)
  then have r: "blocks s a = Some (Characters (yy_ch_buf g))" "snd (c_buf_p s) = yy_c_buf_p g" "hold_char s = yy_hold_char g"
    by (simp_all add: represents_def)
  let ?t = "s\<lparr>blocks := (blocks s)(a \<mapsto> Characters ((yy_ch_buf g)[yy_c_buf_p g := 0]))\<rparr>"
  let ?u = "?t\<lparr>c_buf_p := (a, Suc (yy_c_buf_p g)), hold_char := yy_ch_buf g ! Suc (yy_c_buf_p g)\<rparr>"
  let ?g = "g\<lparr>yy_ch_buf := (yy_ch_buf g)[yy_c_buf_p g := 0], yy_c_buf_p := Suc (yy_c_buf_p g), yy_hold_char := yy_ch_buf g ! Suc (yy_c_buf_p g)\<rparr>"
  have "length ((yy_ch_buf g)[yy_c_buf_p g := 0]) = length (yy_ch_buf g)" by simp
  note replaced = replaced_chars [OF 1(1) this]
  from replaced(1) have "represents ?u c a ?g" by (simp add: represents_def stacked_def heap_ok_def)
  moreover from replaced(2) have "apart s a ?u a c" by (simp add: apart_def owned_def)
  moreover have "wp (input k) h (\<lambda>_ t. t = ?u) s"
    using input_char [of s "yy_ch_buf g" k h "\<lambda>_ t. t = ?u"] 1 r by (simp add: next_char_def)
  ultimately show ?case by (elim wp_mono) blast
qed

section \<open>Properties\<close>

text \<open>\<open>n\<close> calls of \<open>input\<close>.\<close>

fun inputs :: "nat \<Rightarrow> read_result list \<Rightarrow> (int list \<times> read_result list) heap_prog" where
  "inputs 0 k = ret ([], k)"
| "inputs (Suc n) k = mbind (input k) (\<lambda>(c, k). mbind (inputs n k) (\<lambda>(cs, k). ret (c # cs, k)))"

lemma inputs_spec:
  assumes "blocks s (fst (c_buf_p s)) = Some (Characters cs)" "hold_char s # drop (Suc (snd (c_buf_p s))) cs = xs @ y # ys" "0 \<notin> set xs"
  shows "wp (inputs (length xs) k) h (\<lambda>v t. v = (map uint xs, k)) s"
  using assms
proof (induction xs arbitrary: s cs)
  case (Cons x xs)
  let ?a = "fst (c_buf_p s)" and ?i = "snd (c_buf_p s)"
  let ?t = "s\<lparr>blocks := (blocks s)(?a \<mapsto> Characters (cs[?i := 0])), c_buf_p := next_char (c_buf_p s) 1, hold_char := cs ! Suc ?i\<rparr>"
  from Cons.prems(2) have d: "drop (Suc ?i) cs = xs @ y # ys" by simp
  then have i: "Suc ?i < length cs" by (metis append_is_Nil_conv drop_all list.distinct(1) not_le)
  have "wp (inputs (length xs) k) h (\<lambda>v t. v = (map uint xs, k)) ?t"
    using Cons.prems(3) d by (intro Cons.IH [of _ "cs[?i := 0]"]) (simp_all add: next_char_def Cons_nth_drop_Suc [OF i])
  then show ?case
    using Cons.prems input_char [OF Cons.prems(1) i] by (auto simp: wp_simps elim!: wp_mono)
qed (simp add: wp_simps)

text \<open>
  C12: A string that is given to a scanner that has a current buffer is what its characters are read from:
  it becomes the current buffer, up to its zero, and \<open>input\<close> returns its characters in order. This is
  a property of the text of \<open>scanner.c\<close>: the program defines \<open>YY_NO_INPUT\<close>, which leaves \<open>input\<close> out.
\<close>

theorem string_read_back:
  fixes bs rest :: "u8 list"
  assumes "heap_ok s" "stacked s below c" "c \<noteq> 0" "blocks s c = Some (Buffer r)" "points_into s (c_buf_p s) cs"
    and "int (length bs) + 2 < 2 ^ 31" "0 \<notin> set bs"
  shows "\<exists>b t u. yy_scan_string (bs @ 0 # rest) h s = Ret (b, t) \<and> stacked t below b \<and> deletable t b \<and>
    inputs (length bs) k h t = Ret ((map uint bs, k), u)"
proof -
  have sz: "signed_take_bit 31 (int (length bs)) = int (length bs)"
    using assms(6) by (intro signed_take_bit_int_eq_self) simp_all
  have "yy_scan_string (bs @ 0 # rest) h s = yy_scan_bytes (bs @ 0 # rest) (int (length bs)) h s"
    using assms(7) by (simp add: yy_scan_string_def cstring_terminated sz lift_o_def mbind_def)
  with scan_spec [OF assms(1-6), of "0 # rest" h] obtain b t a where t: "yy_scan_string (bs @ 0 # rest) h s = Ret (b, t)"
    "stacked t below b" "deletable t b" "blocks t a = Some (Characters (bs @ [0, 0]))"
    "position t = ((a, 0), (bs @ [0]) ! 0, int (length bs))"
    by (auto simp: wp_iff)
  have "hold_char t # drop (Suc (snd (c_buf_p t))) (bs @ [0, 0]) = bs @ 0 # [0]"
    using t(5) by (cases bs) (simp_all add: position_def)
  from inputs_spec [OF _ this assms(7), of k h] t show ?thesis by (auto simp: position_def wp_iff)
qed

theorem string_read_back_witness:
  "\<exists>b t u. yy_scan_string [111, 107, 0] x86_host (sample_store sample_blocks) = Ret (b, t) \<and>
     inputs 2 [] x86_host t = Ret (([111, 107], []), u)"
proof -
  have "length [111, 107 :: u8] = 2" "map uint [111, 107 :: u8] = [111, 107]" "0 \<notin> set [111, 107 :: u8]" by simp_all
  with string_read_back [OF sample_stack(1,2) _ sample_stack(3,4), of "[111, 107]" "[]" x86_host "[]"] show ?thesis
    by (auto simp: numeral_2_eq_2 [symmetric] simp del: inputs.simps)
qed

text \<open>
  C10: Refilling the buffer, with its pointers into memory that is allocated and released, does what refilling it
  does where pointers are offsets and memory is a list: no access misses its block, none is to a
  block that has been released, and no other block is touched.
\<close>

theorem heap_refill:
  assumes "represents s c a g" "fst (c_buf_p s) = a" "fst (yytext s) = a" "yytext_ptr g < yy_c_buf_p g"
    and "yy_get_next_buffer (garbage_char s) g k = Ret (act, g', k')"
  shows "\<exists>t b. heap_get_next_buffer k h s = Ret ((act, k'), t) \<and> represents t c b g' \<and> apart s a t b c \<and> fst (yytext t) = b"
  using refill_spec [OF assms, of h] by (auto simp: wp_iff)

text \<open>The end of a buffer that is full, so that it has to grow.\<close>

definition sample_state :: yyguts_t where
  "sample_state = \<lparr>yy_ch_buf = [97, 98, 0, 0], yy_buf_pos = 0, yy_buf_size = 2, buffer_n_chars = 2,
     yy_is_our_buffer = 1, yy_fill_buffer = 1, yy_buffer_status = 1, yy_n_chars = 2, yy_hold_char = 98,
     yy_c_buf_p = 3, yytext_ptr = 1, yyleng = 1, yy_init = 1, yy_start = 1,
     yy_last_accepting_state = 0, yy_last_accepting_cpos = 0\<rparr>"

definition full_store :: store where
  "full_store = (sample_store (sample_blocks(4 \<mapsto> Characters [97, 98, 0, 0])))\<lparr>c_buf_p := (4, 3), yytext := (4, 1)\<rparr>"

lemma full_represents: "represents full_store 3 4 sample_state"
  by (simp add: represents_def full_store_def sample_state_def sample_store_def sample_blocks_def heap_ok_def free_above_def
      stacked_def sample_buffer_def)

lemma full_refilled: "\<exists>g. yy_get_next_buffer (\<lambda>_. 85) sample_state [Chunk [99, 100, 101]] =
    Ret (EOB_ACT_CONTINUE_SCAN, g, [Chunk [101]]) \<and> yy_ch_buf g = [98, 99, 100, 0, 0, 85]"
proof -
  have "yy_get_next_buffer (\<lambda>_. 85) sample_state [Chunk [99, 100, 101]] = Ret (EOB_ACT_CONTINUE_SCAN,
    sample_state\<lparr>yy_ch_buf := [98, 99, 100, 0, 0, 85], yy_buf_size := 4, yy_n_chars := 3, yytext_ptr := 0\<rparr>, [Chunk [101]])"
    by code_simp
  then show ?thesis by simp
qed

theorem heap_refill_witness:
  "\<exists>t. heap_get_next_buffer [Chunk [99, 100, 101]] x86_host full_store = Ret ((EOB_ACT_CONTINUE_SCAN, [Chunk [101]]), t) \<and>
     blocks t (fst (yytext t)) = Some (Characters [98, 99, 100, 0, 0, 85])"
proof -
  from full_refilled obtain g where g: "yy_get_next_buffer (garbage_char full_store) sample_state [Chunk [99, 100, 101]] =
      Ret (EOB_ACT_CONTINUE_SCAN, g, [Chunk [101]])" "yy_ch_buf g = [98, 99, 100, 0, 0, 85]"
    by (auto simp: full_store_def sample_store_def)
  from heap_refill [OF full_represents _ _ _ g(1), of x86_host] show ?thesis
    by (auto simp: full_store_def sample_state_def represents_def g(2))
qed

text \<open>
  C11: The life of a scanner: it is created in the state the scanner of the connection starts from, and wherever the
  scanning of its buffer has led to, destroying it succeeds and leaves exactly the blocks there were before, so also
  the data of the server it was created with.
\<close>

theorem scanner_lifetime:
  assumes "heap_ok s"
  shows "\<exists>t g c a. scanner_opened d f h s = Ret ((), t) \<and> yylex_enter (garbage_char s) yylex_init_extra = Ret g \<and>
    represents t c a g \<and> c_buf_p t = (a, yy_c_buf_p g) \<and> yytext t = (a, yytext_ptr g) \<and>
    (\<forall>u b g'. represents u c b g' \<longrightarrow> apart t a u b c \<longrightarrow>
      (\<exists>v. yylex_destroy h u = Ret (0, v) \<and> heap_ok v \<and> blocks v = blocks s))"
proof -
  from opened_spec [OF assms, of d f h] obtain t g c a where t: "scanner_opened d f h s = Ret ((), t)"
    "yylex_enter (garbage_char s) yylex_init_extra = Ret g" "represents t c a g" "c_buf_p t = (a, yy_c_buf_p g)"
    "yytext t = (a, yytext_ptr g)" "blocks t (yyscanner t) = Some Globals" "yy_start_stack t = 0"
    "without (blocks t) {c, a, yy_buffer_stack t, yyscanner t} = blocks s"
    by (auto simp: wp_iff)
  have n: "yyscanner t \<noteq> c" "yyscanner t \<noteq> a" using t(3,6) by (auto simp: represents_def)
  have "\<exists>v. yylex_destroy h u = Ret (0, v) \<and> heap_ok v \<and> blocks v = blocks s" if u: "represents u c b g'" "apart t a u b c" for u b g'
  proof -
    have e: "yyscanner u = yyscanner t" "yy_start_stack u = 0" "yy_buffer_stack u = yy_buffer_stack t"
      "without (blocks u) {c, b} = without (blocks t) {c, a}" using u(2) t(7) by (simp_all add: apart_def owned_def)
    have w: "without m {x, y, i, j} = without (without m {x, y}) {i, j}" for m x y i j by (simp add: insert_commute)
    from destroy_represents [OF u(1) _ e(2), of h] apart_blocks [OF u(2) t(6) n] t(8) e show ?thesis
      by (auto simp: wp_iff w simp del: without_simps(3))
  qed
  with t(1-5) show ?thesis by blast
qed

definition server_store :: store where
  "server_store = (sample_store [1 \<mapsto> Server_data])\<lparr>limit := 2\<rparr>"

theorem scanner_lifetime_witness:
  "\<exists>t u v. scanner_opened 1 3 x86_host server_store = Ret ((), t) \<and> heap_restart 3 x86_host t = Ret ((), u) \<and>
     yylex_destroy x86_host u = Ret (0, v) \<and> blocks v = [1 \<mapsto> Server_data]"
proof -
  have s: "heap_ok server_store" "blocks server_store = [1 \<mapsto> Server_data]"
    by (simp_all add: server_store_def sample_store_def heap_ok_def free_above_def)
  from scanner_lifetime [OF s(1), of 1 3 x86_host] obtain t g c a where t: "scanner_opened 1 3 x86_host server_store = Ret ((), t)"
    "represents t c a g" "c_buf_p t = (a, yy_c_buf_p g)" "yytext t = (a, yytext_ptr g)"
    and d: "\<And>u b g'. represents u c b g' \<Longrightarrow> apart t a u b c \<Longrightarrow> \<exists>v. yylex_destroy x86_host u = Ret (0, v) \<and> blocks v = blocks server_store"
    by blast
  from restarting.keeps [OF t(2), where h = x86_host and f = 3] t(3,4) obtain u b g' where "heap_restart 3 x86_host t = Ret ((), u)"
    "represents u c b g'" "apart t a u b c" by (auto simp: wp_iff)
  with d t(1) s(2) show ?thesis by metis
qed

end
