(* ===== verification/Csapp_Wrappers.thy ===== *)
theory Csapp_Wrappers
  imports Sockets
begin

text \<open>
  The wrappers of \<open>csapp.c\<close> for processes, signals, files, memory, standard input and output, threads
  and semaphores, each over the function of the C library it wraps, which is an argument. Such a
  function is a program on a state that stands for the system and for the memory its pointers reach;
  pointers are words and 0 is the null pointer. What the wrappers print before they end the process is left out.
  \<open>Sockets\<close> has the wrappers the simulator calls.
\<close>

section \<open>Error handling\<close>

text \<open>\<open>exit (0)\<close>, whatever the error is.\<close>

definition posix_error :: "int \<Rightarrow> 'a outcome" where
  "posix_error code = Exit 0"

definition app_error :: "'a outcome" where
  "app_error = Exit 0"

section \<open>Processes\<close>

definition Fork :: "('s, int) prog \<Rightarrow> ('s, int) prog" where
  "Fork fork = mbind fork (\<lambda>pid. if pid < 0 then lift_o unix_error else ret pid)"

definition Execve :: "('f \<Rightarrow> 'a \<Rightarrow> 'e \<Rightarrow> ('s, int) prog) \<Rightarrow> 'f \<Rightarrow> 'a \<Rightarrow> 'e \<Rightarrow> ('s, unit) prog" where
  "Execve execve filename argv envp =
     mbind (execve filename argv envp) (\<lambda>rc. if rc < 0 then lift_o unix_error else ret ())"

definition Wait :: "('p \<Rightarrow> ('s, int) prog) \<Rightarrow> 'p \<Rightarrow> ('s, int) prog" where
  "Wait wait status = mbind (wait status) (\<lambda>pid. if pid < 0 then lift_o unix_error else ret pid)"

definition Waitpid :: "(int \<Rightarrow> 'p \<Rightarrow> int \<Rightarrow> ('s, int) prog) \<Rightarrow> int \<Rightarrow> 'p \<Rightarrow> int \<Rightarrow> ('s, int) prog" where
  "Waitpid waitpid pid iptr options =
     mbind (waitpid pid iptr options) (\<lambda>retpid. if retpid < 0 then lift_o unix_error else ret retpid)"

definition Kill :: "(int \<Rightarrow> int \<Rightarrow> ('s, int) prog) \<Rightarrow> int \<Rightarrow> int \<Rightarrow> ('s, unit) prog" where
  "Kill kill pid signum = mbind (kill pid signum) (\<lambda>rc. if rc < 0 then lift_o unix_error else ret ())"

definition Pause :: "('s, int) prog \<Rightarrow> ('s, unit) prog" where
  "Pause pause = mseq pause (ret ())"

text \<open>\<open>rc\<close> is unsigned.\<close>

definition Sleep :: "(u32 \<Rightarrow> ('s, u32) prog) \<Rightarrow> u32 \<Rightarrow> ('s, u32) prog" where
  "Sleep sleep secs = mbind (sleep secs) (\<lambda>rc. if rc < 0 then lift_o unix_error else ret rc)"

definition Alarm :: "(u32 \<Rightarrow> ('s, u32) prog) \<Rightarrow> u32 \<Rightarrow> ('s, u32) prog" where
  "Alarm alarm seconds = alarm seconds"

definition Setpgid :: "(int \<Rightarrow> int \<Rightarrow> ('s, int) prog) \<Rightarrow> int \<Rightarrow> int \<Rightarrow> ('s, unit) prog" where
  "Setpgid setpgid pid pgid = mbind (setpgid pid pgid) (\<lambda>rc. if rc < 0 then lift_o unix_error else ret ())"

definition Getpgrp :: "('s, int) prog \<Rightarrow> ('s, int) prog" where
  "Getpgrp getpgrp = getpgrp"

section \<open>Signals\<close>

text \<open>\<open>struct sigaction\<close>\<close>

record ('h, 'm) sigaction =
  sa_handler :: 'h
  sa_mask :: 'm
  sa_flags :: int

text \<open>\<open>sigemptyset\<close> with the set it stores, \<open>sigaction\<close> with the old action, and the flag \<open>SA_RESTART\<close>.\<close>

definition Signal :: "('s, int \<times> 'm) prog \<Rightarrow> (int \<Rightarrow> ('h, 'm) sigaction \<Rightarrow> ('s, int \<times> ('h, 'm) sigaction) prog) \<Rightarrow> int \<Rightarrow>
    int \<Rightarrow> 'h \<Rightarrow> ('s, 'h) prog" where
  "Signal sigemptyset sigaction SA_RESTART signum handler =
     mbind sigemptyset (\<lambda>(_, mask).
     mbind (sigaction signum \<lparr>sa_handler = handler, sa_mask = mask, sa_flags = SA_RESTART\<rparr>) (\<lambda>(rc, old_action).
     if rc < 0 then lift_o unix_error else ret (sa_handler old_action)))"

definition Sigprocmask :: "(int \<Rightarrow> 'p \<Rightarrow> 'p \<Rightarrow> ('s, int) prog) \<Rightarrow> int \<Rightarrow> 'p \<Rightarrow> 'p \<Rightarrow> ('s, unit) prog" where
  "Sigprocmask sigprocmask how sigset oldset =
     mbind (sigprocmask how sigset oldset) (\<lambda>rc. if rc < 0 then lift_o unix_error else ret ())"

definition Sigemptyset :: "('p \<Rightarrow> ('s, int) prog) \<Rightarrow> 'p \<Rightarrow> ('s, unit) prog" where
  "Sigemptyset sigemptyset sigset = mbind (sigemptyset sigset) (\<lambda>rc. if rc < 0 then lift_o unix_error else ret ())"

definition Sigfillset :: "('p \<Rightarrow> ('s, int) prog) \<Rightarrow> 'p \<Rightarrow> ('s, unit) prog" where
  "Sigfillset sigfillset sigset = mbind (sigfillset sigset) (\<lambda>rc. if rc < 0 then lift_o unix_error else ret ())"

definition Sigaddset :: "('p \<Rightarrow> int \<Rightarrow> ('s, int) prog) \<Rightarrow> 'p \<Rightarrow> int \<Rightarrow> ('s, unit) prog" where
  "Sigaddset sigaddset sigset signum = mbind (sigaddset sigset signum) (\<lambda>rc. if rc < 0 then lift_o unix_error else ret ())"

definition Sigdelset :: "('p \<Rightarrow> int \<Rightarrow> ('s, int) prog) \<Rightarrow> 'p \<Rightarrow> int \<Rightarrow> ('s, unit) prog" where
  "Sigdelset sigdelset sigset signum = mbind (sigdelset sigset signum) (\<lambda>rc. if rc < 0 then lift_o unix_error else ret ())"

definition Sigismember :: "('p \<Rightarrow> int \<Rightarrow> ('s, int) prog) \<Rightarrow> 'p \<Rightarrow> int \<Rightarrow> ('s, int) prog" where
  "Sigismember sigismember sigset signum =
     mbind (sigismember sigset signum) (\<lambda>rc. if rc < 0 then lift_o unix_error else ret rc)"

section \<open>Files\<close>

definition Open :: "('f \<Rightarrow> int \<Rightarrow> u32 \<Rightarrow> ('s, int) prog) \<Rightarrow> 'f \<Rightarrow> int \<Rightarrow> u32 \<Rightarrow> ('s, int) prog" where
  "Open open_call pathname flags open_mode =
     mbind (open_call pathname flags open_mode) (\<lambda>rc. if rc < 0 then lift_o unix_error else ret rc)"

definition Lseek :: "(int \<Rightarrow> int \<Rightarrow> int \<Rightarrow> ('s, int) prog) \<Rightarrow> int \<Rightarrow> int \<Rightarrow> int \<Rightarrow> ('s, int) prog" where
  "Lseek lseek fildes offset whence =
     mbind (lseek fildes offset whence) (\<lambda>rc. if rc < 0 then lift_o unix_error else ret rc)"

definition Close :: "(int \<Rightarrow> ('s, int) prog) \<Rightarrow> int \<Rightarrow> ('s, unit) prog" where
  "Close close fd = mbind (close fd) (\<lambda>rc. if rc < 0 then lift_o unix_error else ret ())"

definition Select :: "(int \<Rightarrow> 'p \<Rightarrow> 'p \<Rightarrow> 'p \<Rightarrow> 't \<Rightarrow> ('s, int) prog) \<Rightarrow> int \<Rightarrow> 'p \<Rightarrow> 'p \<Rightarrow> 'p \<Rightarrow> 't \<Rightarrow> ('s, int) prog" where
  "Select select n readfds writefds exceptfds timeout =
     mbind (select n readfds writefds exceptfds timeout) (\<lambda>rc. if rc < 0 then lift_o unix_error else ret rc)"

definition Dup2 :: "(int \<Rightarrow> int \<Rightarrow> ('s, int) prog) \<Rightarrow> int \<Rightarrow> int \<Rightarrow> ('s, int) prog" where
  "Dup2 dup2 fd1 fd2 = mbind (dup2 fd1 fd2) (\<lambda>rc. if rc < 0 then lift_o unix_error else ret rc)"

definition Stat :: "('f \<Rightarrow> 'p \<Rightarrow> ('s, int) prog) \<Rightarrow> 'f \<Rightarrow> 'p \<Rightarrow> ('s, unit) prog" where
  "Stat stat filename buf = mbind (stat filename buf) (\<lambda>rc. if rc < 0 then lift_o unix_error else ret ())"

definition Fstat :: "(int \<Rightarrow> 'p \<Rightarrow> ('s, int) prog) \<Rightarrow> int \<Rightarrow> 'p \<Rightarrow> ('s, unit) prog" where
  "Fstat fstat fd buf = mbind (fstat fd buf) (\<lambda>rc. if rc < 0 then lift_o unix_error else ret ())"

section \<open>Memory\<close>

definition Mmap :: "('w::len word \<Rightarrow> 'w word \<Rightarrow> int \<Rightarrow> int \<Rightarrow> int \<Rightarrow> int \<Rightarrow> ('s, 'w word) prog) \<Rightarrow>
    'w word \<Rightarrow> 'w word \<Rightarrow> int \<Rightarrow> int \<Rightarrow> int \<Rightarrow> int \<Rightarrow> ('s, 'w word) prog" where
  "Mmap mmap addr len prot flags fd offset =
     mbind (mmap addr len prot flags fd offset) (\<lambda>ptr. if ptr = - 1 then lift_o unix_error else ret ptr)"

definition Munmap :: "('w::len word \<Rightarrow> 'w word \<Rightarrow> ('s, int) prog) \<Rightarrow> 'w word \<Rightarrow> 'w word \<Rightarrow> ('s, unit) prog" where
  "Munmap munmap start len = mbind (munmap start len) (\<lambda>rc. if rc < 0 then lift_o unix_error else ret ())"

definition Malloc :: "('w::len word \<Rightarrow> ('s, 'w word) prog) \<Rightarrow> 'w word \<Rightarrow> ('s, 'w word) prog" where
  "Malloc malloc sz = mbind (malloc sz) (\<lambda>p. if p = 0 then lift_o unix_error else ret p)"

definition Realloc :: "('w::len word \<Rightarrow> 'w word \<Rightarrow> ('s, 'w word) prog) \<Rightarrow> 'w word \<Rightarrow> 'w word \<Rightarrow> ('s, 'w word) prog" where
  "Realloc realloc ptr sz = mbind (realloc ptr sz) (\<lambda>p. if p = 0 then lift_o unix_error else ret p)"

definition Calloc :: "('w::len word \<Rightarrow> 'w word \<Rightarrow> ('s, 'w word) prog) \<Rightarrow> 'w word \<Rightarrow> 'w word \<Rightarrow> ('s, 'w word) prog" where
  "Calloc calloc nmemb sz = mbind (calloc nmemb sz) (\<lambda>p. if p = 0 then lift_o unix_error else ret p)"

definition Free :: "('w::len word \<Rightarrow> ('s, unit) prog) \<Rightarrow> 'w word \<Rightarrow> ('s, unit) prog" where
  "Free free ptr = free ptr"

section \<open>Standard input and output\<close>

definition Fclose :: "('p \<Rightarrow> ('s, int) prog) \<Rightarrow> 'p \<Rightarrow> ('s, unit) prog" where
  "Fclose fclose fp = mbind (fclose fp) (\<lambda>rc. if rc \<noteq> 0 then lift_o unix_error else ret ())"

definition Fdopen :: "(int \<Rightarrow> 'm \<Rightarrow> ('s, 'w::len word) prog) \<Rightarrow> int \<Rightarrow> 'm \<Rightarrow> ('s, 'w word) prog" where
  "Fdopen fdopen fd type = mbind (fdopen fd type) (\<lambda>fp. if fp = 0 then lift_o unix_error else ret fp)"

definition Fgets :: "('w::len word \<Rightarrow> int \<Rightarrow> 'p \<Rightarrow> ('s, 'w word) prog) \<Rightarrow> ('p \<Rightarrow> ('s, int) prog) \<Rightarrow>
    'w word \<Rightarrow> int \<Rightarrow> 'p \<Rightarrow> ('s, 'w word) prog" where
  "Fgets fgets ferror ptr n fp =
     mbind (fgets ptr n fp) (\<lambda>rptr.
     if rptr = 0 then mbind (ferror fp) (\<lambda>e. if e \<noteq> 0 then lift_o app_error else ret rptr) else ret rptr)"

definition Fopen :: "('f \<Rightarrow> 'm \<Rightarrow> ('s, 'w::len word) prog) \<Rightarrow> 'f \<Rightarrow> 'm \<Rightarrow> ('s, 'w word) prog" where
  "Fopen fopen filename open_mode = mbind (fopen filename open_mode) (\<lambda>fp. if fp = 0 then lift_o unix_error else ret fp)"

text \<open>\<open>EOF\<close> is -1.\<close>

definition Fputs :: "('f \<Rightarrow> 'p \<Rightarrow> ('s, int) prog) \<Rightarrow> 'f \<Rightarrow> 'p \<Rightarrow> ('s, unit) prog" where
  "Fputs fputs ptr fp = mbind (fputs ptr fp) (\<lambda>rc. if rc = - 1 then lift_o unix_error else ret ())"

definition Fread :: "('b \<Rightarrow> 'w::len word \<Rightarrow> 'w word \<Rightarrow> 'p \<Rightarrow> ('s, 'w word) prog) \<Rightarrow> ('p \<Rightarrow> ('s, int) prog) \<Rightarrow>
    'b \<Rightarrow> 'w word \<Rightarrow> 'w word \<Rightarrow> 'p \<Rightarrow> ('s, 'w word) prog" where
  "Fread fread ferror ptr sz nmemb fp =
     mbind (fread ptr sz nmemb fp) (\<lambda>n.
     if n < nmemb then mbind (ferror fp) (\<lambda>e. if e \<noteq> 0 then lift_o unix_error else ret n) else ret n)"

definition Fwrite :: "('b \<Rightarrow> 'w::len word \<Rightarrow> 'w word \<Rightarrow> 'p \<Rightarrow> ('s, 'w word) prog) \<Rightarrow>
    'b \<Rightarrow> 'w word \<Rightarrow> 'w word \<Rightarrow> 'p \<Rightarrow> ('s, unit) prog" where
  "Fwrite fwrite ptr sz nmemb fp =
     mbind (fwrite ptr sz nmemb fp) (\<lambda>n. if n < nmemb then lift_o unix_error else ret ())"

section \<open>Hosts, threads and semaphores\<close>

definition Gethostbyaddr :: "('a \<Rightarrow> int \<Rightarrow> int \<Rightarrow> ('s, 'w::len word) prog) \<Rightarrow> 'a \<Rightarrow> int \<Rightarrow> int \<Rightarrow> ('s, 'w word) prog" where
  "Gethostbyaddr gethostbyaddr addr len type =
     mbind (gethostbyaddr addr len type) (\<lambda>p. if p = 0 then lift_o dns_error else ret p)"

definition Pthread_create :: "('i \<Rightarrow> 'a \<Rightarrow> 'r \<Rightarrow> 'p \<Rightarrow> ('s, int) prog) \<Rightarrow> 'i \<Rightarrow> 'a \<Rightarrow> 'r \<Rightarrow> 'p \<Rightarrow> ('s, unit) prog" where
  "Pthread_create pthread_create tidp attrp routine argp =
     mbind (pthread_create tidp attrp routine argp) (\<lambda>rc. if rc \<noteq> 0 then lift_o (posix_error rc) else ret ())"

definition Pthread_cancel :: "('t \<Rightarrow> ('s, int) prog) \<Rightarrow> 't \<Rightarrow> ('s, unit) prog" where
  "Pthread_cancel pthread_cancel tid =
     mbind (pthread_cancel tid) (\<lambda>rc. if rc \<noteq> 0 then lift_o (posix_error rc) else ret ())"

definition Pthread_join :: "('t \<Rightarrow> 'p \<Rightarrow> ('s, int) prog) \<Rightarrow> 't \<Rightarrow> 'p \<Rightarrow> ('s, unit) prog" where
  "Pthread_join pthread_join tid thread_return =
     mbind (pthread_join tid thread_return) (\<lambda>rc. if rc \<noteq> 0 then lift_o (posix_error rc) else ret ())"

definition Pthread_detach :: "('t \<Rightarrow> ('s, int) prog) \<Rightarrow> 't \<Rightarrow> ('s, unit) prog" where
  "Pthread_detach pthread_detach tid =
     mbind (pthread_detach tid) (\<lambda>rc. if rc \<noteq> 0 then lift_o (posix_error rc) else ret ())"

definition Pthread_exit :: "('p \<Rightarrow> ('s, unit) prog) \<Rightarrow> 'p \<Rightarrow> ('s, unit) prog" where
  "Pthread_exit pthread_exit retval = pthread_exit retval"

definition Pthread_self :: "('s, 't) prog \<Rightarrow> ('s, 't) prog" where
  "Pthread_self pthread_self = pthread_self"

definition Pthread_once :: "('o \<Rightarrow> 'r \<Rightarrow> ('s, int) prog) \<Rightarrow> 'o \<Rightarrow> 'r \<Rightarrow> ('s, unit) prog" where
  "Pthread_once pthread_once once_control init_function = mseq (pthread_once once_control init_function) (ret ())"

definition Sem_init :: "('p \<Rightarrow> int \<Rightarrow> u32 \<Rightarrow> ('s, int) prog) \<Rightarrow> 'p \<Rightarrow> int \<Rightarrow> u32 \<Rightarrow> ('s, unit) prog" where
  "Sem_init sem_init sem pshared initial =
     mbind (sem_init sem pshared initial) (\<lambda>rc. if rc < 0 then lift_o unix_error else ret ())"

text \<open>\<open>P\<close> and \<open>V\<close>\<close>

definition P_sem :: "('p \<Rightarrow> ('s, int) prog) \<Rightarrow> 'p \<Rightarrow> ('s, unit) prog" where
  "P_sem sem_wait sem = mbind (sem_wait sem) (\<lambda>rc. if rc < 0 then lift_o unix_error else ret ())"

definition V_sem :: "('p \<Rightarrow> ('s, int) prog) \<Rightarrow> 'p \<Rightarrow> ('s, unit) prog" where
  "V_sem sem_post sem = mbind (sem_post sem) (\<lambda>rc. if rc < 0 then lift_o unix_error else ret ())"

section \<open>What they all do\<close>

text \<open>
  A wrapper makes one call: if it fails, the process ends with status 0, and otherwise the wrapper returns what
  the call has returned, and the call has had its effect once.
\<close>

locale wrapper =
  fixes wrapped :: "('s, 'b) prog"
    and call :: "('s, 'a) prog"
    and failed :: "'a \<Rightarrow> bool"
    and returned :: "'a \<Rightarrow> 'b"
  assumes wraps: "wrapped = mbind call (\<lambda>r. if failed r then lift_o (Exit 0) else ret (returned r))"
begin

lemma wp_wrapped: "wp wrapped h Q s \<longleftrightarrow> wp call h (\<lambda>r t. \<not> failed r \<and> Q (returned r) t) s"
  unfolding wraps by (auto simp: wp_iff mbind_def lift_o_def ret_def obind_Ret_iff)

lemma succeeds: "call h s = Ret (r, t) \<Longrightarrow> \<not> failed r \<Longrightarrow> wrapped h s = Ret (returned r, t)"
  by (simp add: wraps mbind_def ret_def)

lemma fails: "call h s = Ret (r, t) \<Longrightarrow> failed r \<Longrightarrow> wrapped h s = Exit 0"
  by (simp add: wraps mbind_def lift_o_def)

lemma returns_iff: "(\<exists>t. wrapped h s = Ret (v, t)) \<longleftrightarrow> (\<exists>r t. call h s = Ret (r, t) \<and> \<not> failed r \<and> v = returned r)"
  by (auto simp: wraps mbind_def lift_o_def ret_def obind_Ret_iff)

end

lemmas wrapper_defs = unix_error_def posix_error_def app_error_def dns_error_def wrapper_def

interpretation fork_wrapper: wrapper "Fork fork" "fork" "\<lambda>r. r < 0" "\<lambda>r. r" for fork
  by (simp add: wrapper_defs Fork_def cong: if_cong)

interpretation execve_wrapper: wrapper "Execve execve filename argv envp" "execve filename argv envp" "\<lambda>r. r < 0" "\<lambda>_. ()" for execve filename argv envp
  by (simp add: wrapper_defs Execve_def cong: if_cong)

interpretation wait_wrapper: wrapper "Wait wait status" "wait status" "\<lambda>r. r < 0" "\<lambda>r. r" for wait status
  by (simp add: wrapper_defs Wait_def cong: if_cong)

interpretation waitpid_wrapper: wrapper "Waitpid waitpid pid iptr options" "waitpid pid iptr options" "\<lambda>r. r < 0" "\<lambda>r. r" for waitpid pid iptr options
  by (simp add: wrapper_defs Waitpid_def cong: if_cong)

interpretation kill_wrapper: wrapper "Kill kill pid signum" "kill pid signum" "\<lambda>r. r < 0" "\<lambda>_. ()" for kill pid signum
  by (simp add: wrapper_defs Kill_def cong: if_cong)

interpretation setpgid_wrapper: wrapper "Setpgid setpgid pid pgid" "setpgid pid pgid" "\<lambda>r. r < 0" "\<lambda>_. ()" for setpgid pid pgid
  by (simp add: wrapper_defs Setpgid_def cong: if_cong)

interpretation sigprocmask_wrapper: wrapper "Sigprocmask sigprocmask how sigset oldset" "sigprocmask how sigset oldset" "\<lambda>r. r < 0" "\<lambda>_. ()" for sigprocmask how sigset oldset
  by (simp add: wrapper_defs Sigprocmask_def cong: if_cong)

interpretation sigemptyset_wrapper: wrapper "Sigemptyset sigemptyset sigset" "sigemptyset sigset" "\<lambda>r. r < 0" "\<lambda>_. ()" for sigemptyset sigset
  by (simp add: wrapper_defs Sigemptyset_def cong: if_cong)

interpretation sigfillset_wrapper: wrapper "Sigfillset sigfillset sigset" "sigfillset sigset" "\<lambda>r. r < 0" "\<lambda>_. ()" for sigfillset sigset
  by (simp add: wrapper_defs Sigfillset_def cong: if_cong)

interpretation sigaddset_wrapper: wrapper "Sigaddset sigaddset sigset signum" "sigaddset sigset signum" "\<lambda>r. r < 0" "\<lambda>_. ()" for sigaddset sigset signum
  by (simp add: wrapper_defs Sigaddset_def cong: if_cong)

interpretation sigdelset_wrapper: wrapper "Sigdelset sigdelset sigset signum" "sigdelset sigset signum" "\<lambda>r. r < 0" "\<lambda>_. ()" for sigdelset sigset signum
  by (simp add: wrapper_defs Sigdelset_def cong: if_cong)

interpretation sigismember_wrapper: wrapper "Sigismember sigismember sigset signum" "sigismember sigset signum" "\<lambda>r. r < 0" "\<lambda>r. r" for sigismember sigset signum
  by (simp add: wrapper_defs Sigismember_def cong: if_cong)

interpretation open_wrapper: wrapper "Open open_call pathname flags open_mode" "open_call pathname flags open_mode" "\<lambda>r. r < 0" "\<lambda>r. r" for open_call pathname flags open_mode
  by (simp add: wrapper_defs Open_def cong: if_cong)

interpretation lseek_wrapper: wrapper "Lseek lseek fildes offset whence" "lseek fildes offset whence" "\<lambda>r. r < 0" "\<lambda>r. r" for lseek fildes offset whence
  by (simp add: wrapper_defs Lseek_def cong: if_cong)

interpretation close_wrapper: wrapper "Close close fd" "close fd" "\<lambda>r. r < 0" "\<lambda>_. ()" for close fd
  by (simp add: wrapper_defs Close_def cong: if_cong)

interpretation select_wrapper: wrapper "Select select n readfds writefds exceptfds timeout" "select n readfds writefds exceptfds timeout" "\<lambda>r. r < 0" "\<lambda>r. r" for select n readfds writefds exceptfds timeout
  by (simp add: wrapper_defs Select_def cong: if_cong)

interpretation dup2_wrapper: wrapper "Dup2 dup2 fd1 fd2" "dup2 fd1 fd2" "\<lambda>r. r < 0" "\<lambda>r. r" for dup2 fd1 fd2
  by (simp add: wrapper_defs Dup2_def cong: if_cong)

interpretation stat_wrapper: wrapper "Stat stat filename buf" "stat filename buf" "\<lambda>r. r < 0" "\<lambda>_. ()" for stat filename buf
  by (simp add: wrapper_defs Stat_def cong: if_cong)

interpretation fstat_wrapper: wrapper "Fstat fstat fd buf" "fstat fd buf" "\<lambda>r. r < 0" "\<lambda>_. ()" for fstat fd buf
  by (simp add: wrapper_defs Fstat_def cong: if_cong)

interpretation mmap_wrapper: wrapper "Mmap mmap addr len prot flags fd offset" "mmap addr len prot flags fd offset" "\<lambda>p. p = - 1" "\<lambda>r. r" for mmap addr len prot flags fd offset
  by (simp add: wrapper_defs Mmap_def cong: if_cong)

interpretation munmap_wrapper: wrapper "Munmap munmap start len" "munmap start len" "\<lambda>r. r < 0" "\<lambda>_. ()" for munmap start len
  by (simp add: wrapper_defs Munmap_def cong: if_cong)

interpretation malloc_wrapper: wrapper "Malloc malloc sz" "malloc sz" "\<lambda>p. p = 0" "\<lambda>r. r" for malloc sz
  by (simp add: wrapper_defs Malloc_def cong: if_cong)

interpretation realloc_wrapper: wrapper "Realloc realloc ptr sz" "realloc ptr sz" "\<lambda>p. p = 0" "\<lambda>r. r" for realloc ptr sz
  by (simp add: wrapper_defs Realloc_def cong: if_cong)

interpretation calloc_wrapper: wrapper "Calloc calloc nmemb sz" "calloc nmemb sz" "\<lambda>p. p = 0" "\<lambda>r. r" for calloc nmemb sz
  by (simp add: wrapper_defs Calloc_def cong: if_cong)

interpretation fclose_wrapper: wrapper "Fclose fclose fp" "fclose fp" "\<lambda>r. r \<noteq> 0" "\<lambda>_. ()" for fclose fp
  by (simp add: wrapper_defs Fclose_def cong: if_cong)

interpretation fdopen_wrapper: wrapper "Fdopen fdopen fd type" "fdopen fd type" "\<lambda>p. p = 0" "\<lambda>r. r" for fdopen fd type
  by (simp add: wrapper_defs Fdopen_def cong: if_cong)

interpretation fopen_wrapper: wrapper "Fopen fopen filename open_mode" "fopen filename open_mode" "\<lambda>p. p = 0" "\<lambda>r. r" for fopen filename open_mode
  by (simp add: wrapper_defs Fopen_def cong: if_cong)

interpretation fputs_wrapper: wrapper "Fputs fputs ptr fp" "fputs ptr fp" "\<lambda>r. r = - 1" "\<lambda>_. ()" for fputs ptr fp
  by (simp add: wrapper_defs Fputs_def cong: if_cong)

interpretation fwrite_wrapper: wrapper "Fwrite fwrite ptr sz nmemb fp" "fwrite ptr sz nmemb fp" "\<lambda>n. n < nmemb" "\<lambda>_. ()" for fwrite ptr sz nmemb fp
  by (simp add: wrapper_defs Fwrite_def cong: if_cong)

interpretation gethostbyaddr_wrapper: wrapper "Gethostbyaddr gethostbyaddr addr len type" "gethostbyaddr addr len type" "\<lambda>p. p = 0" "\<lambda>r. r" for gethostbyaddr addr len type
  by (simp add: wrapper_defs Gethostbyaddr_def cong: if_cong)

interpretation pthread_create_wrapper: wrapper "Pthread_create pthread_create tidp attrp routine argp" "pthread_create tidp attrp routine argp" "\<lambda>r. r \<noteq> 0" "\<lambda>_. ()" for pthread_create tidp attrp routine argp
  by (simp add: wrapper_defs Pthread_create_def cong: if_cong)

interpretation pthread_cancel_wrapper: wrapper "Pthread_cancel pthread_cancel tid" "pthread_cancel tid" "\<lambda>r. r \<noteq> 0" "\<lambda>_. ()" for pthread_cancel tid
  by (simp add: wrapper_defs Pthread_cancel_def cong: if_cong)

interpretation pthread_join_wrapper: wrapper "Pthread_join pthread_join tid thread_return" "pthread_join tid thread_return" "\<lambda>r. r \<noteq> 0" "\<lambda>_. ()" for pthread_join tid thread_return
  by (simp add: wrapper_defs Pthread_join_def cong: if_cong)

interpretation pthread_detach_wrapper: wrapper "Pthread_detach pthread_detach tid" "pthread_detach tid" "\<lambda>r. r \<noteq> 0" "\<lambda>_. ()" for pthread_detach tid
  by (simp add: wrapper_defs Pthread_detach_def cong: if_cong)

interpretation sem_init_wrapper: wrapper "Sem_init sem_init sem pshared initial" "sem_init sem pshared initial" "\<lambda>r. r < 0" "\<lambda>_. ()" for sem_init sem pshared initial
  by (simp add: wrapper_defs Sem_init_def cong: if_cong)

interpretation sem_p_wrapper: wrapper "P_sem sem_wait sem" "sem_wait sem" "\<lambda>r. r < 0" "\<lambda>_. ()" for sem_wait sem
  by (simp add: wrapper_defs P_sem_def cong: if_cong)

interpretation sem_v_wrapper: wrapper "V_sem sem_post sem" "sem_post sem" "\<lambda>r. r < 0" "\<lambda>_. ()" for sem_post sem
  by (simp add: wrapper_defs V_sem_def cong: if_cong)

text \<open>The result of \<open>sleep\<close> is unsigned, so that its test never finds it negative.\<close>

lemma sleep_checks_nothing: "Sleep sleep secs = sleep secs"
proof (intro ext)
  fix h s
  show "Sleep sleep secs h s = sleep secs h s"
    by (cases "sleep secs h s") (auto simp: Sleep_def mbind_def ret_def)
qed

text \<open>The end of the file is no error, and a short \<open>fread\<close> at it is none either.\<close>

lemma fgets_at_end:
  "fgets ptr n fp h s = Ret (0, t) \<Longrightarrow> ferror fp h t = Ret (e, u) \<Longrightarrow>
    Fgets fgets ferror ptr n fp h s = (if e = 0 then Ret (0, u) else Exit 0)"
  by (simp add: Fgets_def mbind_def ret_def lift_o_def app_error_def)

lemma fread_at_end:
  "fread ptr sz nmemb fp h s = Ret (n, t) \<Longrightarrow> n < nmemb \<Longrightarrow> ferror fp h t = Ret (e, u) \<Longrightarrow>
    Fread fread ferror ptr sz nmemb fp h s = (if e = 0 then Ret (n, u) else Exit 0)"
  by (simp add: Fread_def mbind_def ret_def lift_o_def unix_error_def)

end
