(* ===== verification/Spec2Isabelle.thy ===== *)
theory Spec2Isabelle
  imports Operations Block_Transfers Steps Simulator Memory_Test Dialogues Approximation Trace_Location
    Threads Sockets Robust_Reads Program Buffer_Heap Csapp_Wrappers
begin

text \<open>
  A verification library for the ARMv5 simulator of this repository
  (\<open>src/arm_simulator-1.4\<close>, C): an instruction set simulator that a debugger drives as a gdb
  server and that receives interrupts on a second connection.

  \<^bold>\<open>The program.\<close> \<open>arm_simulator.c\<close> reads the options, creates a memory (\<open>memory.c\<close>) and a
  processor (\<open>arm_core.c\<close> over the register file of \<open>registers.c\<close>), and starts two threads. One
  feeds the characters of the debugger's connection to the scanner (\<open>scanner.l\<close>, \<open>scanner.c\<close>),
  whose tokens are packets for \<open>gdb_protocol.c\<close>; its handlers read and write registers and memory
  and step the processor with \<open>arm_step\<close> (\<open>arm_instruction.c\<close>), which fetches an instruction and
  hands it to \<open>arm_data_processing.c\<close>, \<open>arm_load_store.c\<close> or \<open>arm_branch_other.c\<close>. The other thread
  passes each byte of the interrupt connection to \<open>arm_exception.c\<close>; \<open>send_irq.c\<close> is the program
  that sends them. A mutex keeps the two apart. Accesses are traced by \<open>trace.c\<close>, messages are
  selected by \<open>debug.c\<close>, and \<open>memory_test.c\<close> tests the memory.

  \<^bold>\<open>How C is modelled.\<close> A function that changes state is a program \<open>host \<Rightarrow> state \<Rightarrow> outcome\<close>
  (theory \<open>Prelude\<close>); integers are words of their width, so that they wrap as in C, and \<open>int\<close>
  variables that stay small are integers. An outcome is a value with the new state, \<open>exit\<close> with
  its status, a failed \<open>assert\<close>, undefined behaviour with its cause (an access outside an object,
  a shift out of range, an uninitialised variable, an unterminated string, a number out of range),
  or \<open>Pending\<close> for a loop that uses up its fuel. The host says what shifts out of range give on
  it, its byte order, and whether \<open>BIG_ENDIAN_SIMULATOR\<close> is defined. The blocks \<open>malloc\<close> returns
  and uninitialised arrays are parameters. Operands of a C operator are evaluated from left
  to right where the program leaves the order open.

  \<^bold>\<open>The theories\<close>, in the order of the code, each with the properties of its part:
  \<^item> \<open>Prelude\<close>: outcomes, programs, and the tools of all proofs: weakest preconditions (collection
    \<open>wp_simps\<close>), preservation of an invariant (\<open>pres\<close>), values a program can return (\<open>yld\<close>), respect
    for a relation on states (\<open>resp\<close>), runs that do not return (\<open>end_simps\<close>).
  \<^item> \<open>Util\<close> (\<open>util.h\<close>, \<open>util.c\<close>): bit fields and shifts. \<open>Memory\<close> (\<open>memory.c\<close>): octets, halfwords and
    words in both byte orders; the locales \<open>byte_store\<close> and \<open>word_store\<close> state the laws of a store of
    octets and of words, and are interpreted on the accesses to an octet and to a word. \<open>Memory_Test\<close> (\<open>memory_test.c\<close>): its tests succeed.
  \<^item> \<open>Arm_Constants\<close>, \<open>Registers\<close>, \<open>Trace\<close>, \<open>Arm_Core\<close>: the constants and names, the register file,
    the trace module and the processor with its traced accesses; \<open>Arm_Core\<close> also has \<open>arm_exception\<close>.
    Its locales \<open>machine_invariant\<close> and \<open>clock_free_invariant\<close> show that every operation keeps an
    invariant that survives the elementary changes of state; \<open>runs\<close> states what a program does up
    to the data of the trace module. \<open>Trace_Location\<close> (\<open>trace_location.h\<close>): the macros that record the
    place of an access, \<open>located\<close>; its locale \<open>access\<close> shows for each of the fifteen accesses that
    they change nothing but the trace.
  \<^item> \<open>Condition\<close>, \<open>Data_Processing\<close>, \<open>Load_Store\<close>, \<open>Branch_Other\<close>, \<open>Instruction\<close>: the instructions and
    the decoder, function by function. \<open>Operations\<close>, \<open>Barrel_Shifter\<close>, \<open>Transfers\<close>,
    \<open>Block_Transfers\<close>, \<open>Steps\<close>: what they do, against the instruction set: the ALU with its flags,
    the shifter operand, single and multiple transfers, the whole step, and runs of many steps
    with their invariant and their independence of tracing.
  \<^item> \<open>Printing\<close>: what happens between steps (switching the trace, printing the state) is invisible to
    the machine. \<open>C_Strings\<close>: the C library's strings, \<open>sscanf\<close> with \<open>%x\<close>, \<open>atoi\<close>, \<open>index\<close>, \<open>sprintf\<close>
    with \<open>%02x\<close>.
  \<^item> \<open>Gdb_Protocol\<close> (\<open>gdb_protocol.c\<close>): the server, whose state extends the machine's; its effects on
    the connection and the mutex are a list of calls. \<open>Gdb_Requests\<close>: the rules for its primitives
    and the locale \<open>server_invariant\<close>, which extends \<open>clock_free_invariant\<close>: every request keeps an
    invariant of the machine. \<open>Gdb_Framing\<close>, \<open>Gdb_Running\<close>, \<open>Gdb_Packets\<close>, \<open>Gdb_Memory\<close>,
    \<open>Gdb_Registers\<close>: frames and hexadecimal words, stepping and continuing, packets and their
    check, the requests for memory and for registers, with their round trips.
  \<^item> \<open>Scanner\<close>: the tables and the matching loop of the generated scanner, proved to find the longest
    match for the patterns of \<open>scanner.l\<close>. \<open>Sessions\<close>: the actions, the buffer of erroneous
    characters, and the loop over the stream: what a debugging session does.
  \<^item> \<open>Scan_Buffer\<close>: the scanner as flex wrote it, with its buffer, which the reads fill, the text that
    is moved to its front, its growth, the two zeros behind it and the jumps between the labels of
    \<open>yylex\<close>. \<open>Scan_Window\<close>: its automaton on the characters in the buffer. \<open>Scan_Fill\<close>: what the refilling
    keeps. \<open>Scan_Stream\<close>: it acts as the scanner of \<open>Sessions\<close> on the whole stream, and handles a packet
    before it reads again.
  \<^item> \<open>Debug_Flags\<close> (\<open>debug.c\<close>, \<open>debug.h\<close>): the sorted table of names with its binary search, and its cached answers. \<open>Robust_Writes\<close>
    (\<open>rio_writen\<close> of \<open>csapp.c\<close>): the writes reach the debugger whole.
  \<^item> \<open>Dialogues\<close>: an abstract server that has only octets and words, and the whole way from the
    connection to the machine and back as a refinement of it. \<open>Approximation\<close>: the order in which
    fuel approximates a run, as an instance of the class \<open>order_bot\<close>.
  \<^item> \<open>Simulator\<close> (\<open>arm_simulator.c\<close>, \<open>send_irq.c\<close>): the options, the creation of the machine, and the two
    threads as a step relation of whole actions; every reachable state is well-formed. \<open>Threads\<close>: the same
    threads in smaller steps, which wait for the mutex, work and release it. The calls under the mutex may
    be cut into parts wherever and however often, so that only the mutex keeps the other thread from running
    between a read and the write that depends on it; \<open>interrupt_lost\<close> shows what would happen then. The locale
    \<open>mover\<close> shows that what a thread does without the mutex can be postponed, so that every interleaving is a
    sequence of whole actions. \<open>Sockets\<close>: the wrappers for sockets of \<open>csapp.c\<close>, the two listeners and \<open>send_irq.c\<close>
    over the answers of the system calls, and the way of an interrupt from the one program to the other;
    the loop of the interrupt listener does not end, so that the theorems speak of its turns, \<open>irq_turn\<close>.
    \<open>Robust_Reads\<close>: the readers of the Rio package, of which the one for lines counts in an \<open>int\<close>, and \<open>Csapp_Wrappers\<close>: the wrappers of \<open>csapp.c\<close> for
    processes, signals, files, memory, threads and semaphores, which no program calls. Each of these is an
    instance of the locale \<open>wrapper\<close>: it makes one call, and a failure of it ends the process with status 0.
  \<^item> \<open>Program\<close>: \<open>main\<close> as a whole, from the options to the end. \<open>simulator_serves\<close> puts together what the other
    theories show of the scanner's buffer, the packets, the requests and the writes, and \<open>every_schedule\<close>
    adds the second thread, the mutex and every way to schedule the two.
  \<^item> \<open>Buffer_Stack\<close>, \<open>Buffer_Heap\<close>: the functions flex generates around the scanner, of which the program calls
    those that create and destroy one: the stack of buffers, the scanning of strings, the accessors, and \<open>input\<close>,
    which is in \<open>scanner.c\<close> but not compiled, because \<open>scanner.l\<close> defines \<open>YY_NO_INPUT\<close>. They run on an explicit heap in which blocks are allocated and released and allocations may be refused.
    There the refilling of the buffer is written once more, with its pointers. The predicate \<open>represents\<close> relates a
    heap to the state of \<open>Scan_Buffer\<close>; the lemmas ending in \<open>_spec\<close> show that each function does there what the
    other does without pointers, and \<open>apart\<close> that no other block is touched. The locale \<open>scanning\<close> says
    what may happen between the creation of a scanner and its destruction; restarting, refilling and \<open>input\<close>
    are instances of it.

  \<^bold>\<open>Fuel.\<close> Two loops of the program can run for ever. That of the interrupt listener is a recursion over the
  answers of the system, and \<open>Pending\<close> when it waits for one that does not come. That of \<open>cont\<close> has the number of
  its turns as a parameter. \<open>continue_stops\<close> shows that a number above the number of steps to the
  breakpoint is enough, whatever it is, and \<open>continue_forever\<close> that for a program that branches to
  itself none is; by \<open>fuel_independent\<close> a session that has an outcome has the same one with more.
  The jumps of the buffered scanner are counted too: \<open>buffered_scanner\<close> and
  \<open>packets_before_failure\<close> show that four for each character and four more are enough. The inner loop of the scanner follows at most three entries; \<open>follow_moves\<close>
  shows that this suffices in every state. The buffer of the scanner is doubled at most 31 times before
  its size is no \<open>int\<close>, which needs a packet of a gigabyte. \<open>threads_atomic\<close> and \<open>every_schedule\<close> hold for any
  number \<open>cuts\<close> of cuts in each call under the mutex, the bound on the steps growing with it. All other loops are recursions with termination proofs.

  \<^bold>\<open>What the theorems show of the code's defects.\<close> The statements describe the code as it is. Where
  it departs from the instruction set or the protocol they say by how much; the manifest lists
  these places.

  \<^bold>\<open>Not modelled.\<close> Text on \<open>stderr\<close>, that is the messages of \<open>debug\<close> and \<open>warning\<close> and the usage
  texts; the file and line each access of the instructions is given by the macros of \<open>trace_location.h\<close> (the models of the instructions make the accesses
  themselves; \<open>located_invisible\<close> shows that only the trace tells the difference); allocations that fail and
  memory that is freed outside of the scanner; the matching loop of the scanner on the heap (it is in
  \<open>Scan_Buffer\<close>, where the buffer is a list); the creation of the threads (the two step relations start behind it) and
  what the system does between the programs: the answers of its calls are lists, and \<open>interrupt_delivered\<close>
  has the bytes that arrive as an assumption; the example programs in assembly and C and the build files.
\<close>

end
